(* ===== verification/Prelude.thy ===== *)
theory Prelude
  imports Complex_Main "HOL-Library.Sublist" "HOL-Library.Char_ord"
    "HOL-Library.List_Lexorder" "HOL-Library.Product_Lexorder"
begin

text \<open>
  What the components share: result values, list lemmas about updating, filtering and
  counting table rows, a generic locale for invariants of transition systems, and the
  theorem collections the component proofs rewrite with.
\<close>

named_theorems row_simps \<open>row functions of the SQL statements\<close>
named_theorems stmt_defs \<open>definitions of the SQL statements\<close>
named_theorems op_defs \<open>definitions of the store operations\<close>

section \<open>Results\<close>

type_synonym ('e, 'a) result = "'e + 'a"

fun res_bind :: "('e, 'a) result \<Rightarrow> ('a \<Rightarrow> ('e, 'b) result) \<Rightarrow> ('e, 'b) result" where
  "res_bind (Inl e) f = Inl e"
| "res_bind (Inr x) f = f x"

fun is_ok :: "('e, 'a) result \<Rightarrow> bool" where
  "is_ok (Inl e) = False"
| "is_ok (Inr x) = True"

lemma res_bind_Inr: "res_bind m f = Inr y \<longleftrightarrow> (\<exists>x. m = Inr x \<and> f x = Inr y)"
  by (cases m) auto

lemma is_ok_iff: "is_ok r \<longleftrightarrow> (\<exists>x. r = Inr x)"
  by (cases r) auto

section \<open>Tables as lists of rows\<close>

definition update_where :: "('r \<Rightarrow> bool) \<Rightarrow> ('r \<Rightarrow> 'r) \<Rightarrow> 'r list \<Rightarrow> 'r list" where
  "update_where P f rs = map (\<lambda>r. if P r then f r else r) rs"

definition count_where :: "('r \<Rightarrow> bool) \<Rightarrow> 'r list \<Rightarrow> nat" where
  "count_where P rs = length (filter P rs)"

definition exists_where :: "('r \<Rightarrow> bool) \<Rightarrow> 'r list \<Rightarrow> bool" where
  "exists_where P rs \<longleftrightarrow> list_ex P rs"

lemma exists_where_iff: "exists_where P rs \<longleftrightarrow> (\<exists>r \<in> set rs. P r)"
  by (simp add: exists_where_def list_ex_iff)

lemma update_where_Nil [simp]: "update_where P f [] = []"
  by (simp add: update_where_def)

lemma update_where_Cons [simp]:
  "update_where P f (r # rs) = (if P r then f r else r) # update_where P f rs"
  by (simp add: update_where_def)

lemma length_update_where [simp]: "length (update_where P f rs) = length rs"
  by (simp add: update_where_def)

lemma set_update_where:
  "set (update_where P f rs) = (\<lambda>r. if P r then f r else r) ` set rs"
  by (simp add: update_where_def)

lemma map_update_where:
  "(\<And>r. P r \<Longrightarrow> k (f r) = k r) \<Longrightarrow> map k (update_where P f rs) = map k rs"
  by (induction rs) auto

lemma update_where_id: "(\<And>r. r \<in> set rs \<Longrightarrow> \<not> P r) \<Longrightarrow> update_where P f rs = rs"
  by (induction rs) auto

lemma update_where_cong:
  "(\<And>r. r \<in> set rs \<Longrightarrow> P r = Q r) \<Longrightarrow> update_where P f rs = update_where Q f rs"
  by (induction rs) auto

lemma ball_update_where:
  "(\<And>r. r \<in> set rs \<Longrightarrow> I r) \<Longrightarrow> (\<And>r. r \<in> set rs \<Longrightarrow> P r \<Longrightarrow> I r \<Longrightarrow> J (f r)) \<Longrightarrow>
   (\<And>r. r \<in> set rs \<Longrightarrow> \<not> P r \<Longrightarrow> I r \<Longrightarrow> J r) \<Longrightarrow>
   r \<in> set (update_where P f rs) \<Longrightarrow> J r"
  by (auto simp: set_update_where split: if_splits)

lemma count_where_Nil [simp]: "count_where P [] = 0"
  by (simp add: count_where_def)

lemma count_where_Cons [simp]:
  "count_where P (r # rs) = (if P r then 1 else 0) + count_where P rs"
  by (simp add: count_where_def)

lemma count_where_append [simp]: "count_where P (rs @ ss) = count_where P rs + count_where P ss"
  by (simp add: count_where_def)

lemma count_where_mono:
  "(\<And>r. r \<in> set rs \<Longrightarrow> P r \<Longrightarrow> Q r) \<Longrightarrow> count_where P rs \<le> count_where Q rs"
  by (induction rs) (auto intro: le_SucI)

lemma count_where_filter: "count_where P (filter Q rs) = count_where (\<lambda>r. P r \<and> Q r) rs"
  by (induction rs) auto

lemma count_where_cong:
  "(\<And>r. r \<in> set rs \<Longrightarrow> P r = Q r) \<Longrightarrow> count_where P rs = count_where Q rs"
  by (induction rs) auto

text \<open>An update that never makes a row counted that was not counted before.\<close>

lemma count_update_le:
  "(\<And>r. r \<in> set rs \<Longrightarrow> P r \<Longrightarrow> Q (f r) \<Longrightarrow> Q r) \<Longrightarrow>
   count_where Q (update_where P f rs) \<le> count_where Q rs"
proof (induction rs)
  case (Cons r rs)
  then have "count_where Q (update_where P f rs) \<le> count_where Q rs" by simp
  moreover have "P r \<Longrightarrow> Q (f r) \<Longrightarrow> Q r" using Cons.prems by simp
  ultimately show ?case by auto
qed simp

lemma count_update_same:
  "(\<And>r. r \<in> set rs \<Longrightarrow> P r \<Longrightarrow> Q (f r) = Q r) \<Longrightarrow>
   count_where Q (update_where P f rs) = count_where Q rs"
  by (induction rs) auto

text \<open>Updating the one row with a given key adds at most that row to a count.\<close>

lemma count_update_key:
  assumes "distinct (map key rs)"
  shows "count_where Q (update_where (\<lambda>r. key r = k) f rs) \<le> Suc (count_where Q rs)"
  using assms
proof (induction rs)
  case (Cons r rs)
  show ?case
  proof (cases "key r = k")
    case True
    then have "update_where (\<lambda>r. key r = k) f rs = rs"
      using Cons.prems by (intro update_where_id) (auto simp: image_iff)
    then show ?thesis using True by simp
  next
    case False
    with Cons show ?thesis by simp
  qed
qed simp

lemma distinct_map_filter: "distinct (map key rs) \<Longrightarrow> distinct (map key (filter P rs))"
  by (induction rs) auto

lemma distinct_key_eq:
  "distinct (map key rs) \<Longrightarrow> r \<in> set rs \<Longrightarrow> s \<in> set rs \<Longrightarrow> key r = key s \<Longrightarrow> r = s"
  by (induction rs) (auto simp: rev_image_eqI)

section \<open>Looking a row up by key\<close>

definition find_by :: "('r \<Rightarrow> bool) \<Rightarrow> 'r list \<Rightarrow> 'r option" where
  "find_by P rs = find P rs"

lemma find_by_Some: "find_by P rs = Some r \<Longrightarrow> r \<in> set rs \<and> P r"
  by (auto simp: find_by_def find_Some_iff)

lemma find_by_None: "find_by P rs = None \<longleftrightarrow> (\<forall>r \<in> set rs. \<not> P r)"
  by (auto simp: find_by_def find_None_iff)

lemma find_by_key:
  assumes "distinct (map key rs)" and "r \<in> set rs"
  shows "find_by (\<lambda>x. key x = key r) rs = Some r"
proof (cases "find_by (\<lambda>x. key x = key r) rs")
  case None
  with assms(2) show ?thesis by (auto simp: find_by_None)
next
  case (Some s)
  with find_by_Some [OF Some] distinct_key_eq [OF assms(1)] assms(2) show ?thesis by auto
qed

lemma find_by_update:
  assumes "\<And>r. P r \<Longrightarrow> key (f r) = key r"
  shows "find_by (\<lambda>x. key x = k) (update_where P f rs) =
    map_option (\<lambda>r. if P r then f r else r) (find_by (\<lambda>x. key x = k) rs)"
  using assms by (induction rs) (auto simp: find_by_def)

section \<open>Minimal elements\<close>

text \<open>\<open>ORDER BY\<close> with \<open>LIMIT 1\<close>: the first row, in table order, with the least key.\<close>

fun first_min :: "('r \<Rightarrow> 'k :: linorder) \<Rightarrow> 'r list \<Rightarrow> 'r option" where
  "first_min k [] = None"
| "first_min k (r # rs) =
     (case first_min k rs of None \<Rightarrow> Some r | Some m \<Rightarrow> if k r \<le> k m then Some r else Some m)"

text \<open>\<open>COALESCE\<close> with a value is not null.\<close>

lemma coalesce_Some [simp]: "\<exists>y. (case x of None \<Rightarrow> Some n | Some z \<Rightarrow> Some z) = Some y"
  by (cases x) simp_all

lemma first_min_None [simp]: "first_min k rs = None \<longleftrightarrow> rs = []"
  by (cases rs) (auto split: option.splits)

lemma first_min_mem: "first_min k rs = Some m \<Longrightarrow> m \<in> set rs"
  by (induction rs arbitrary: m) (auto split: option.splits if_splits)

lemma first_min_le: "first_min k rs = Some m \<Longrightarrow> r \<in> set rs \<Longrightarrow> k m \<le> k r"
  by (induction rs arbitrary: m r) (fastforce split: option.splits if_splits)+

section \<open>Invariants of transition systems\<close>

locale transition_invariant =
  fixes init :: "'s \<Rightarrow> bool"
    and step :: "'s \<Rightarrow> 's \<Rightarrow> bool"
    and inv :: "'s \<Rightarrow> bool"
  assumes init_inv: "init s \<Longrightarrow> inv s"
    and step_inv: "step s t \<Longrightarrow> inv s \<Longrightarrow> inv t"
begin

lemma steps_inv:
  assumes "step\<^sup>*\<^sup>* s t" and "inv s"
  shows "inv t"
  using assms by (induction rule: rtranclp_induct) (auto intro: step_inv)

lemma reachable_inv: "init s \<Longrightarrow> step\<^sup>*\<^sup>* s t \<Longrightarrow> inv t"
  by (blast intro: steps_inv init_inv)

end

end
