(* ===== verification/PyText.thy ===== *)
theory PyText
  imports Prelude
begin

text \<open>
  The parts of Python's text and number library that the code uses: \<open>str.strip\<close>,
  \<open>str.split\<close>, \<open>int(...)\<close> on text, \<open>str(...)\<close> on integers, and the character classes
  its regular expressions match in full. A Python string is a \<open>string\<close> of HOL, so code
  points are limited to 255; no pattern of the code accepts any other.
\<close>

section \<open>Character classes\<close>

definition is_digit :: "char \<Rightarrow> bool" where
  "is_digit c \<longleftrightarrow> 48 \<le> (of_char c :: nat) \<and> (of_char c :: nat) \<le> 57"

definition is_upper :: "char \<Rightarrow> bool" where
  "is_upper c \<longleftrightarrow> 65 \<le> (of_char c :: nat) \<and> (of_char c :: nat) \<le> 90"

definition is_lower :: "char \<Rightarrow> bool" where
  "is_lower c \<longleftrightarrow> 97 \<le> (of_char c :: nat) \<and> (of_char c :: nat) \<le> 122"

definition is_alnum :: "char \<Rightarrow> bool" where
  "is_alnum c \<longleftrightarrow> is_digit c \<or> is_upper c \<or> is_lower c"

definition is_lower_hex :: "char \<Rightarrow> bool" where
  "is_lower_hex c \<longleftrightarrow> is_digit c \<or> (97 \<le> (of_char c :: nat) \<and> (of_char c :: nat) \<le> 102)"

text \<open>The class \<open>[A-Za-z0-9_.:-]\<close> of worker and request identifiers.\<close>

definition id_char :: "char \<Rightarrow> bool" where
  "id_char c \<longleftrightarrow> is_alnum c \<or> c \<in> {CHR ''_'', CHR ''.'', CHR '':'', CHR ''-''}"

text \<open>\<open>re.fullmatch(r"[class]{lo,hi}", s)\<close>.\<close>

definition class_match :: "(char \<Rightarrow> bool) \<Rightarrow> nat \<Rightarrow> nat \<Rightarrow> string \<Rightarrow> bool" where
  "class_match p lo hi s \<longleftrightarrow> lo \<le> length s \<and> length s \<le> hi \<and> list_all p s"

abbreviation worker_id_ok :: "string \<Rightarrow> bool" where
  "worker_id_ok \<equiv> class_match id_char 1 128"

lemma id_char_not_slash [simp]: "\<not> id_char CHR ''/''"
  by (simp add: id_char_def is_alnum_def is_digit_def is_upper_def is_lower_def)

lemma class_match_slash: "class_match id_char lo hi s \<Longrightarrow> CHR ''/'' \<notin> set s"
  by (auto simp: class_match_def list_all_iff)

lemma class_match_nonempty: "class_match p (Suc lo) hi s \<Longrightarrow> s \<noteq> []"
  by (auto simp: class_match_def)

text \<open>
  \<open>str(uuid.UUID(s)) == s\<close>: \<open>str\<close> of a UUID is always the lower-case form with hyphens at
  8, 13, 18 and 23, and parsing such a form succeeds, so the comparison (with a parse error
  counted as a mismatch) holds exactly for those texts.
\<close>

definition canonical_uuid :: "string \<Rightarrow> bool" where
  "canonical_uuid s \<longleftrightarrow> length s = 36 \<and>
     list_all (\<lambda>(i, c). if i \<in> {8, 13, 18, 23} then c = CHR ''-'' else is_lower_hex c)
       (enumerate 0 s)"

lemma canonical_uuid_nonempty: "canonical_uuid s \<Longrightarrow> s \<noteq> []"
  by (auto simp: canonical_uuid_def)

section \<open>Stripping and splitting\<close>

definition py_space :: "char \<Rightarrow> bool" where
  "py_space c \<longleftrightarrow> (let n = (of_char c :: nat) in
     (9 \<le> n \<and> n \<le> 13) \<or> (28 \<le> n \<and> n \<le> 32) \<or> n = 133 \<or> n = 160)"

definition py_strip :: "string \<Rightarrow> string" where
  "py_strip s = rev (dropWhile py_space (rev (dropWhile py_space s)))"

fun py_split :: "char \<Rightarrow> string \<Rightarrow> string list" where
  "py_split d [] = [[]]"
| "py_split d (c # cs) =
     (if c = d then [] # py_split d cs
      else (case py_split d cs of [] \<Rightarrow> [[c]] | w # ws \<Rightarrow> (c # w) # ws))"

text \<open>\<open>SPLIT_PART(s, '/', 1)\<close> of SQL and \<open>s.split("/")[0]\<close> of Python.\<close>

definition before_slash :: "string \<Rightarrow> string" where
  "before_slash s = takeWhile (\<lambda>c. c \<noteq> CHR ''/'') s"

lemma before_slash_owner:
  "CHR ''/'' \<notin> set w \<Longrightarrow> before_slash (w @ ''/'' @ u) = w"
  by (induction w) (auto simp: before_slash_def)

lemma slash_prefix_unique:
  assumes "CHR ''/'' \<notin> set v" and "CHR ''/'' \<notin> set w"
    and "prefix (v @ ''/'') (w @ ''/'' @ u)"
  shows "v = w"
proof -
  from assms(3) obtain r where "v @ ''/'' @ r = w @ ''/'' @ u"
    by (auto simp: prefix_def)
  then have "before_slash (v @ ''/'' @ r) = before_slash (w @ ''/'' @ u)"
    by simp
  with before_slash_owner [OF assms(1), of r] before_slash_owner [OF assms(2), of u]
  show ?thesis by simp
qed

section \<open>Integers\<close>

definition digit_value :: "char \<Rightarrow> nat" where
  "digit_value c = of_char c - 48"

text \<open>Digits with single underscores between them; \<open>ad\<close>: the last character was a digit.\<close>

fun scan_digits :: "bool \<Rightarrow> nat \<Rightarrow> string \<Rightarrow> nat option" where
  "scan_digits ad acc [] = (if ad then Some acc else None)"
| "scan_digits ad acc (c # cs) =
     (if is_digit c then scan_digits True (10 * acc + digit_value c) cs
      else if c = CHR ''_'' \<and> ad then scan_digits False acc cs
      else None)"

text \<open>CPython's limit on the digits \<open>int\<close> converts.\<close>

definition py_digit_limit :: int where
  "py_digit_limit = 4300"

definition py_max_digits :: nat where
  "py_max_digits = nat py_digit_limit"

text \<open>\<open>int(s)\<close>; \<open>None\<close> is \<open>ValueError\<close>, also for more than 4300 digits.\<close>

definition py_int :: "string \<Rightarrow> int option" where
  "py_int s = (let t = py_strip s in
     if py_digit_limit < int (length (filter is_digit t)) then None
     else case t of
       [] \<Rightarrow> None
     | c # cs \<Rightarrow>
         if c = CHR ''-'' then map_option (\<lambda>n. - int n) (scan_digits False 0 cs)
         else if c = CHR ''+'' then map_option int (scan_digits False 0 cs)
         else map_option int (scan_digits False 0 (c # cs)))"

definition digit_char :: "nat \<Rightarrow> char" where
  "digit_char d = char_of (48 + d)"

fun nat_digits :: "nat \<Rightarrow> string" where
  "nat_digits n = (if n < 10 then [digit_char n] else nat_digits (n div 10) @ [digit_char (n mod 10)])"

declare nat_digits.simps [simp del]

definition py_str_int :: "int \<Rightarrow> string" where
  "py_str_int i = (if i < 0 then CHR ''-'' # nat_digits (nat (- i)) else nat_digits (nat i))"

lemma of_digit_char: "d < 10 \<Longrightarrow> of_char (digit_char d) = 48 + d"
  by (simp add: digit_char_def)

lemma is_digit_char [simp]: "d < 10 \<Longrightarrow> is_digit (digit_char d)"
  by (simp add: is_digit_def of_digit_char)

lemma digit_value_char [simp]: "d < 10 \<Longrightarrow> digit_value (digit_char d) = d"
  by (simp add: digit_value_def of_digit_char)

lemma nat_digits_all: "c \<in> set (nat_digits n) \<Longrightarrow> is_digit c"
proof (induction n rule: nat_digits.induct)
  case (1 n)
  then show ?case by (cases "n < 10") (auto simp: nat_digits.simps [of n])
qed

lemma nat_digits_nonempty [simp]: "nat_digits n \<noteq> []"
  by (subst nat_digits.simps) simp

lemma scan_digits_append:
  "(\<And>c. c \<in> set s \<Longrightarrow> is_digit c) \<Longrightarrow> s \<noteq> [] \<Longrightarrow>
   scan_digits ad acc (s @ t) = (case scan_digits ad acc s of None \<Rightarrow> None
     | Some v \<Rightarrow> scan_digits True v t)"
proof (induction s arbitrary: ad acc)
  case (Cons c s)
  show ?case
  proof (cases s)
    case Nil
    then show ?thesis using Cons.prems by simp
  next
    case (Cons d r)
    then show ?thesis using Cons.IH [of True "10 * acc + digit_value c"] Cons.prems by simp
  qed
qed simp

lemma scan_nat_digits: "scan_digits False 0 (nat_digits n) = Some n"
proof (induction n rule: nat_digits.induct)
  case (1 n)
  show ?case
  proof (cases "n < 10")
    case True
    then show ?thesis by (simp add: nat_digits.simps [of n])
  next
    case False
    with 1 have IH: "scan_digits False 0 (nat_digits (n div 10)) = Some (n div 10)" by simp
    have "scan_digits False 0 (nat_digits (n div 10) @ [digit_char (n mod 10)]) =
        Some (10 * (n div 10) + n mod 10)"
      using scan_digits_append [of "nat_digits (n div 10)" False 0 "[digit_char (n mod 10)]"] IH
      by (simp add: nat_digits_all)
    then show ?thesis using False by (simp add: nat_digits.simps [of n])
  qed
qed

lemma nat_digits_length: "n < 10 ^ k \<Longrightarrow> 0 < k \<Longrightarrow> length (nat_digits n) \<le> k"
proof (induction k arbitrary: n)
  case (Suc k)
  show ?case
  proof (cases "n < 10")
    case True
    then show ?thesis by (simp add: nat_digits.simps [of n])
  next
    case False
    with Suc.prems have "n div 10 < 10 ^ k" by (simp add: less_mult_imp_div_less mult.commute)
    moreover from False Suc.prems have "0 < k" by (cases k) auto
    ultimately have "length (nat_digits (n div 10)) \<le> k" by (rule Suc.IH)
    with False show ?thesis by (simp add: nat_digits.simps [of n])
  qed
qed simp

lemma digit_not_space: "is_digit c \<Longrightarrow> \<not> py_space c"
  by (auto simp: is_digit_def py_space_def Let_def)

lemma strip_digits: "(\<And>c. c \<in> set s \<Longrightarrow> \<not> py_space c) \<Longrightarrow> py_strip s = s"
proof -
  assume a: "\<And>c. c \<in> set s \<Longrightarrow> \<not> py_space c"
  have id: "dropWhile py_space u = u" if "\<And>c. c \<in> set u \<Longrightarrow> \<not> py_space c" for u
    using that by (cases u) auto
  have "dropWhile py_space (rev s) = rev s" by (rule id) (simp add: a)
  then show ?thesis by (simp add: py_strip_def id [OF a])
qed

text \<open>\<open>int(str(i)) == i\<close>, below Python's 4300-digit limit.\<close>

lemma py_int_str:
  assumes "\<bar>i\<bar> < 10 ^ py_max_digits"
  shows "py_int (py_str_int i) = Some i"
proof -
  define n where "n = nat \<bar>i\<bar>"
  have "int n < 10 ^ py_max_digits" using assms by (simp add: n_def)
  then have "int n < int (10 ^ py_max_digits)" by simp
  then have "n < 10 ^ py_max_digits" by (simp only: of_nat_less_iff)
  then have len: "length (nat_digits n) \<le> py_max_digits"
    by (rule nat_digits_length) (simp add: py_max_digits_def py_digit_limit_def)
  then have len: "int (length (nat_digits n)) \<le> py_digit_limit"
    by (simp add: py_max_digits_def py_digit_limit_def)
  have strip: "py_strip (nat_digits n) = nat_digits n"
    by (rule strip_digits) (blast dest: nat_digits_all digit_not_space)
  have ns: "\<not> py_space CHR ''-''" by (simp add: py_space_def)
  have strip': "py_strip (CHR ''-'' # nat_digits n) = CHR ''-'' # nat_digits n"
    by (rule strip_digits) (use ns nat_digits_all digit_not_space in auto)
  have all: "filter is_digit (nat_digits n) = nat_digits n"
    by (auto simp: filter_id_conv dest: nat_digits_all)
  have minus: "\<not> is_digit CHR ''-''" "\<not> is_digit CHR ''+''" by (simp_all add: is_digit_def)
  show ?thesis
  proof (cases "i < 0")
    case True
    then have nn: "nat (- i) = n" and ni: "- int n = i" by (simp_all add: n_def)
    show ?thesis
      using len ni by (simp add: py_int_def py_str_int_def Let_def nn True strip' all minus scan_nat_digits)
  next
    case False
    then have nn: "nat i = n" and ni: "int n = i" by (simp_all add: n_def)
    obtain c cs where cs: "nat_digits n = c # cs" by (cases "nat_digits n") auto
    have "is_digit c" using nat_digits_all [of c n] cs by simp
    then have c: "c \<noteq> CHR ''-''" "c \<noteq> CHR ''+''" using minus by auto
    have "py_int (nat_digits n) = map_option int (scan_digits False 0 (nat_digits n))"
      using len c by (simp add: py_int_def Let_def strip all del: scan_digits.simps) (simp add: cs)
    then show ?thesis using False nn ni by (simp add: py_str_int_def scan_nat_digits)
  qed
qed

end
