(* ===== verification/Db.thy ===== *)
theory Db
  imports PyText
begin

text \<open>
  The tables of the coordinator's PostgreSQL database, as the migrations under
  \<open>whisper/sql/migrations\<close> create them, and the observation trigger of migration 0004.
  A table is a list of rows in some order: the order stands for the order PostgreSQL happens
  to visit rows in. Instants are microseconds as integers, the resolution of
  \<open>TIMESTAMPTZ\<close>; \<open>'-infinity'\<close>, the default of \<open>consumer_until\<close>, is \<open>None\<close>.
\<close>

type_synonym time = int

definition secs :: "int \<Rightarrow> time" where
  "secs n = n * 1000000"

datatype status = Accepted | Downloading | Queued | Running | Done | Failed

text \<open>\<open>StatusResponse.stage\<close> and the SQL literals.\<close>

fun status_text :: "status \<Rightarrow> string" where
  "status_text Accepted = ''accepted''"
| "status_text Downloading = ''downloading''"
| "status_text Queued = ''queued''"
| "status_text Running = ''running''"
| "status_text Done = ''done''"
| "status_text Failed = ''failed''"

definition terminal :: "status \<Rightarrow> bool" where
  "terminal s \<longleftrightarrow> s \<in> {Done, Failed}"

definition uploading :: "status \<Rightarrow> bool" where
  "uploading s \<longleftrightarrow> s \<in> {Accepted, Downloading}"

definition in_queue :: "status \<Rightarrow> bool" where
  "in_queue s \<longleftrightarrow> s \<in> {Queued, Running}"

lemmas status_classes = terminal_def uploading_def in_queue_def

record segment =
  seg_start :: rat
  seg_end :: rat
  seg_text :: string

section \<open>Jobs\<close>

text \<open>
  \<open>JobRecord\<close> is the dataclass of \<open>storage.py\<close>. Its fields keep their names, but for
  \<open>format\<close>, \<open>error\<close> and \<open>text\<close>. The JSON column and its text in the record are both
  the decoded list of segments.
\<close>

record JobRecord =
  job_id :: string
  status :: status
  job_format :: string
  preset :: string
  language_override :: string
  initial_prompt_override :: string
  input_path :: string
  result_path :: string
  job_error :: string
  progress_percent :: rat
  attempts :: int
  max_attempts :: int
  lease_owner :: string
  lease_expires_at :: "time option"
  created_at :: time
  updated_at :: time
  started_at :: "time option"
  finished_at :: "time option"
  job_text :: string
  segments_json :: "segment list"
  traceparent :: string
  tracestate :: string
  request_id :: string
  retain_until_ack :: bool
  acknowledged_at :: "time option"
  dispatch_id :: string
  delivery_id :: string

text \<open>The row of \<open>transcription_jobs\<close>: the record and the columns it leaves out.\<close>

record job = JobRecord +
  attempt_started_at :: "time option"
  assigned_worker_id :: string
  assigned_instance_id :: string

definition row_to_job :: "job \<Rightarrow> JobRecord" where
  "row_to_job r = JobRecord.truncate r"

lemma row_to_job_sel [simp]:
  "job_id (row_to_job r) = job_id r"
  "status (row_to_job r) = status r"
  "job_format (row_to_job r) = job_format r"
  "preset (row_to_job r) = preset r"
  "language_override (row_to_job r) = language_override r"
  "initial_prompt_override (row_to_job r) = initial_prompt_override r"
  "input_path (row_to_job r) = input_path r"
  "result_path (row_to_job r) = result_path r"
  "job_error (row_to_job r) = job_error r"
  "progress_percent (row_to_job r) = progress_percent r"
  "attempts (row_to_job r) = attempts r"
  "max_attempts (row_to_job r) = max_attempts r"
  "lease_owner (row_to_job r) = lease_owner r"
  "lease_expires_at (row_to_job r) = lease_expires_at r"
  "created_at (row_to_job r) = created_at r"
  "updated_at (row_to_job r) = updated_at r"
  "started_at (row_to_job r) = started_at r"
  "finished_at (row_to_job r) = finished_at r"
  "job_text (row_to_job r) = job_text r"
  "segments_json (row_to_job r) = segments_json r"
  "traceparent (row_to_job r) = traceparent r"
  "tracestate (row_to_job r) = tracestate r"
  "request_id (row_to_job r) = request_id r"
  "retain_until_ack (row_to_job r) = retain_until_ack r"
  "acknowledged_at (row_to_job r) = acknowledged_at r"
  "dispatch_id (row_to_job r) = dispatch_id r"
  "delivery_id (row_to_job r) = delivery_id r"
  by (simp_all add: row_to_job_def JobRecord.defs)

text \<open>Three-valued SQL: a comparison with a null instant does not select the row.\<close>

fun later :: "time option \<Rightarrow> time \<Rightarrow> bool" where
  "later None t = False"
| "later (Some e) t = (t < e)"

fun earlier_or_null :: "time option \<Rightarrow> time \<Rightarrow> bool" where
  "earlier_or_null None t = True"
| "earlier_or_null (Some e) t = (e < t)"

text \<open>A job whose current attempt holds an unexpired lease.\<close>

definition live :: "time \<Rightarrow> job \<Rightarrow> bool" where
  "live t r \<longleftrightarrow> status r = Running \<and> later (lease_expires_at r) t"

lemma later_antimono: "later e t \<Longrightarrow> s \<le> t \<Longrightarrow> later e s"
  by (cases e) auto

lemma live_antimono: "live t r \<Longrightarrow> s \<le> t \<Longrightarrow> live s r"
  by (auto simp: live_def intro: later_antimono)

lemma earlier_not_later: "earlier_or_null e t \<Longrightarrow> \<not> later e t"
  by (cases e) auto

section \<open>Workers, reports, observations, outbox\<close>

record availability =
  av_worker_id :: string
  av_instance_id :: string
  ready_until :: time
  reported_at :: time
  demand_until :: time
  consumer_until :: "time option"

record worker_report =
  wr_worker_id :: string
  wr_reported_at :: time

record observation =
  ob_worker_id :: string
  ob_event :: string
  total :: int
  seconds_sum :: int
  buckets :: "int list"
  last_at :: time

record outbox_row =
  message_id :: string
  ox_job_id :: string
  available_at :: time
  published_at :: "time option"

record db =
  jobs :: "job list"
  workers :: "availability list"
  reports :: "worker_report list"
  observations :: "observation list"
  outbox :: "outbox_row list"
  migrations :: "string list"
  upload_locks :: "int list"

definition empty_db :: db where
  "empty_db = \<lparr>jobs = [], workers = [], reports = [], observations = [], outbox = [],
     migrations = [], upload_locks = []\<rparr>"

section \<open>Observations\<close>

text \<open>The histogram bounds of the trigger, in seconds.\<close>

definition observe_bounds :: "int list" where
  "observe_bounds = [1, 5, 15, 30, 60, 120, 300, 600, 1800, 3600, 10800]"

definition increments :: "int \<Rightarrow> int list" where
  "increments us = map (\<lambda>b. if us \<le> secs b then 1 else 0) observe_bounds"

text \<open>\<open>transcriber_observe(w, e, seconds)\<close>, with the duration in microseconds.\<close>

definition transcriber_observe ::
  "time \<Rightarrow> string \<Rightarrow> string \<Rightarrow> int \<Rightarrow> observation list \<Rightarrow> observation list" where
  "transcriber_observe now w e us obs =
     (let us' = max 0 us;
          w' = (if w = [] then ''ingress'' else w);
          same = (\<lambda>o'. ob_worker_id o' = w' \<and> ob_event o' = e)
      in if exists_where same obs
         then update_where same (\<lambda>o'. o'\<lparr>total := total o' + 1,
                seconds_sum := seconds_sum o' + us',
                buckets := map2 (+) (buckets o') (increments us'),
                last_at := now\<rparr>) obs
         else obs @ [\<lparr>ob_worker_id = w', ob_event = e, total = 1, seconds_sum = us',
                buckets = increments us', last_at = now\<rparr>])"

definition event_when ::
  "bool \<Rightarrow> time \<Rightarrow> string \<Rightarrow> string \<Rightarrow> int \<Rightarrow> observation list \<Rightarrow> observation list" where
  "event_when b now w e us obs = (if b then transcriber_observe now w e us obs else obs)"

definition failure_event :: "job \<Rightarrow> string" where
  "failure_event new = (if job_error new = ''cancelled'' then ''cancelled'' else ''failed'')"

text \<open>
  \<open>transcriber_observe_job\<close> for an update: the observations it records, in its order, and
  the row it stores.
\<close>

definition trigger_row :: "time \<Rightarrow> job \<Rightarrow> job \<Rightarrow> job" where
  "trigger_row now old new =
     (if attempts old < attempts new then new\<lparr>attempt_started_at := Some now\<rparr> else new)"

definition trigger_update :: "time \<Rightarrow> job \<Rightarrow> job \<Rightarrow> observation list \<Rightarrow> observation list" where
  "trigger_update now old new obs =
    (let prev = before_slash (lease_owner old);
         nxt = before_slash (lease_owner new);
         claimed = attempts old < attempts new;
         done = status new = Done \<and> status old \<noteq> Done;
         obs1 = event_when claimed now nxt ''attempts'' 0 obs;
         obs2 = event_when (claimed \<and> 1 < attempts new) now nxt ''retries'' 0 obs1;
         obs3 = event_when (claimed \<and> \<not> 1 < attempts new) now nxt ''queue_wait''
                  (now - created_at new) obs2;
         obs4 = event_when (status old = Running \<and> (claimed \<or>
                  (status new = Failed \<and> job_error new = ''attempts_exhausted'')))
                  now prev ''lease_expirations'' 0 obs3;
         obs5 = event_when (status old = Running \<and> status new \<in> {Queued, Failed}
                  \<and> job_error new \<noteq> ''cancelled'') now prev ''attempt_failures'' 0 obs4;
         obs6 = event_when done now prev ''completed'' 0 obs5;
         obs7 = (case attempt_started_at old of None \<Rightarrow> obs6
                 | Some s \<Rightarrow> event_when done now prev ''processing'' (now - s) obs6);
         obs8 = event_when done now prev ''turnaround'' (now - created_at new) obs7
     in event_when (\<not> done \<and> status new = Failed \<and> \<not> terminal (status old))
          now prev (failure_event new) 0 obs8)"

definition trigger_insert :: "time \<Rightarrow> observation list \<Rightarrow> observation list" where
  "trigger_insert now obs = transcriber_observe now ''ingress'' ''submitted'' 0 obs"

section \<open>Statements over the jobs table\<close>

text \<open>
  \<open>UPDATE transcription_jobs SET ... WHERE ...\<close>. The trigger fires for a statement whose
  SET list names \<open>status\<close> or \<open>attempts\<close>, once per row, before the row is stored.
\<close>

fun trigger_rows ::
  "time \<Rightarrow> (job \<Rightarrow> bool) \<Rightarrow> (job \<Rightarrow> job) \<Rightarrow> job list \<Rightarrow> observation list \<Rightarrow> observation list" where
  "trigger_rows now P f [] obs = obs"
| "trigger_rows now P f (r # rs) obs =
     trigger_rows now P f rs (if P r then trigger_update now r (f r) obs else obs)"

definition update_jobs :: "time \<Rightarrow> (job \<Rightarrow> bool) \<Rightarrow> (job \<Rightarrow> job) \<Rightarrow> db \<Rightarrow> db" where
  "update_jobs now P f d = d\<lparr>
     jobs := update_where P (\<lambda>r. trigger_row now r (f r)) (jobs d),
     observations := trigger_rows now P f (jobs d) (observations d)\<rparr>"

definition update_jobs_quiet :: "(job \<Rightarrow> bool) \<Rightarrow> (job \<Rightarrow> job) \<Rightarrow> db \<Rightarrow> db" where
  "update_jobs_quiet P f d = d\<lparr>jobs := update_where P f (jobs d)\<rparr>"

text \<open>The selected rows: for \<open>RETURNING\<close> and \<open>rowcount\<close>.\<close>

definition select_jobs :: "(job \<Rightarrow> bool) \<Rightarrow> db \<Rightarrow> job list" where
  "select_jobs P d = filter P (jobs d)"

definition job_by_id :: "string \<Rightarrow> db \<Rightarrow> job option" where
  "job_by_id i d = find_by (\<lambda>r. job_id r = i) (jobs d)"

subsection \<open>What an update changes\<close>

lemma update_jobs_sel [simp]:
  "jobs (update_jobs now P f d) = update_where P (\<lambda>r. trigger_row now r (f r)) (jobs d)"
  "workers (update_jobs now P f d) = workers d" "reports (update_jobs now P f d) = reports d"
  "outbox (update_jobs now P f d) = outbox d" "migrations (update_jobs now P f d) = migrations d"
  "upload_locks (update_jobs now P f d) = upload_locks d"
  by (simp_all add: update_jobs_def)

lemma update_jobs_quiet_sel [simp]:
  "jobs (update_jobs_quiet P f d) = update_where P f (jobs d)"
  "workers (update_jobs_quiet P f d) = workers d" "reports (update_jobs_quiet P f d) = reports d"
  "outbox (update_jobs_quiet P f d) = outbox d"
  "observations (update_jobs_quiet P f d) = observations d"
  "migrations (update_jobs_quiet P f d) = migrations d"
  "upload_locks (update_jobs_quiet P f d) = upload_locks d"
  by (simp_all add: update_jobs_quiet_def)

text \<open>The trigger changes only \<open>attempt_started_at\<close> of the stored row.\<close>

lemma trigger_row_sel [simp]:
  "job_id (trigger_row now r s) = job_id s" "status (trigger_row now r s) = status s"
  "job_error (trigger_row now r s) = job_error s"
  "progress_percent (trigger_row now r s) = progress_percent s"
  "attempts (trigger_row now r s) = attempts s"
  "max_attempts (trigger_row now r s) = max_attempts s"
  "lease_owner (trigger_row now r s) = lease_owner s"
  "lease_expires_at (trigger_row now r s) = lease_expires_at s"
  "created_at (trigger_row now r s) = created_at s"
  "finished_at (trigger_row now r s) = finished_at s"
  "started_at (trigger_row now r s) = started_at s"
  "job_text (trigger_row now r s) = job_text s"
  "segments_json (trigger_row now r s) = segments_json s"
  "request_id (trigger_row now r s) = request_id s"
  "retain_until_ack (trigger_row now r s) = retain_until_ack s"
  "acknowledged_at (trigger_row now r s) = acknowledged_at s"
  "dispatch_id (trigger_row now r s) = dispatch_id s"
  "delivery_id (trigger_row now r s) = delivery_id s"
  "assigned_worker_id (trigger_row now r s) = assigned_worker_id s"
  "assigned_instance_id (trigger_row now r s) = assigned_instance_id s"
  "input_path (trigger_row now r s) = input_path s"
  "result_path (trigger_row now r s) = result_path s"
  "job_format (trigger_row now r s) = job_format s"
  "preset (trigger_row now r s) = preset s"
  "language_override (trigger_row now r s) = language_override s"
  "initial_prompt_override (trigger_row now r s) = initial_prompt_override s"
  by (simp_all add: trigger_row_def)

lemma live_trigger_row [simp]: "live t (trigger_row now r s) = live t s"
  by (simp add: live_def)

lemma job_by_id_Some: "job_by_id i d = Some r \<Longrightarrow> r \<in> set (jobs d) \<and> job_id r = i"
  by (auto simp: job_by_id_def dest: find_by_Some)

lemma job_by_id_None: "job_by_id i d = None \<longleftrightarrow> (\<forall>r \<in> set (jobs d). job_id r \<noteq> i)"
  by (auto simp: job_by_id_def find_by_None)

lemma job_by_id_mem:
  "distinct (map job_id (jobs d)) \<Longrightarrow> r \<in> set (jobs d) \<Longrightarrow> job_by_id (job_id r) d = Some r"
  by (simp add: job_by_id_def find_by_key)

lemma job_by_id_update_jobs:
  assumes "\<And>r. P r \<Longrightarrow> job_id (f r) = job_id r"
  shows "job_by_id i (update_jobs now P f d) =
    map_option (\<lambda>r. if P r then trigger_row now r (f r) else r) (job_by_id i d)"
  using assms by (simp add: job_by_id_def find_by_update)

lemma job_by_id_update_quiet:
  assumes "\<And>r. P r \<Longrightarrow> job_id (f r) = job_id r"
  shows "job_by_id i (update_jobs_quiet P f d) =
    map_option (\<lambda>r. if P r then f r else r) (job_by_id i d)"
  using assms by (simp add: job_by_id_def find_by_update)

section \<open>Totals of the observations\<close>

text \<open>The total of an event over all workers, as the dashboards sum it.\<close>

definition event_total :: "string \<Rightarrow> observation list \<Rightarrow> int" where
  "event_total e obs = (\<Sum>o' \<leftarrow> obs. if ob_event o' = e then total o' else 0)"

text \<open>The primary key \<open>(worker_id, event)\<close> of the table.\<close>

definition obs_keys :: "observation list \<Rightarrow> (string \<times> string) list" where
  "obs_keys obs = map (\<lambda>o'. (ob_worker_id o', ob_event o')) obs"

text \<open>
  A row is a cumulative histogram over the bounds: its buckets do not decrease, and none
  exceeds the total.
\<close>

definition hist_ok :: "observation \<Rightarrow> bool" where
  "hist_ok x \<longleftrightarrow> length (buckets x) = length observe_bounds \<and> sorted (buckets x) \<and>
     (\<forall>b \<in> set (buckets x). 0 \<le> b \<and> b \<le> total x)"

definition obs_ok :: "observation list \<Rightarrow> bool" where
  "obs_ok obs \<longleftrightarrow> distinct (obs_keys obs) \<and> list_all hist_ok obs"

lemma sorted_map2_plus: "sorted xs \<Longrightarrow> sorted ys \<Longrightarrow> length xs = length ys \<Longrightarrow> sorted (map2 (+) xs (ys :: int list))"
  by (auto simp: sorted_iff_nth_mono intro: add_mono)

lemma increments_ok: "length (increments us) = length observe_bounds \<and> sorted (increments us) \<and> set (increments us) \<subseteq> {0, 1}"
proof -
  have "sorted observe_bounds" by (simp add: observe_bounds_def)
  then have "sorted (increments us)"
    unfolding increments_def by (auto simp: sorted_iff_nth_mono secs_def) (smt (verit))
  then show ?thesis by (auto simp: increments_def)
qed

lemma hist_ok_bump:
  assumes "hist_ok x"
  shows "hist_ok (x\<lparr>total := total x + 1, seconds_sum := s, buckets := map2 (+) (buckets x) (increments us), last_at := now\<rparr>)"
proof -
  note inc = increments_ok [of us]
  have len: "length (buckets x) = length (increments us)" using assms inc by (simp add: hist_ok_def)
  have "0 \<le> a + b \<and> a + b \<le> total x + 1" if "(a, b) \<in> set (zip (buckets x) (increments us))" for a b
  proof -
    have "a \<in> set (buckets x)" "b \<in> {0, 1}" using set_zip_leftD [OF that] set_zip_rightD [OF that] inc by auto
    then show ?thesis using assms by (auto simp: hist_ok_def)
  qed
  then show ?thesis using assms inc len sorted_map2_plus [of "buckets x" "increments us"] by (auto simp: hist_ok_def)
qed

lemma event_total_bump:
  assumes "distinct (obs_keys obs)" and "o' \<in> set obs"
    and "ob_worker_id o' = w" and "ob_event o' = e"
    and "\<And>x. ob_event (g x) = ob_event x" and "\<And>x. total (g x) = total x + 1"
  shows "event_total e' (update_where (\<lambda>x. ob_worker_id x = w \<and> ob_event x = e) g obs) =
    event_total e' obs + (if e' = e then 1 else 0)"
  using assms(1,2)
proof (induction obs)
  case (Cons x obs)
  show ?case
  proof (cases "ob_worker_id x = w \<and> ob_event x = e")
    case True
    then have "update_where (\<lambda>x. ob_worker_id x = w \<and> ob_event x = e) g obs = obs"
      using Cons.prems by (intro update_where_id) (auto simp: obs_keys_def image_iff)
    with True show ?thesis by (auto simp: event_total_def assms)
  next
    case False
    then have "o' \<in> set obs" using Cons.prems assms by auto
    with Cons False show ?thesis by (auto simp: event_total_def obs_keys_def)
  qed
qed simp

lemma event_total_observe:
  assumes "obs_ok obs"
  shows "event_total e' (transcriber_observe now w e us obs) =
    event_total e' obs + (if e' = e then 1 else 0)"
proof -
  define w' where "w' = (if w = [] then ''ingress'' else w)"
  show ?thesis
  proof (cases "exists_where (\<lambda>o'. ob_worker_id o' = w' \<and> ob_event o' = e) obs")
    case True
    then obtain o' where "o' \<in> set obs" "ob_worker_id o' = w'" "ob_event o' = e"
      by (auto simp: exists_where_iff)
    from event_total_bump [OF _ this] assms True show ?thesis
      by (simp add: obs_ok_def transcriber_observe_def Let_def w'_def [symmetric])
  next
    case False
    then show ?thesis
      by (simp add: transcriber_observe_def Let_def w'_def [symmetric] event_total_def)
  qed
qed

lemma obs_keys_observe:
  assumes "distinct (obs_keys obs)"
  shows "distinct (obs_keys (transcriber_observe now w e us obs))"
proof -
  define w' where "w' = (if w = [] then ''ingress'' else w)"
  show ?thesis
  proof (cases "exists_where (\<lambda>o'. ob_worker_id o' = w' \<and> ob_event o' = e) obs")
    case True
    then show ?thesis using assms
      by (simp add: transcriber_observe_def Let_def w'_def [symmetric] obs_keys_def map_update_where)
  next
    case False
    then show ?thesis using assms
      by (auto simp: transcriber_observe_def Let_def w'_def [symmetric] obs_keys_def
          exists_where_iff)
  qed
qed

lemma obs_ok_observe:
  assumes "obs_ok obs"
  shows "obs_ok (transcriber_observe now w e us obs)"
proof -
  have new: "hist_ok \<lparr>ob_worker_id = w', ob_event = e, total = 1, seconds_sum = s, buckets = increments us', last_at = now\<rparr>"
    for w' s us' using increments_ok [of us'] by (auto simp: hist_ok_def)
  have "list_all hist_ok (transcriber_observe now w e us obs)"
    using assms hist_ok_bump new
    by (auto simp: obs_ok_def transcriber_observe_def Let_def list_all_iff set_update_where)
  with assms obs_keys_observe show ?thesis by (simp add: obs_ok_def)
qed

lemma obs_ok_event_when: "obs_ok obs \<Longrightarrow> obs_ok (event_when b now w e us obs)"
  by (simp add: event_when_def obs_ok_observe)

lemma event_total_event_when:
  "obs_ok obs \<Longrightarrow>
   event_total e' (event_when b now w e us obs) =
     event_total e' obs + (if b \<and> e' = e then 1 else 0)"
  by (simp add: event_when_def event_total_observe)

end
