(* ===== verification/Scheduling.thy ===== *)
theory Scheduling
  imports PyText
begin

text \<open>
  \<open>whisper/scheduling.py\<close>: the operator's pool policies and the concurrency setting.
\<close>

record policy =
  priority :: int
  max_concurrency :: int

text \<open>A Python dict in insertion order, as its association list.\<close>

type_synonym policies = "(string \<times> policy) list"

datatype config_error =
  InvalidPolicies
| InvalidConcurrency
| InvalidLimit string
| InvalidSetting string
| InvalidInteger string
| MissingVariable string

definition worker_concurrency :: "string \<Rightarrow> (config_error, int) result" where
  "worker_concurrency value = (case py_int value of
     None \<Rightarrow> Inl InvalidConcurrency
   | Some c \<Rightarrow> if 1 \<le> c \<and> c \<le> 16 then Inr c else Inl InvalidConcurrency)"

end
