(* ===== verification/Sql.thy ===== *)
theory Sql
  imports Db Scheduling
begin

text \<open>
  The statements under \<open>whisper/sql\<close>, one definition per file, over the tables of \<open>Db\<close>.
  \<open>now\<close> is \<open>NOW()\<close>, the instant the transaction began; \<open>clk\<close> is \<open>clock_timestamp()\<close>, the
  clock when the statement runs. The two differ: a transaction that waited for the scheduler
  lock has a \<open>now\<close> in the past. A statement reads the clock once here.
\<close>

section \<open>Leases\<close>

definition heartbeat_sel :: "string \<Rightarrow> string \<Rightarrow> time \<Rightarrow> job \<Rightarrow> bool" where
  [row_simps]: "heartbeat_sel i owner clk r \<longleftrightarrow> job_id r = i \<and> lease_owner r = owner \<and> live clk r"

definition heartbeat_row :: "time \<Rightarrow> time \<Rightarrow> int \<Rightarrow> rat \<Rightarrow> job \<Rightarrow> job" where
  [row_simps]: "heartbeat_row now clk lease prog r = r\<lparr>
     lease_expires_at := Some (clk + secs lease), progress_percent := prog, updated_at := now\<rparr>"

definition sql_heartbeat ::
  "time \<Rightarrow> time \<Rightarrow> int \<Rightarrow> rat \<Rightarrow> string \<Rightarrow> string \<Rightarrow> db \<Rightarrow> db" where
  [stmt_defs]: "sql_heartbeat now clk lease prog i owner =
     update_jobs_quiet (heartbeat_sel i owner clk) (heartbeat_row now clk lease prog)"

definition owned_sel :: "string \<Rightarrow> string \<Rightarrow> time \<Rightarrow> job \<Rightarrow> bool" where
  [row_simps]: "owned_sel i owner now r \<longleftrightarrow> job_id r = i \<and> lease_owner r = owner \<and> live now r"

definition sql_owned :: "time \<Rightarrow> string \<Rightarrow> string \<Rightarrow> db \<Rightarrow> job option" where
  "sql_owned now i owner d = find_by (owned_sel i owner now) (jobs d)"

definition complete_row :: "time \<Rightarrow> string \<Rightarrow> segment list \<Rightarrow> string \<Rightarrow> job \<Rightarrow> job" where
  [row_simps]: "complete_row now txt segs path r = r\<lparr>
     status := Done, job_text := txt, segments_json := segs, result_path := path,
     progress_percent := 100, job_error := [], lease_owner := [], lease_expires_at := None,
     finished_at := Some now, updated_at := now\<rparr>"

definition sql_complete ::
  "time \<Rightarrow> string \<Rightarrow> segment list \<Rightarrow> string \<Rightarrow> string \<Rightarrow> string \<Rightarrow> db \<Rightarrow> db" where
  [stmt_defs]: "sql_complete now txt segs path i owner =
     update_jobs now (owned_sel i owner now) (complete_row now txt segs path)"

definition fail_sel :: "string \<Rightarrow> string \<Rightarrow> time \<Rightarrow> job \<Rightarrow> bool" where
  [row_simps]: "fail_sel i owner now r \<longleftrightarrow> job_id r = i \<and> lease_owner r = owner \<and>
     (live now r \<or> (owner = [] \<and> uploading (status r)))"

definition fail_row :: "time \<Rightarrow> bool \<Rightarrow> string \<Rightarrow> job \<Rightarrow> job" where
  [row_simps]: "fail_row now retryable e r =
     (let again = retryable \<and> attempts r < max_attempts r in r\<lparr>
       status := (if again then Queued else Failed), job_error := e, progress_percent := 0,
       lease_owner := [], lease_expires_at := None,
       finished_at := (if again then None else Some now), updated_at := now\<rparr>)"

definition sql_fail :: "time \<Rightarrow> bool \<Rightarrow> string \<Rightarrow> string \<Rightarrow> string \<Rightarrow> db \<Rightarrow> db" where
  [stmt_defs]: "sql_fail now retryable e i owner =
     update_jobs now (fail_sel i owner now) (fail_row now retryable e)"

definition reap_sel :: "time \<Rightarrow> job \<Rightarrow> bool" where
  [row_simps]: "reap_sel now r \<longleftrightarrow> status r = Running \<and> max_attempts r \<le> attempts r \<and>
     earlier_or_null (lease_expires_at r) now"

definition exhausted_row :: "time \<Rightarrow> job \<Rightarrow> job" where
  [row_simps]: "exhausted_row now r = r\<lparr>
     status := Failed, job_error := ''attempts_exhausted'', lease_owner := [],
     lease_expires_at := None, finished_at := Some now, updated_at := now\<rparr>"

definition sql_reap :: "time \<Rightarrow> db \<Rightarrow> db" where
  [stmt_defs]: "sql_reap now = update_jobs now (reap_sel now) (exhausted_row now)"

definition by_id :: "string \<Rightarrow> job \<Rightarrow> bool" where
  [row_simps]: "by_id i r \<longleftrightarrow> job_id r = i"

definition sql_broker_exhausted :: "time \<Rightarrow> string \<Rightarrow> db \<Rightarrow> db" where
  [stmt_defs]: "sql_broker_exhausted now i = update_jobs now (by_id i) (exhausted_row now)"

section \<open>Claiming\<close>

definition is_ready :: "time \<Rightarrow> availability \<Rightarrow> bool" where
  "is_ready t a \<longleftrightarrow> t < ready_until a"

text \<open>Rows the two claim statements may start: waiting, or abandoned by an expired lease.\<close>

definition startable :: "time \<Rightarrow> job \<Rightarrow> bool" where
  "startable t r \<longleftrightarrow> in_queue (status r) \<and> attempts r < max_attempts r \<and>
     (status r = Queued \<or> earlier_or_null (lease_expires_at r) t)"

text \<open>
  \<open>FOR UPDATE SKIP LOCKED LIMIT 1\<close>: \<open>lk\<close> says which rows another transaction holds. The
  statements differ in their order; ties of \<open>claim.sql\<close> fall to the table order.
\<close>

definition slot_candidate :: "(string \<Rightarrow> bool) \<Rightarrow> time \<Rightarrow> db \<Rightarrow> job option" where
  "slot_candidate lk clk d = first_min (\<lambda>r. (created_at r, job_id r))
     (filter (\<lambda>r. startable clk r \<and> \<not> lk (job_id r)) (jobs d))"

definition legacy_allowed ::
  "bool \<Rightarrow> string list \<Rightarrow> string \<Rightarrow> string \<Rightarrow> time \<Rightarrow> db \<Rightarrow> bool" where
  "legacy_allowed fallback preferred w inst now d \<longleftrightarrow>
     (\<not> fallback \<or> \<not> exists_where (\<lambda>a. av_worker_id a \<in> set preferred \<and> is_ready now a) (workers d))
     \<and> (w \<notin> set preferred \<or>
        exists_where (\<lambda>a. av_worker_id a = w \<and> av_instance_id a = inst \<and> is_ready now a) (workers d))"

definition legacy_candidate ::
  "(string \<Rightarrow> bool) \<Rightarrow> bool \<Rightarrow> string list \<Rightarrow> string \<Rightarrow> string \<Rightarrow> time \<Rightarrow> db \<Rightarrow> job option" where
  "legacy_candidate lk fallback preferred w inst now d =
     (if legacy_allowed fallback preferred w inst now d
      then first_min created_at (filter (\<lambda>r. startable now r \<and> \<not> lk (job_id r)) (jobs d))
      else None)"

definition claim_row ::
  "time \<Rightarrow> time \<Rightarrow> string \<Rightarrow> int \<Rightarrow> string \<Rightarrow> string \<Rightarrow> job \<Rightarrow> job" where
  [row_simps]: "claim_row now clk owner lease w inst r = r\<lparr>
     status := Running, attempts := attempts r + 1, lease_owner := owner,
     lease_expires_at := Some (clk + secs lease),
     assigned_worker_id := w, assigned_instance_id := inst,
     started_at := (case started_at r of None \<Rightarrow> Some now | s \<Rightarrow> s),
     updated_at := now, job_error := []\<rparr>"

text \<open>The tail both statements share: update the candidate and return its new row.\<close>

definition start_candidate :: "time \<Rightarrow> (job \<Rightarrow> job) \<Rightarrow> job option \<Rightarrow> db \<Rightarrow> job option \<times> db" where
  "start_candidate now f cand d = (case cand of
     None \<Rightarrow> (None, d)
   | Some r \<Rightarrow> (let d' = update_jobs now (by_id (job_id r)) f d in (job_by_id (job_id r) d', d')))"

definition sql_claim_slot ::
  "(string \<Rightarrow> bool) \<Rightarrow> time \<Rightarrow> time \<Rightarrow> string \<Rightarrow> int \<Rightarrow> string \<Rightarrow> string \<Rightarrow> db \<Rightarrow> job option \<times> db" where
  [stmt_defs]: "sql_claim_slot lk now clk owner lease w inst d =
     start_candidate now (claim_row now clk owner lease w inst) (slot_candidate lk clk d) d"

definition sql_claim ::
  "(string \<Rightarrow> bool) \<Rightarrow> time \<Rightarrow> bool \<Rightarrow> string list \<Rightarrow> string \<Rightarrow> string \<Rightarrow> string \<Rightarrow> int \<Rightarrow> db
   \<Rightarrow> job option \<times> db" where
  [stmt_defs]: "sql_claim lk now fallback preferred w inst owner lease d =
     start_candidate now (claim_row now now owner lease w inst)
       (legacy_candidate lk fallback preferred w inst now d) d"

section \<open>Worker selection\<close>

definition active_jobs :: "time \<Rightarrow> string \<Rightarrow> db \<Rightarrow> nat" where
  "active_jobs clk w d = count_where (\<lambda>r. live clk r \<and> assigned_worker_id r = w) (jobs d)"

definition slot_held :: "time \<Rightarrow> string \<Rightarrow> string \<Rightarrow> db \<Rightarrow> bool" where
  "slot_held clk w inst d \<longleftrightarrow> exists_where (\<lambda>r. live clk r \<and> assigned_worker_id r = w \<and>
     (assigned_instance_id r = inst \<or> assigned_instance_id r = [])) (jobs d)"

text \<open>The \<open>eligible\<close> rows of \<open>select_worker.sql\<close>.\<close>

definition eligible_slot :: "policies \<Rightarrow> time \<Rightarrow> db \<Rightarrow> availability \<Rightarrow> bool" where
  "eligible_slot pols clk d a \<longleftrightarrow> (case map_of pols (av_worker_id a) of
     None \<Rightarrow> False
   | Some p \<Rightarrow> is_ready clk a \<and> clk < demand_until a \<and>
       \<not> slot_held clk (av_worker_id a) (av_instance_id a) d \<and>
       int (active_jobs clk (av_worker_id a) d) < max_concurrency p)"

definition slot_priority :: "policies \<Rightarrow> availability \<Rightarrow> int" where
  "slot_priority pols a = (case map_of pols (av_worker_id a) of None \<Rightarrow> 0 | Some p \<Rightarrow> priority p)"

definition sql_select_worker :: "policies \<Rightarrow> time \<Rightarrow> string \<Rightarrow> string \<Rightarrow> db \<Rightarrow> availability option" where
  "sql_select_worker pols clk w inst d =
     (let eligible = filter (eligible_slot pols clk d) (workers d)
      in find_by (\<lambda>a. list_all (\<lambda>b. slot_priority pols a \<le> slot_priority pols b) eligible \<and>
            av_worker_id a = w \<and> av_instance_id a = inst) eligible)"

definition sql_request_work :: "time \<Rightarrow> int \<Rightarrow> string \<Rightarrow> string \<Rightarrow> db \<Rightarrow> db" where
  [stmt_defs]: "sql_request_work clk ttl w inst d = d\<lparr>workers := update_where
     (\<lambda>a. av_worker_id a = w \<and> av_instance_id a = inst \<and> is_ready clk a)
     (\<lambda>a. a\<lparr>demand_until := clk + secs ttl\<rparr>) (workers d)\<rparr>"

section \<open>Availability reports\<close>

definition sql_cleanup_availability :: "time \<Rightarrow> db \<Rightarrow> db" where
  [stmt_defs]: "sql_cleanup_availability now d = d\<lparr>workers :=
     filter (\<lambda>a. \<not> ready_until a < now - secs 86400) (workers d)\<rparr>"

definition report_row :: "time \<Rightarrow> int \<Rightarrow> availability \<Rightarrow> availability" where
  "report_row now ttl a = a\<lparr>ready_until := now + secs ttl, reported_at := now,
     consumer_until := (if later (consumer_until a) now then Some (now + secs ttl)
                        else consumer_until a)\<rparr>"

definition new_availability :: "time \<Rightarrow> int \<Rightarrow> int \<Rightarrow> string \<Rightarrow> string \<Rightarrow> availability" where
  "new_availability now ttl demand w inst = \<lparr>av_worker_id = w, av_instance_id = inst,
     ready_until = now + secs ttl, reported_at = now, demand_until = now + secs demand,
     consumer_until = None\<rparr>"

definition upsert_report :: "time \<Rightarrow> string \<Rightarrow> worker_report list \<Rightarrow> worker_report list" where
  "upsert_report t w rs = (if exists_where (\<lambda>x. wr_worker_id x = w) rs
     then update_where (\<lambda>x. wr_worker_id x = w)
            (\<lambda>x. x\<lparr>wr_reported_at := max (wr_reported_at x) t\<rparr>) rs
     else rs @ [\<lparr>wr_worker_id = w, wr_reported_at = t\<rparr>])"

definition sql_report_availability :: "time \<Rightarrow> string \<Rightarrow> string \<Rightarrow> int \<Rightarrow> int \<Rightarrow> db \<Rightarrow> db" where
  [stmt_defs]: "sql_report_availability now w inst ttl demand d =
     (let same = (\<lambda>a. av_worker_id a = w \<and> av_instance_id a = inst)
      in d\<lparr>workers := (if exists_where same (workers d)
              then update_where same (report_row now ttl) (workers d)
              else workers d @ [new_availability now ttl demand w inst]),
           reports := upsert_report now w (reports d)\<rparr>)"

section \<open>Broker admission and delivery\<close>

definition admitted :: "time \<Rightarrow> availability \<Rightarrow> bool" where
  "admitted clk a \<longleftrightarrow> is_ready clk a \<and> later (consumer_until a) clk"

text \<open>The \<open>occupied\<close> instances of \<open>broker_admit.sql\<close>; \<open>UNION\<close> removes duplicates.\<close>

definition occupied :: "time \<Rightarrow> string \<Rightarrow> db \<Rightarrow> string list" where
  "occupied clk w d = remdups
     (map av_instance_id (filter (\<lambda>a. av_worker_id a = w \<and> admitted clk a) (workers d)) @
      map assigned_instance_id
        (filter (\<lambda>r. assigned_worker_id r = w \<and> live clk r) (jobs d)))"

definition sql_broker_admit :: "time \<Rightarrow> string \<Rightarrow> string \<Rightarrow> int \<Rightarrow> db \<Rightarrow> bool \<times> db" where
  [stmt_defs]: "sql_broker_admit clk w inst cap d =
     (let occ = occupied clk w d;
          eligible = inst \<in> set occ \<or> int (length occ) < cap;
          sel = (\<lambda>a. av_worker_id a = w \<and> av_instance_id a = inst \<and> is_ready clk a \<and> eligible)
      in (exists_where sel (workers d),
          d\<lparr>workers := update_where sel (\<lambda>a. a\<lparr>consumer_until := Some (ready_until a)\<rparr>)
              (workers d)\<rparr>))"

record capacity =
  cap_ready :: bool
  cap_busy :: bool
  cap_active :: nat

definition sql_broker_capacity :: "time \<Rightarrow> string \<Rightarrow> string \<Rightarrow> db \<Rightarrow> capacity" where
  "sql_broker_capacity clk w inst d = \<lparr>
     cap_ready = exists_where (\<lambda>a. av_worker_id a = w \<and> av_instance_id a = inst \<and> admitted clk a)
       (workers d),
     cap_busy = exists_where (\<lambda>r. live clk r \<and> assigned_worker_id r = w \<and>
       assigned_instance_id r = inst) (jobs d),
     cap_active = active_jobs clk w d\<rparr>"

definition broker_start_row ::
  "time \<Rightarrow> time \<Rightarrow> string \<Rightarrow> int \<Rightarrow> string \<Rightarrow> string \<Rightarrow> string \<Rightarrow> job \<Rightarrow> job" where
  [row_simps]: "broker_start_row now clk owner lease w inst delivery r = r\<lparr>
     status := Running, attempts := attempts r + 1, lease_owner := owner,
     lease_expires_at := Some (clk + secs lease),
     assigned_worker_id := w, assigned_instance_id := inst, delivery_id := delivery,
     started_at := (case started_at r of None \<Rightarrow> Some now | s \<Rightarrow> s),
     updated_at := now, progress_percent := 0, job_error := []\<rparr>"

definition sql_broker_start ::
  "time \<Rightarrow> time \<Rightarrow> string \<Rightarrow> int \<Rightarrow> string \<Rightarrow> string \<Rightarrow> string \<Rightarrow> string \<Rightarrow> db \<Rightarrow> db" where
  [stmt_defs]: "sql_broker_start now clk owner lease w inst delivery i =
     update_jobs now (by_id i) (broker_start_row now clk owner lease w inst delivery)"

section \<open>The outbox\<close>

definition dispatch_row :: "string \<Rightarrow> job \<Rightarrow> job" where
  [row_simps]: "dispatch_row m r = r\<lparr>dispatch_id := m\<rparr>"

definition sql_dispatch :: "string \<Rightarrow> string \<Rightarrow> db \<Rightarrow> db" where
  [stmt_defs]: "sql_dispatch m i = update_jobs_quiet (by_id i) (dispatch_row m)"

definition sql_outbox_insert :: "time \<Rightarrow> string \<Rightarrow> string \<Rightarrow> int \<Rightarrow> db \<Rightarrow> db" where
  [stmt_defs]: "sql_outbox_insert clk m i delay d = d\<lparr>outbox := outbox d @
     [\<lparr>message_id = m, ox_job_id = i, available_at = clk + secs delay, published_at = None\<rparr>]\<rparr>"

definition sql_outbox_next :: "(string \<Rightarrow> bool) \<Rightarrow> time \<Rightarrow> db \<Rightarrow> outbox_row option" where
  "sql_outbox_next lk clk d = first_min (\<lambda>x. (available_at x, message_id x))
     (filter (\<lambda>x. published_at x = None \<and> available_at x \<le> clk \<and> \<not> lk (message_id x)) (outbox d))"

definition sql_outbox_published :: "time \<Rightarrow> string \<Rightarrow> db \<Rightarrow> db" where
  [stmt_defs]: "sql_outbox_published now m d = d\<lparr>outbox :=
     update_where (\<lambda>x. message_id x = m) (\<lambda>x. x\<lparr>published_at := Some now\<rparr>) (outbox d)\<rparr>"

text \<open>\<open>broker_reconcile.sql\<close> and \<open>broker_seed.sql\<close>; \<open>gen\<close> is \<open>gen_random_uuid()\<close> for each row.\<close>

definition reconcile_sel :: "time \<Rightarrow> job \<Rightarrow> bool" where
  [row_simps]: "reconcile_sel clk r \<longleftrightarrow> status r = Queued \<or>
     (status r = Running \<and> earlier_or_null (lease_expires_at r) clk)"

definition sql_broker_reconcile :: "time \<Rightarrow> db \<Rightarrow> db" where
  [stmt_defs]: "sql_broker_reconcile clk = update_jobs_quiet (reconcile_sel clk) (dispatch_row [])"

definition seed_sel :: "job \<Rightarrow> bool" where
  [row_simps]: "seed_sel r \<longleftrightarrow> in_queue (status r) \<and> dispatch_id r = []"

definition seed_row :: "(string \<Rightarrow> string) \<Rightarrow> job \<Rightarrow> job" where
  [row_simps]: "seed_row gen r = r\<lparr>dispatch_id := gen (job_id r)\<rparr>"

definition sql_broker_seed :: "(string \<Rightarrow> string) \<Rightarrow> db \<Rightarrow> db" where
  [stmt_defs]: "sql_broker_seed gen d = (update_jobs_quiet seed_sel (seed_row gen) d)\<lparr>outbox :=
     outbox d @ map (\<lambda>r. \<lparr>message_id = gen (job_id r), ox_job_id = job_id r,
       available_at = created_at r, published_at = None\<rparr>) (select_jobs seed_sel d)\<rparr>"

section \<open>Clients\<close>

definition ack_sel :: "string \<Rightarrow> job \<Rightarrow> bool" where
  [row_simps]: "ack_sel i r \<longleftrightarrow> job_id r = i \<and> terminal (status r)"

definition ack_row :: "time \<Rightarrow> job \<Rightarrow> job" where
  [row_simps]: "ack_row now r = r\<lparr>acknowledged_at := (case acknowledged_at r of
     None \<Rightarrow> Some now | a \<Rightarrow> a), updated_at := now\<rparr>"

definition sql_ack :: "time \<Rightarrow> string \<Rightarrow> db \<Rightarrow> db" where
  [stmt_defs]: "sql_ack now i = update_jobs_quiet (ack_sel i) (ack_row now)"

definition upload_sel :: "string \<Rightarrow> job \<Rightarrow> bool" where
  [row_simps]: "upload_sel i r \<longleftrightarrow> job_id r = i \<and> uploading (status r)"

definition interrupted_row :: "time \<Rightarrow> job \<Rightarrow> job" where
  [row_simps]: "interrupted_row now r = r\<lparr>job_error := ''upload_interrupted'', updated_at := now\<rparr>"

definition sql_upload_interrupted :: "time \<Rightarrow> string \<Rightarrow> db \<Rightarrow> db" where
  [stmt_defs]: "sql_upload_interrupted now i = update_jobs_quiet (upload_sel i) (interrupted_row now)"

definition sql_upload_lookup :: "string \<Rightarrow> db \<Rightarrow> job option" where
  "sql_upload_lookup rid d = find_by (\<lambda>r. request_id r = rid) (jobs d)"

definition sql_queue_position :: "string \<Rightarrow> db \<Rightarrow> nat" where
  "sql_queue_position i d = (case job_by_id i d of
     None \<Rightarrow> 0
   | Some r \<Rightarrow> count_where (\<lambda>q. in_queue (status q) \<and> created_at q \<le> created_at r) (jobs d))"

section \<open>Retention\<close>

definition expired_sel :: "time \<Rightarrow> int \<Rightarrow> job \<Rightarrow> bool" where
  [row_simps]: "expired_sel now ttl r \<longleftrightarrow> (case finished_at r of
     None \<Rightarrow> False
   | Some f \<Rightarrow> (\<not> retain_until_ack r \<and> f < now - secs ttl) \<or>
       (retain_until_ack r \<and> (case acknowledged_at r of
          None \<Rightarrow> False | Some a \<Rightarrow> a < now - secs ttl)))"

text \<open>The deleted jobs' outbox rows go with them: \<open>ON DELETE CASCADE\<close>.\<close>

definition sql_cleanup :: "time \<Rightarrow> int \<Rightarrow> db \<Rightarrow> job list \<times> db" where
  [stmt_defs]: "sql_cleanup now ttl d =
     (let gone = select_jobs (expired_sel now ttl) d
      in (gone, d\<lparr>jobs := filter (\<lambda>r. \<not> expired_sel now ttl r) (jobs d),
            outbox := filter (\<lambda>x. ox_job_id x \<notin> job_id ` set gone) (outbox d)\<rparr>))"

end
