(* ===== verification/Files.thy ===== *)
theory Files
  imports PyText "HOL-Library.AList"
begin

text \<open>
  The job volume as the code uses it: regular files by absolute path with their bytes.
  Directories are implicit in the paths (\<open>mkdir\<close> and \<open>rmdir\<close> change nothing here), paths
  are in \<open>pathlib\<close>'s normal form.
\<close>

type_synonym files = "(string \<times> string) list"

definition fs_read :: "files \<Rightarrow> string \<Rightarrow> string option" where
  "fs_read f p = map_of f p"

definition fs_write :: "string \<Rightarrow> string \<Rightarrow> files \<Rightarrow> files" where
  "fs_write p c f = AList.update p c f"

text \<open>\<open>Path.unlink(missing_ok=True)\<close>, also \<open>unlink\<close> under \<open>suppress(OSError)\<close>.\<close>

definition fs_unlink :: "string \<Rightarrow> files \<Rightarrow> files" where
  "fs_unlink p f = AList.delete p f"

text \<open>\<open>os.replace(src, dst)\<close>; \<open>None\<close> is the \<open>FileNotFoundError\<close> of a missing source.\<close>

definition fs_replace :: "string \<Rightarrow> string \<Rightarrow> files \<Rightarrow> files option" where
  "fs_replace src dst f = map_option (\<lambda>c. fs_write dst c (fs_unlink src f)) (fs_read f src)"

definition path_join :: "string \<Rightarrow> string \<Rightarrow> string" where
  "path_join d n = d @ ''/'' @ n"

definition path_parent :: "string \<Rightarrow> string" where
  "path_parent p = rev (drop 1 (dropWhile (\<lambda>c. c \<noteq> CHR ''/'') (rev p)))"

definition path_name :: "string \<Rightarrow> string" where
  "path_name p = rev (takeWhile (\<lambda>c. c \<noteq> CHR ''/'') (rev p))"

definition path_with_name :: "string \<Rightarrow> string \<Rightarrow> string" where
  "path_with_name p n = path_join (path_parent p) n"

text \<open>The pattern \<open>upload-*.part\<close> and its matches in a directory.\<close>

definition is_partial :: "string \<Rightarrow> bool" where
  "is_partial n \<longleftrightarrow> 12 \<le> length n \<and> prefix ''upload-'' n \<and> suffix ''.part'' n"

definition partials :: "string \<Rightarrow> files \<Rightarrow> string list" where
  "partials dir f = filter (\<lambda>p. path_parent p = dir \<and> is_partial (path_name p)) (map fst f)"

definition unlink_partials :: "string \<Rightarrow> files \<Rightarrow> files" where
  "unlink_partials dir f = fold fs_unlink (partials dir f) f"

lemma fs_read_write [simp]: "fs_read (fs_write p c f) q = (if p = q then Some c else fs_read f q)"
  by (simp add: fs_read_def fs_write_def update_conv')

lemma fs_read_unlink [simp]: "fs_read (fs_unlink p f) q = (if p = q then None else fs_read f q)"
  by (simp add: fs_read_def fs_unlink_def delete_conv')

lemma fs_read_replace:
  "fs_replace src dst f = Some f' \<Longrightarrow> src \<noteq> dst \<Longrightarrow>
   fs_read f' q = (if q = dst then fs_read f src else if q = src then None else fs_read f q)"
  by (auto simp: fs_replace_def split: option.splits)

lemma fs_read_unlinks: "fs_read (fold fs_unlink ps f) q = (if q \<in> set ps then None else fs_read f q)"
  by (induction ps arbitrary: f) auto

lemma fs_read_unlink_partials:
  "fs_read (unlink_partials dir f) q =
     (if path_parent q = dir \<and> is_partial (path_name q) then None else fs_read f q)"
proof (cases "q \<in> fst ` set f")
  case True
  then show ?thesis by (auto simp: unlink_partials_def fs_read_unlinks partials_def)
next
  case False
  then have "fs_read f q = None" by (auto simp: fs_read_def map_of_eq_None_iff)
  then show ?thesis by (auto simp: unlink_partials_def fs_read_unlinks)
qed

lemma path_parent_join: "CHR ''/'' \<notin> set n \<Longrightarrow> path_parent (path_join d n) = d"
proof -
  assume "CHR ''/'' \<notin> set n"
  then have "dropWhile (\<lambda>c. c \<noteq> CHR ''/'') (rev n @ CHR ''/'' # rev d) = CHR ''/'' # rev d"
    by (subst dropWhile_append2) auto
  then show ?thesis by (simp add: path_parent_def path_join_def)
qed

lemma path_name_join: "CHR ''/'' \<notin> set n \<Longrightarrow> path_name (path_join d n) = n"
proof -
  assume "CHR ''/'' \<notin> set n"
  then have "takeWhile (\<lambda>c. c \<noteq> CHR ''/'') (rev n @ CHR ''/'' # rev d) = rev n"
    by (subst takeWhile_append2) auto
  then show ?thesis by (simp add: path_name_def path_join_def)
qed

end
