(* ===== verification/JobStore.thy ===== *)
theory JobStore
  imports Sql Files
begin

text \<open>
  \<open>whisper/storage.py\<close>: the operations of \<open>JobStore\<close>. Each is one transaction over the
  tables, composed of the statements of \<open>Sql\<close> as the method composes them. What the code
  draws from outside is an argument: fresh UUIDs, the instant the transaction began
  (\<open>tx_now\<close>), and the clock at its successive clock-reading statements (\<open>reading\<close>).
\<close>

datatype backend = Postgres | Rabbitmq

record store_config =
  lease_seconds :: int
  default_max_attempts :: int
  worker_policies :: policies
  queue_backend :: backend
  demand_ttl_seconds :: int
  preferred_workers :: "string list"
  availability_ttl_seconds :: int
  storage_root :: string

record clock =
  tx_now :: time
  reading :: "nat \<Rightarrow> time"

datatype store_error =
  UploadBusy
| UploadConflict
| UniqueViolation
| ClaimingDisabled
| PublishFailed
| RabbitmqRequired

record ClaimedJob =
  claimed_job :: JobRecord
  claimed_owner :: string
  claimed_expires_at :: "time option"

text \<open>
  \<open>claimed_expires_at\<close> is an option only because the column is nullable; every claim
  returns a value there.
\<close>

definition claimed_of :: "string \<Rightarrow> job \<Rightarrow> ClaimedJob" where
  "claimed_of owner r = \<lparr>claimed_job = row_to_job r, claimed_owner = owner,
     claimed_expires_at = lease_expires_at r\<rparr>"

text \<open>\<open>f"{worker_id}/{uuid.uuid4()}"\<close>\<close>

definition new_lease :: "string \<Rightarrow> string \<Rightarrow> string" where
  "new_lease w u = w @ ''/'' @ u"

section \<open>Creating and uploading\<close>

record upload_request =
  rq_request_id :: string
  rq_retain :: bool
  rq_format :: string
  rq_preset :: string
  rq_language :: string
  rq_prompt :: string
  rq_traceparent :: string
  rq_tracestate :: string

definition new_job :: "store_config \<Rightarrow> time \<Rightarrow> string \<Rightarrow> upload_request \<Rightarrow> job" where
  "new_job cfg now i q = \<lparr>
     job_id = i, status = Accepted, job_format = rq_format q, preset = rq_preset q,
     language_override = rq_language q, initial_prompt_override = rq_prompt q,
     input_path = path_join (path_join (storage_root cfg) i) (''input.'' @ rq_format q),
     result_path = [], job_error = [], progress_percent = 0, attempts = 0,
     max_attempts = default_max_attempts cfg, lease_owner = [], lease_expires_at = None,
     created_at = now, updated_at = now, started_at = None, finished_at = None,
     job_text = [], segments_json = [], traceparent = rq_traceparent q,
     tracestate = rq_tracestate q, request_id = rq_request_id q,
     retain_until_ack = rq_retain q, acknowledged_at = None, dispatch_id = [],
     delivery_id = [], attempt_started_at = None, assigned_worker_id = [],
     assigned_instance_id = []\<rparr>"

text \<open>
  The insert fails on the primary key or on the partial unique index of request ids, and
  leaves the tables as they were.
\<close>

definition create_job ::
  "store_config \<Rightarrow> time \<Rightarrow> string \<Rightarrow> upload_request \<Rightarrow> db
   \<Rightarrow> (store_error, JobRecord \<times> string) result \<times> db" where
  [op_defs]: "create_job cfg now i q d =
     (if exists_where (\<lambda>r. job_id r = i \<or> (rq_request_id q \<noteq> [] \<and> request_id r = rq_request_id q))
           (jobs d)
      then (Inl UniqueViolation, d)
      else (let r = new_job cfg now i q in
        (Inr (row_to_job r, input_path r),
         d\<lparr>jobs := jobs d @ [r], observations := trigger_insert now (observations d)\<rparr>)))"

record UploadReservation =
  up_job :: JobRecord
  up_input_path :: string
  needs_upload :: bool

definition upload_identity :: "JobRecord \<Rightarrow> string \<times> string \<times> string \<times> string \<times> bool" where
  "upload_identity j = (job_format j, preset j, language_override j, initial_prompt_override j,
     retain_until_ack j)"

definition request_identity :: "upload_request \<Rightarrow> string \<times> string \<times> string \<times> string \<times> bool" where
  "request_identity q = (rq_format q, rq_preset q, rq_language q, rq_prompt q, rq_retain q)"

definition reservation :: "JobRecord \<Rightarrow> string \<Rightarrow> UploadReservation" where
  "reservation j p = \<lparr>up_job = j, up_input_path = p, needs_upload = uploading (status j)\<rparr>"

text \<open>
  The two ends of the \<open>reserve_upload\<close> context manager. \<open>h\<close> is \<open>hashtextextended(_, 0)\<close>;
  the session lock it keys is held from the entry to the exit, and an entry that raises after
  taking it releases it.
\<close>

definition release_upload :: "(string \<Rightarrow> int) \<Rightarrow> string \<Rightarrow> db \<Rightarrow> db" where
  [op_defs]: "release_upload h rid d =
     (if rid = [] then d else d\<lparr>upload_locks := remove1 (h rid) (upload_locks d)\<rparr>)"

definition reserve_row ::
  "store_config \<Rightarrow> time \<Rightarrow> string \<Rightarrow> upload_request \<Rightarrow> db
   \<Rightarrow> (store_error, UploadReservation) result \<times> db" where
  "reserve_row cfg now i q d =
     (case (if rq_request_id q = [] then None else sql_upload_lookup (rq_request_id q) d) of
        Some r \<Rightarrow>
          (if upload_identity (row_to_job r) \<noteq> request_identity q then (Inl UploadConflict, d)
           else (Inr (reservation (row_to_job r) (input_path r)), d))
      | None \<Rightarrow>
          (case create_job cfg now i q d of
             (Inl e, d') \<Rightarrow> (Inl e, d')
           | (Inr (j, p), d') \<Rightarrow> (Inr (reservation j p), d')))"

definition reserve_upload ::
  "(string \<Rightarrow> int) \<Rightarrow> store_config \<Rightarrow> time \<Rightarrow> string \<Rightarrow> upload_request \<Rightarrow> db
   \<Rightarrow> (store_error, UploadReservation) result \<times> db" where
  [op_defs]: "reserve_upload h cfg now i q d =
     (let rid = rq_request_id q in
      if rid \<noteq> [] \<and> h rid \<in> set (upload_locks d) then (Inl UploadBusy, d)
      else
        (let d1 = (if rid = [] then d else d\<lparr>upload_locks := h rid # upload_locks d\<rparr>) in
         case reserve_row cfg now i q d1 of
           (Inl e, d2) \<Rightarrow> (Inl e, release_upload h rid d2)
         | (Inr u, d2) \<Rightarrow> (Inr u, d2)))"

definition queue_position :: "string \<Rightarrow> db \<Rightarrow> nat" where
  "queue_position i d = sql_queue_position i d"

definition mark_upload_interrupted :: "time \<Rightarrow> string \<Rightarrow> db \<Rightarrow> db" where
  [op_defs]: "mark_upload_interrupted now i d = sql_upload_interrupted now i d"

definition acknowledge_job :: "time \<Rightarrow> string \<Rightarrow> db \<Rightarrow> bool \<times> db" where
  [op_defs]: "acknowledge_job now i d = (select_jobs (ack_sel i) d \<noteq> [], sql_ack now i d)"

definition status_row :: "time \<Rightarrow> status \<Rightarrow> job \<Rightarrow> job" where
  [row_simps]: "status_row now s r = r\<lparr>status := s, updated_at := now\<rparr>"

definition update_status :: "time \<Rightarrow> string \<Rightarrow> status \<Rightarrow> db \<Rightarrow> db" where
  [op_defs]: "update_status now i s d = update_jobs now (upload_sel i) (status_row now s) d"

definition mark_downloading :: "time \<Rightarrow> string \<Rightarrow> db \<Rightarrow> db" where
  [op_defs]: "mark_downloading now i d = update_status now i Downloading d"

section \<open>Queueing\<close>

definition enqueue :: "time \<Rightarrow> string \<Rightarrow> string \<Rightarrow> int \<Rightarrow> db \<Rightarrow> db" where
  [op_defs]: "enqueue clk m i delay d = sql_outbox_insert clk m i delay (sql_dispatch m i d)"

definition queued_row :: "time \<Rightarrow> job \<Rightarrow> job" where
  [row_simps]: "queued_row now r = r\<lparr>status := Queued, progress_percent := 0, job_error := [],
     updated_at := now\<rparr>"

text \<open>
  The returned position counts the rows in the queue as the statement's snapshot shows them,
  so not the row that it queues.
\<close>

definition mark_queued ::
  "store_config \<Rightarrow> clock \<Rightarrow> string \<Rightarrow> string \<Rightarrow> db \<Rightarrow> nat option \<times> db" where
  [op_defs]: "mark_queued cfg c m i d =
     (let d' = update_jobs (tx_now c) (upload_sel i) (queued_row (tx_now c)) d in
      case select_jobs (upload_sel i) d of
        [] \<Rightarrow> (None, d')
      | r # _ \<Rightarrow> (Some (count_where (\<lambda>q. in_queue (status q) \<and> created_at q \<le> created_at r) (jobs d)),
          if queue_backend cfg = Rabbitmq then enqueue (reading c 0) m i 0 d' else d'))"

text \<open>
  \<open>publish_next\<close>: the row, the call that waits for the broker's confirmation, then the
  mark. \<open>publish\<close> says whether the call returned; when it raises, the transaction is rolled
  back. The second component is the message handed to the broker.
\<close>

definition publish_next ::
  "(string \<Rightarrow> bool) \<Rightarrow> clock \<Rightarrow> (string \<Rightarrow> string \<Rightarrow> bool) \<Rightarrow> db
   \<Rightarrow> (store_error, bool) result \<times> (string \<times> string) option \<times> db" where
  [op_defs]: "publish_next lk c publish d = (case sql_outbox_next lk (reading c 0) d of
     None \<Rightarrow> (Inr False, None, d)
   | Some x \<Rightarrow>
       (if publish (ox_job_id x) (message_id x)
        then (Inr True, Some (ox_job_id x, message_id x),
              sql_outbox_published (tx_now c) (message_id x) d)
        else (Inl PublishFailed, None, d)))"

section \<open>Broker mode: admission and attempts\<close>

definition register_consumer ::
  "store_config \<Rightarrow> clock \<Rightarrow> string \<Rightarrow> string \<Rightarrow> db \<Rightarrow> int option \<times> db" where
  [op_defs]: "register_consumer cfg c w inst d = (case map_of (worker_policies cfg) w of
     None \<Rightarrow> (None, d)
   | Some p \<Rightarrow>
       (if queue_backend cfg \<noteq> Rabbitmq \<or> max_concurrency p = 0 then (None, d)
        else (case sql_broker_admit (reading c 0) w inst (max_concurrency p) d of
            (True, d') \<Rightarrow> (Some (10000 - priority p), d')
          | (False, d') \<Rightarrow> (None, d'))))"

datatype disposition = Discard | Busy | Started

text \<open>
  \<open>begin_attempt\<close>. The branches are the method's, in its order; \<open>reading\<close> 0 is the clock
  of \<open>broker_job.sql\<close>, 1 that of \<open>broker_capacity.sql\<close>, 2 that of \<open>broker_start.sql\<close>.
\<close>

definition start_delivery ::
  "store_config \<Rightarrow> clock \<Rightarrow> string \<Rightarrow> string \<Rightarrow> string \<Rightarrow> string \<Rightarrow> job \<Rightarrow> db
   \<Rightarrow> (disposition \<times> ClaimedJob option) \<times> db" where
  [op_defs]: "start_delivery cfg c u w inst delivery r d =
     (case map_of (worker_policies cfg) w of
        None \<Rightarrow> ((Busy, None), d)
      | Some p \<Rightarrow>
        (if max_concurrency p = 0 then ((Busy, None), d)
         else (let cap = sql_broker_capacity (reading c 1) w inst d in
           if \<not> cap_ready cap \<or> cap_busy cap \<or> max_concurrency p \<le> int (cap_active cap)
           then ((Busy, None), d)
           else (let owner = new_lease w u;
                     d' = sql_broker_start (tx_now c) (reading c 2) owner (lease_seconds cfg)
                            w inst delivery (job_id r) d
                 in ((Started, map_option (claimed_of owner) (job_by_id (job_id r) d')), d')))))"

definition begin_attempt ::
  "store_config \<Rightarrow> clock \<Rightarrow> string \<Rightarrow> string \<Rightarrow> string \<Rightarrow> string \<Rightarrow> string \<Rightarrow> string \<Rightarrow> db
   \<Rightarrow> (disposition \<times> ClaimedJob option) \<times> db" where
  [op_defs]: "begin_attempt cfg c u w inst i m delivery d = (case job_by_id i d of
     None \<Rightarrow> ((Discard, None), d)
   | Some r \<Rightarrow>
       (if dispatch_id r \<noteq> m \<or> terminal (status r) then ((Discard, None), d)
        else if live (reading c 0) r then
          (if delivery_id r = delivery \<and> assigned_worker_id r = w \<and> assigned_instance_id r = inst
           then ((Started, Some (claimed_of (lease_owner r) r)), d)
           else ((Busy, None), d))
        else if \<not> in_queue (status r) then ((Discard, None), d)
        else if max_attempts r \<le> attempts r
        then ((Discard, None), sql_broker_exhausted (tx_now c) i d)
        else start_delivery cfg c u w inst delivery r d))"

section \<open>Clients\<close>

definition get_job :: "string \<Rightarrow> db \<Rightarrow> JobRecord option" where
  "get_job i d = map_option row_to_job (job_by_id i d)"

definition cancel_sel :: "string \<Rightarrow> job \<Rightarrow> bool" where
  [row_simps]: "cancel_sel i r \<longleftrightarrow> job_id r = i \<and> \<not> terminal (status r)"

definition cancel_row :: "time \<Rightarrow> job \<Rightarrow> job" where
  [row_simps]: "cancel_row now r = r\<lparr>status := Failed, job_error := ''cancelled'',
     progress_percent := 0, finished_at := Some now, lease_owner := [],
     lease_expires_at := None, updated_at := now\<rparr>"

definition cancel_job :: "time \<Rightarrow> string \<Rightarrow> db \<Rightarrow> bool \<times> db" where
  [op_defs]: "cancel_job now i d =
     (select_jobs (cancel_sel i) d \<noteq> [], update_jobs now (cancel_sel i) (cancel_row now) d)"

section \<open>SQL-mode workers\<close>

definition report_availability :: "store_config \<Rightarrow> time \<Rightarrow> string \<Rightarrow> string \<Rightarrow> bool \<Rightarrow> db \<Rightarrow> bool \<times> db" where
  [op_defs]: "report_availability cfg now w inst ready d =
     (True, sql_report_availability now w inst
        (if ready then availability_ttl_seconds cfg else 0)
        (if ready then demand_ttl_seconds cfg else 0) (sql_cleanup_availability now d))"

text \<open>The path under \<open>worker_policies\<close>: demand, selection, then the slot's claim.\<close>

definition claim_by_policy ::
  "store_config \<Rightarrow> (string \<Rightarrow> bool) \<Rightarrow> clock \<Rightarrow> string \<Rightarrow> string \<Rightarrow> string \<Rightarrow> db
   \<Rightarrow> ClaimedJob option \<times> db" where
  [op_defs]: "claim_by_policy cfg lk c u w inst d =
     (let owner = new_lease w u;
          d1 = sql_reap (tx_now c) d;
          d2 = sql_request_work (reading c 0) (demand_ttl_seconds cfg) w inst d1
      in case sql_select_worker (worker_policies cfg) (reading c 1) w inst d2 of
           None \<Rightarrow> (None, d2)
         | Some _ \<Rightarrow>
             (case sql_claim_slot lk (tx_now c) (reading c 2) owner (lease_seconds cfg) w inst d2 of
                (row, d3) \<Rightarrow> (map_option (claimed_of owner) row, d3)))"

definition claim_next_job ::
  "store_config \<Rightarrow> (string \<Rightarrow> bool) \<Rightarrow> clock \<Rightarrow> string \<Rightarrow> string \<Rightarrow> bool \<Rightarrow> string \<Rightarrow> db
   \<Rightarrow> (store_error, ClaimedJob option) result \<times> db" where
  [op_defs]: "claim_next_job cfg lk c u w fallback inst d =
     (if queue_backend cfg = Rabbitmq then (Inl ClaimingDisabled, d)
      else if worker_policies cfg \<noteq> [] then
        (case claim_by_policy cfg lk c u w inst d of (j, d') \<Rightarrow> (Inr j, d'))
      else
        (let owner = new_lease w u;
             d1 = sql_reap (tx_now c) d
         in case sql_claim lk (tx_now c) fallback (preferred_workers cfg) w inst owner
                   (lease_seconds cfg) d1 of
              (row, d2) \<Rightarrow> (Inr (map_option (claimed_of owner) row), d2)))"

definition get_owned_job :: "time \<Rightarrow> string \<Rightarrow> string \<Rightarrow> db \<Rightarrow> JobRecord option" where
  "get_owned_job now i owner d = map_option row_to_job (sql_owned now i owner d)"

text \<open>\<open>cur.rowcount == 1\<close>\<close>

definition one_row :: "(job \<Rightarrow> bool) \<Rightarrow> db \<Rightarrow> bool" where
  "one_row P d \<longleftrightarrow> length (select_jobs P d) = 1"

definition heartbeat ::
  "store_config \<Rightarrow> clock \<Rightarrow> string \<Rightarrow> string \<Rightarrow> rat \<Rightarrow> db \<Rightarrow> bool \<times> db" where
  [op_defs]: "heartbeat cfg c i owner prog d =
     (one_row (heartbeat_sel i owner (reading c 0)) d,
      sql_heartbeat (tx_now c) (reading c 0) (lease_seconds cfg) prog i owner d)"

definition complete_job ::
  "time \<Rightarrow> string \<Rightarrow> string \<Rightarrow> string \<Rightarrow> segment list \<Rightarrow> string \<Rightarrow> db \<Rightarrow> bool \<times> db" where
  [op_defs]: "complete_job now i owner txt segs path d =
     (one_row (owned_sel i owner now) d, sql_complete now txt segs path i owner d)"

text \<open>\<open>min(300, 2 ** min(row["attempts"], 8))\<close>\<close>

definition retry_delay :: "int \<Rightarrow> int" where
  "retry_delay a = min 300 (2 ^ nat (min a 8))"

definition fail_job ::
  "store_config \<Rightarrow> clock \<Rightarrow> string \<Rightarrow> string \<Rightarrow> string \<Rightarrow> string \<Rightarrow> bool \<Rightarrow> db \<Rightarrow> bool \<times> db" where
  [op_defs]: "fail_job cfg c m i owner e retryable d =
     (let accepted = one_row (fail_sel i owner (tx_now c)) d;
          d' = sql_fail (tx_now c) retryable e i owner d
      in (accepted,
          if accepted \<and> queue_backend cfg = Rabbitmq then
            (case job_by_id i d' of
               None \<Rightarrow> d'
             | Some r \<Rightarrow> if status r = Queued
                 then enqueue (reading c 0) m i (retry_delay (attempts r)) d' else d')
          else d'))"

section \<open>Retention\<close>

definition cleanup_job_files :: "string \<Rightarrow> string \<Rightarrow> files \<Rightarrow> files" where
  "cleanup_job_files inp res f =
     unlink_partials (path_parent inp)
       (fold fs_unlink (inp # (if res = [] then [] else [res])) f)"

definition cleanup_expired_jobs :: "time \<Rightarrow> int \<Rightarrow> db \<Rightarrow> files \<Rightarrow> nat \<times> db \<times> files" where
  [op_defs]: "cleanup_expired_jobs now ttl d f =
     (case sql_cleanup now ttl (sql_reap now d) of
        (rows, d') \<Rightarrow> (length rows, d',
          fold (\<lambda>r. cleanup_job_files (input_path r) (result_path r)) rows f))"

section \<open>Schema and recovery\<close>

text \<open>
  \<open>init_schema\<close>: the migration files in the order of their names, each with the effect of
  its SQL text on the tables; a file whose name the ledger holds is not run again.
\<close>

fun apply_migrations :: "(string \<times> (db \<Rightarrow> db)) list \<Rightarrow> db \<Rightarrow> db" where
  "apply_migrations [] d = d"
| "apply_migrations ((n, run) # ms) d = apply_migrations ms
     (if n \<in> set (migrations d) then d
      else (let d' = run d in d'\<lparr>migrations := migrations d' @ [n]\<rparr>))"

definition init_schema ::
  "store_config \<Rightarrow> (string \<times> (db \<Rightarrow> db)) list \<Rightarrow> (string \<Rightarrow> string) \<Rightarrow> db \<Rightarrow> db" where
  [op_defs]: "init_schema cfg files gen d =
     (let d' = apply_migrations (sort_key fst files) d
      in if queue_backend cfg = Rabbitmq then sql_broker_seed gen d' else d')"

text \<open>\<open>whisper/reconcile.py\<close>\<close>

definition reconcile_main ::
  "store_config \<Rightarrow> (string \<times> (db \<Rightarrow> db)) list \<Rightarrow> (string \<Rightarrow> string) \<Rightarrow> (string \<Rightarrow> string) \<Rightarrow> time \<Rightarrow> db
   \<Rightarrow> (store_error, db) result" where
  [op_defs]: "reconcile_main cfg files gen gen' clk d =
     (if queue_backend cfg \<noteq> Rabbitmq then Inl RabbitmqRequired
      else Inr (sql_broker_seed gen' (sql_broker_reconcile clk (init_schema cfg files gen d))))"

end
