(* ===== verification/Lifecycle.thy ===== *)
theory Lifecycle
  imports JobStore
begin

text \<open>
  The contract of a job: the abstract life of a job as a step relation on its status and its
  attempt count, the well-formedness of a row, and what no operation may change. Every
  statement of \<open>Sql\<close> that updates the jobs table is shown to respect the contract, once,
  as an interpretation of the locale \<open>row_statement\<close>.
\<close>

section \<open>The abstract job\<close>

text \<open>\<open>m\<close> is the job's attempt budget.\<close>

inductive lifecycle :: "int \<Rightarrow> status \<times> int \<Rightarrow> status \<times> int \<Rightarrow> bool" for m where
  download: "uploading s \<Longrightarrow> lifecycle m (s, a) (Downloading, a)"
| queue: "uploading s \<Longrightarrow> lifecycle m (s, a) (Queued, a)"
| start: "in_queue s \<Longrightarrow> a < m \<Longrightarrow> lifecycle m (s, a) (Running, a + 1)"
| finish: "lifecycle m (Running, a) (Done, a)"
| retry: "a < m \<Longrightarrow> lifecycle m (Running, a) (Queued, a)"
| fail: "\<not> terminal s \<Longrightarrow> lifecycle m (s, a) (Failed, a)"

inductive_cases lifecycle_from: "lifecycle m (s, a) y"
inductive_simps lifecycle_terminal: "lifecycle m (Done, a) y" "lifecycle m (Failed, a) y"

lemma terminal_no_step: "terminal s \<Longrightarrow> \<not> lifecycle m (s, a) y"
  by (auto simp: status_classes elim: lifecycle_from)

lemma lifecycle_attempts: "lifecycle m x y \<Longrightarrow> snd x \<le> snd y \<and> (snd x \<le> m \<longrightarrow> snd y \<le> m)"
  by (induction rule: lifecycle.induct) auto

lemma lifecycle_terminal_stays:
  assumes "(lifecycle m)\<^sup>*\<^sup>* x y" and "terminal (fst x)"
  shows "y = x"
  using assms
proof (induction rule: rtranclp_induct)
  case (step y z)
  then show ?case using terminal_no_step [of "fst y" m "snd y" z] by simp
qed simp

lemma lifecycle_steps_attempts:
  "(lifecycle m)\<^sup>*\<^sup>* x y \<Longrightarrow> snd x \<le> snd y \<and> (snd x \<le> m \<longrightarrow> snd y \<le> m)"
  by (induction rule: rtranclp_induct) (auto dest: lifecycle_attempts)

section \<open>Well-formed rows\<close>

definition job_ok :: "job \<Rightarrow> bool" where
  "job_ok r \<longleftrightarrow>
     0 \<le> attempts r \<and> attempts r \<le> max_attempts r \<and>
     (uploading (status r) \<longrightarrow> attempts r = 0 \<and> 0 < max_attempts r) \<and>
     (status r = Queued \<longrightarrow> attempts r < max_attempts r) \<and>
     (status r = Running \<longrightarrow> 1 \<le> attempts r \<and> lease_expires_at r \<noteq> None \<and> started_at r \<noteq> None \<and>
        prefix (assigned_worker_id r @ ''/'') (lease_owner r)) \<and>
     (status r \<noteq> Running \<longrightarrow> lease_owner r = [] \<and> lease_expires_at r = None) \<and>
     (terminal (status r) \<longleftrightarrow> finished_at r \<noteq> None) \<and>
     (acknowledged_at r \<noteq> None \<longrightarrow> terminal (status r)) \<and>
     (status r = Done \<longrightarrow> 1 \<le> attempts r \<and> progress_percent r = 100 \<and> job_error r = [])"

text \<open>What identifies a job, and the outcome a terminal one holds.\<close>

definition row_key ::
  "job \<Rightarrow> string \<times> string \<times> string \<times> string \<times> string \<times> string \<times> int \<times> time \<times> string \<times> bool" where
  "row_key r = (job_id r, job_format r, preset r, language_override r, initial_prompt_override r,
     input_path r, max_attempts r, created_at r, request_id r, retain_until_ack r)"

definition row_outcome ::
  "job \<Rightarrow> status \<times> int \<times> string \<times> segment list \<times> string \<times> string \<times> time option \<times> rat" where
  "row_outcome r = (status r, attempts r, job_text r, segments_json r, job_error r, result_path r,
     finished_at r, progress_percent r)"

definition row_evo :: "job \<Rightarrow> job \<Rightarrow> bool" where
  "row_evo r r' \<longleftrightarrow> row_key r' = row_key r \<and>
     (lifecycle (max_attempts r))\<^sup>*\<^sup>* (status r, attempts r) (status r', attempts r') \<and>
     (terminal (status r) \<longrightarrow> row_outcome r' = row_outcome r) \<and>
     (acknowledged_at r \<noteq> None \<longrightarrow> acknowledged_at r' = acknowledged_at r)"

lemma row_key_sel:
  "row_key r' = row_key r \<Longrightarrow> job_id r' = job_id r \<and> max_attempts r' = max_attempts r \<and>
   request_id r' = request_id r \<and> created_at r' = created_at r \<and>
   retain_until_ack r' = retain_until_ack r \<and> input_path r' = input_path r"
  by (simp add: row_key_def)

lemma row_evo_refl [simp]: "row_evo r r"
  by (simp add: row_evo_def)

lemma row_evo_key: "row_evo r r' \<Longrightarrow> row_key r' = row_key r"
  by (simp add: row_evo_def)

lemma row_evo_id: "row_evo r r' \<Longrightarrow> job_id r' = job_id r"
  by (simp add: row_evo_def row_key_def)

lemma row_evo_trans:
  assumes "row_evo r s" and "row_evo s t"
  shows "row_evo r t"
proof -
  have m: "max_attempts s = max_attempts r"
    using row_key_sel [OF row_evo_key [OF assms(1)]] by simp
  have "(lifecycle (max_attempts r))\<^sup>*\<^sup>* (status r, attempts r) (status t, attempts t)"
    using assms m unfolding row_evo_def by (metis rtranclp_trans)
  moreover have "terminal (status r) \<Longrightarrow> status s = status r"
    using assms(1) by (simp add: row_evo_def row_outcome_def)
  ultimately show ?thesis using assms unfolding row_evo_def by simp
qed

text \<open>A row evolves by a step of the abstract job, or by a change that is no step.\<close>

lemma row_evo_step:
  assumes "lifecycle (max_attempts r) (status r, attempts r) (status r', attempts r')"
    and "row_key r' = row_key r" and "acknowledged_at r' = acknowledged_at r"
  shows "row_evo r r'"
  using assms terminal_no_step [of "status r"] by (auto simp: row_evo_def)

lemma row_evo_quiet:
  assumes "row_key r' = row_key r" and "status r' = status r" and "attempts r' = attempts r"
    and "terminal (status r) \<Longrightarrow> row_outcome r' = row_outcome r"
    and "acknowledged_at r \<noteq> None \<Longrightarrow> acknowledged_at r' = acknowledged_at r"
  shows "row_evo r r'"
  using assms by (auto simp: row_evo_def)

lemma row_evo_terminal:
  "row_evo r r' \<Longrightarrow> terminal (status r) \<Longrightarrow> row_outcome r' = row_outcome r"
  by (simp add: row_evo_def)

lemma row_evo_no_undone:
  "row_evo r r' \<Longrightarrow> terminal (status r) \<Longrightarrow> status r' = status r"
  by (simp add: row_evo_def row_outcome_def)

section \<open>The trigger and the contract\<close>

lemma job_ok_trigger_row [simp]: "job_ok (trigger_row now r s) = job_ok s"
  by (simp add: job_ok_def)

lemma row_key_trigger_row [simp]: "row_key (trigger_row now r s) = row_key s"
  by (simp add: row_key_def)

lemma row_evo_trigger_row [simp]: "row_evo q (trigger_row now r s) = row_evo q s"
  by (simp add: row_evo_def row_outcome_def)

text \<open>Jobs that have not ended, and the ended ones the counters have seen.\<close>

definition open_jobs :: "job list \<Rightarrow> nat" where
  "open_jobs rs = count_where (\<lambda>r. \<not> terminal (status r)) rs"

definition ended_total :: "observation list \<Rightarrow> int" where
  "ended_total obs = event_total ''completed'' obs + event_total ''failed'' obs
     + event_total ''cancelled'' obs"

lemma obs_ok_trigger_update:
  "obs_ok obs \<Longrightarrow> obs_ok (trigger_update now r s obs)"
  by (simp add: trigger_update_def Let_def obs_ok_event_when split: option.split)

lemma event_total_trigger_update:
  assumes "obs_ok obs"
  shows "event_total ''submitted'' (trigger_update now r s obs) = event_total ''submitted'' obs"
    and "event_total ''completed'' (trigger_update now r s obs) =
      event_total ''completed'' obs + (if status s = Done \<and> status r \<noteq> Done then 1 else 0)"
    and "ended_total (trigger_update now r s obs) = ended_total obs +
      (if (status s = Done \<and> status r \<noteq> Done) \<or> (status s = Failed \<and> \<not> terminal (status r))
       then 1 else 0)"
    and "event_total ''attempts'' (trigger_update now r s obs) =
      event_total ''attempts'' obs + (if attempts r < attempts s then 1 else 0)"
  using assms
  by (auto simp: trigger_update_def Let_def event_total_event_when obs_ok_event_when
      failure_event_def ended_total_def split: option.split)

text \<open>Attempts started by the rows of a table, as their counts record them.\<close>

definition attempts_sum :: "job list \<Rightarrow> int" where
  "attempts_sum rs = (\<Sum>r \<leftarrow> rs. attempts r)"

section \<open>Statements that respect the contract\<close>

locale row_statement =
  fixes P :: "job \<Rightarrow> bool" and f :: "job \<Rightarrow> job"
  assumes keeps_ok: "P r \<Longrightarrow> job_ok r \<Longrightarrow> job_ok (f r)"
    and evolves: "P r \<Longrightarrow> job_ok r \<Longrightarrow> row_evo r (f r)"
    and one_attempt: "P r \<Longrightarrow> attempts (f r) \<le> attempts r + 1"
    and keeps_id: "P r \<Longrightarrow> job_id (f r) = job_id r"
    and keeps_request: "P r \<Longrightarrow> request_id (f r) = request_id r"
begin

lemma rows_ok:
  assumes "\<And>r. r \<in> set rs \<Longrightarrow> job_ok r" and "r \<in> set (update_where P (\<lambda>r. trigger_row now r (f r)) rs)"
  shows "job_ok r"
  using assms by (auto simp: set_update_where keeps_ok split: if_splits)

lemma rows_ok_quiet:
  assumes "\<And>r. r \<in> set rs \<Longrightarrow> job_ok r" and "r \<in> set (update_where P f rs)"
  shows "job_ok r"
  using assms by (auto simp: set_update_where keeps_ok split: if_splits)

lemma ids [simp]:
  "map job_id (update_where P (\<lambda>r. trigger_row now r (f r)) rs) = map job_id rs"
  "map job_id (update_where P f rs) = map job_id rs"
  by (simp_all add: map_update_where keeps_id)

lemma requests [simp]:
  "map request_id (update_where P (\<lambda>r. trigger_row now r (f r)) rs) = map request_id rs"
  "map request_id (update_where P f rs) = map request_id rs"
  by (simp_all add: map_update_where keeps_request)

lemma by_id_evo:
  assumes "\<And>r. r \<in> set (jobs d) \<Longrightarrow> job_ok r" and "job_by_id i d = Some r"
  shows "\<exists>r'. job_by_id i (update_jobs now P f d) = Some r' \<and> row_evo r r'"
proof -
  have ok: "job_ok r" using assms job_by_id_Some by blast
  show ?thesis
    using assms(2) by (auto simp: job_by_id_update_jobs keeps_id evolves ok)
qed

lemma by_id_evo_quiet:
  assumes "\<And>r. r \<in> set (jobs d) \<Longrightarrow> job_ok r" and "job_by_id i d = Some r"
  shows "\<exists>r'. job_by_id i (update_jobs_quiet P f d) = Some r' \<and> row_evo r r'"
proof -
  have ok: "job_ok r" using assms job_by_id_Some by blast
  show ?thesis
    using assms(2) by (auto simp: job_by_id_update_quiet keeps_id evolves ok)
qed

lemma by_id_none:
  "job_by_id i d = None \<Longrightarrow> job_by_id i (update_jobs now P f d) = None"
  "job_by_id i d = None \<Longrightarrow> job_by_id i (update_jobs_quiet P f d) = None"
  by (simp_all add: job_by_id_update_jobs job_by_id_update_quiet keeps_id)

text \<open>The trigger keeps the counters in step with the rows.\<close>

lemma counters:
  assumes "obs_ok obs" and "\<And>r. r \<in> set rs \<Longrightarrow> job_ok r"
  shows "obs_ok (trigger_rows now P f rs obs)
    \<and> event_total ''submitted'' (trigger_rows now P f rs obs) = event_total ''submitted'' obs
    \<and> ended_total (trigger_rows now P f rs obs)
        + int (open_jobs (update_where P (\<lambda>r. trigger_row now r (f r)) rs))
      = ended_total obs + int (open_jobs rs)
    \<and> event_total ''attempts'' (trigger_rows now P f rs obs)
        - attempts_sum (update_where P (\<lambda>r. trigger_row now r (f r)) rs)
      = event_total ''attempts'' obs - attempts_sum rs"
  using assms
proof (induction rs arbitrary: obs)
  case Nil
  then show ?case by (simp add: open_jobs_def attempts_sum_def)
next
  case (Cons r rs)
  define obs' where "obs' = (if P r then trigger_update now r (f r) obs else obs)"
  have d: "obs_ok obs'"
    using Cons.prems by (simp add: obs'_def obs_ok_trigger_update)
  have IH: "obs_ok (trigger_rows now P f rs obs')
    \<and> event_total ''submitted'' (trigger_rows now P f rs obs') = event_total ''submitted'' obs'
    \<and> ended_total (trigger_rows now P f rs obs')
        + int (open_jobs (update_where P (\<lambda>r. trigger_row now r (f r)) rs))
      = ended_total obs' + int (open_jobs rs)
    \<and> event_total ''attempts'' (trigger_rows now P f rs obs')
        - attempts_sum (update_where P (\<lambda>r. trigger_row now r (f r)) rs)
      = event_total ''attempts'' obs' - attempts_sum rs"
    by (rule Cons.IH [OF d]) (simp add: Cons.prems)
  show ?case
  proof (cases "P r")
    case False
    with IH show ?thesis by (simp add: obs'_def open_jobs_def attempts_sum_def)
  next
    case True
    have ok: "job_ok r" using Cons.prems by simp
    have evo: "row_evo r (f r)" using evolves [OF True ok] .
    have "attempts r \<le> attempts (f r)"
      using lifecycle_steps_attempts [of "max_attempts r" "(status r, attempts r)"
          "(status (f r), attempts (f r))"] evo
      by (simp add: row_evo_def)
    then have att: "attempts (f r) = attempts r + (if attempts r < attempts (f r) then 1 else 0)"
      using one_attempt [OF True] by auto
    have st: "terminal (status r) \<Longrightarrow> status (f r) = status r"
      using row_evo_no_undone [OF evo] .
    note tot = event_total_trigger_update [OF Cons.prems(1), of now r "f r"]
    have "ended_total obs' = ended_total obs +
        (if \<not> terminal (status r) \<and> terminal (status (f r)) then 1 else 0)"
      using True tot(3) st by (auto simp: obs'_def terminal_def)
    then have e: "ended_total obs' + (if terminal (status (f r)) then 0 else 1) =
        ended_total obs + (if terminal (status r) then 0 else 1)"
      using st by auto
    have a: "event_total ''attempts'' obs' - attempts (f r) = event_total ''attempts'' obs - attempts r"
      using True tot(4) att by (simp add: obs'_def)
    have s: "event_total ''submitted'' obs' = event_total ''submitted'' obs"
      using True tot(1) by (simp add: obs'_def)
    show ?thesis using IH e a s True
      by (auto simp: obs'_def open_jobs_def attempts_sum_def)
  qed
qed

end

lemmas key_simps = row_key_def row_outcome_def

interpretation heartbeat_stmt: row_statement "heartbeat_sel i owner clk" "heartbeat_row now clk lease prog"
proof (unfold_locales, goal_cases)
  case (2 r)
  then show ?case
    by (intro row_evo_quiet) (auto simp: row_simps key_simps live_def terminal_def)
qed (auto simp: row_simps job_ok_def live_def status_classes)

interpretation complete_stmt: row_statement "owned_sel i owner now" "complete_row now txt segs path"
proof (unfold_locales, goal_cases)
  case (2 r)
  then show ?case
    by (intro row_evo_step) (auto simp: row_simps key_simps live_def intro: lifecycle.finish)
qed (auto simp: row_simps job_ok_def live_def status_classes)

interpretation fail_stmt: row_statement "fail_sel i owner now" "fail_row now retryable e"
proof (unfold_locales, goal_cases)
  case (1 r)
  then show ?case by (auto simp: row_simps job_ok_def live_def status_classes Let_def)
next
  case (2 r)
  then have s: "\<not> terminal (status r)" "uploading (status r) \<or> status r = Running"
    by (auto simp: fail_sel_def live_def status_classes)
  show ?case
  proof (cases "status r = Running \<and> retryable \<and> attempts r < max_attempts r")
    case True
    then show ?thesis
      by (intro row_evo_step) (simp_all add: fail_row_def Let_def key_simps lifecycle.retry)
  next
    case False
    show ?thesis
    proof (cases "retryable \<and> attempts r < max_attempts r")
      case True
      with False s(2) have "uploading (status r)" by simp
      with True show ?thesis
        by (intro row_evo_step) (simp_all add: fail_row_def Let_def key_simps lifecycle.queue)
    next
      case False
      then have "\<not> (retryable \<and> attempts r < max_attempts r)" .
      with s(1) show ?thesis
        by (intro row_evo_step) (auto simp: fail_row_def Let_def key_simps lifecycle.fail)
    qed
  qed
qed (auto simp: row_simps Let_def)

interpretation reap_stmt: row_statement "reap_sel now" "exhausted_row now"
proof (unfold_locales, goal_cases)
  case (2 r)
  then show ?case
    by (intro row_evo_step) (auto simp: row_simps key_simps status_classes intro: lifecycle.fail)
qed (auto simp: row_simps job_ok_def status_classes)

text \<open>
  The statements that name one job by its id are given the condition the code has established
  for that job when it runs them.
\<close>

definition open_id :: "string \<Rightarrow> job \<Rightarrow> bool" where
  [row_simps]: "open_id i r \<longleftrightarrow> job_id r = i \<and> \<not> terminal (status r)"

definition startable_id :: "string \<Rightarrow> job \<Rightarrow> bool" where
  [row_simps]: "startable_id i r \<longleftrightarrow> job_id r = i \<and> in_queue (status r) \<and> attempts r < max_attempts r"

interpretation exhausted_stmt: row_statement "open_id i" "exhausted_row now"
proof (unfold_locales, goal_cases)
  case (2 r)
  then show ?case
    by (intro row_evo_step) (auto simp: row_simps key_simps status_classes intro: lifecycle.fail)
qed (auto simp: row_simps job_ok_def status_classes)

interpretation claim_stmt: row_statement "startable_id i" "claim_row now clk (new_lease w u) lease w inst"
proof (unfold_locales, goal_cases)
  case (2 r)
  then show ?case
    by (intro row_evo_step) (auto simp: row_simps key_simps intro: lifecycle.start)
qed (auto simp: row_simps job_ok_def status_classes new_lease_def)

interpretation start_stmt: row_statement "startable_id i"
  "broker_start_row now clk (new_lease w u) lease w inst delivery"
proof (unfold_locales, goal_cases)
  case (2 r)
  then show ?case
    by (intro row_evo_step) (auto simp: row_simps key_simps intro: lifecycle.start)
qed (auto simp: row_simps job_ok_def status_classes new_lease_def)

interpretation cancel_stmt: row_statement "cancel_sel i" "cancel_row now"
proof (unfold_locales, goal_cases)
  case (2 r)
  then show ?case
    by (intro row_evo_step) (auto simp: row_simps key_simps intro: lifecycle.fail)
qed (auto simp: row_simps job_ok_def status_classes)

interpretation queued_stmt: row_statement "upload_sel i" "queued_row now"
proof (unfold_locales, goal_cases)
  case (2 r)
  then show ?case
    by (intro row_evo_step) (auto simp: row_simps key_simps intro: lifecycle.queue)
qed (auto simp: row_simps job_ok_def status_classes)

interpretation downloading_stmt: row_statement "upload_sel i" "status_row now Downloading"
proof (unfold_locales, goal_cases)
  case (2 r)
  then show ?case
    by (intro row_evo_step) (auto simp: row_simps key_simps intro: lifecycle.download)
qed (auto simp: row_simps job_ok_def status_classes)

interpretation interrupted_stmt: row_statement "upload_sel i" "interrupted_row now"
proof (unfold_locales, goal_cases)
  case (2 r)
  then show ?case
    by (intro row_evo_quiet) (auto simp: row_simps key_simps status_classes)
qed (auto simp: row_simps job_ok_def status_classes)

interpretation ack_stmt: row_statement "ack_sel i" "ack_row now"
proof (unfold_locales, goal_cases)
  case (2 r)
  then show ?case
    by (intro row_evo_quiet) (auto simp: row_simps key_simps)
qed (auto simp: row_simps job_ok_def)

interpretation dispatch_stmt: row_statement P "dispatch_row m"
proof (unfold_locales, goal_cases)
  case (2 r)
  then show ?case
    by (intro row_evo_quiet) (auto simp: row_simps key_simps)
qed (auto simp: row_simps job_ok_def)

interpretation seed_stmt: row_statement seed_sel "seed_row gen"
proof (unfold_locales, goal_cases)
  case (2 r)
  then show ?case
    by (intro row_evo_quiet) (auto simp: row_simps key_simps)
qed (auto simp: row_simps job_ok_def)

lemma new_job_ok: "0 < default_max_attempts cfg \<Longrightarrow> job_ok (new_job cfg now i q)"
  by (simp add: new_job_def job_ok_def status_classes)

end
