(* ===== verification/StoreSystem.thy ===== *)
theory StoreSystem
  imports Lifecycle
begin

text \<open>
  The store under every caller at once: the calls the ingress, the worker endpoint, the
  local workers, the cleanup thread and the recovery command make, in any order, each one
  transaction, with the clock moving between them. The invariants of the tables are proved
  for every reachable state.
\<close>

section \<open>Calls\<close>

datatype store_call =
  CReserve string upload_request
| CRelease string
| CDownloading string
| CInterrupted string
| CQueued string string
| CAcknowledge string
| CPublish "string \<Rightarrow> bool" "string \<Rightarrow> string \<Rightarrow> bool"
| CRegister string string
| CBegin string string string string string string
| CCancel string
| CReport string string bool
| CClaim "string \<Rightarrow> bool" string string bool string
| CHeartbeat string string rat
| CComplete string string string "segment list" string
| CFail string string string string bool
| CCleanup int
| CReconcile "string \<Rightarrow> string" "string \<Rightarrow> string"

text \<open>
  What a call does to the tables. \<open>h\<close> is the hash of the upload locks. The recovery command
  finds every migration applied.
\<close>

fun apply_call :: "(string \<Rightarrow> int) \<Rightarrow> store_config \<Rightarrow> clock \<Rightarrow> store_call \<Rightarrow> db \<Rightarrow> db" where
  "apply_call h cfg c (CReserve u q) d = snd (reserve_upload h cfg (tx_now c) u q d)"
| "apply_call h cfg c (CRelease rid) d = release_upload h rid d"
| "apply_call h cfg c (CDownloading i) d = mark_downloading (tx_now c) i d"
| "apply_call h cfg c (CInterrupted i) d = mark_upload_interrupted (tx_now c) i d"
| "apply_call h cfg c (CQueued m i) d = snd (mark_queued cfg c m i d)"
| "apply_call h cfg c (CAcknowledge i) d = snd (acknowledge_job (tx_now c) i d)"
| "apply_call h cfg c (CPublish lk publish) d = snd (snd (publish_next lk c publish d))"
| "apply_call h cfg c (CRegister w inst) d = snd (register_consumer cfg c w inst d)"
| "apply_call h cfg c (CBegin u w inst i m delivery) d =
     snd (begin_attempt cfg c u w inst i m delivery d)"
| "apply_call h cfg c (CCancel i) d = snd (cancel_job (tx_now c) i d)"
| "apply_call h cfg c (CReport w inst ready) d = snd (report_availability cfg (tx_now c) w inst ready d)"
| "apply_call h cfg c (CClaim lk u w fallback inst) d =
     snd (claim_next_job cfg lk c u w fallback inst d)"
| "apply_call h cfg c (CHeartbeat i owner prog) d = snd (heartbeat cfg c i owner prog d)"
| "apply_call h cfg c (CComplete i owner txt segs path) d =
     snd (complete_job (tx_now c) i owner txt segs path d)"
| "apply_call h cfg c (CFail m i owner e retryable) d =
     snd (fail_job cfg c m i owner e retryable d)"
| "apply_call h cfg c (CCleanup ttl) d = fst (snd (cleanup_expired_jobs (tx_now c) ttl d []))"
| "apply_call h cfg c (CReconcile gen gen') d =
     (case reconcile_main cfg [] gen gen' (reading c 0) d of Inl _ \<Rightarrow> d | Inr d' \<Rightarrow> d')"

text \<open>The UUIDs a call draws.\<close>

fun call_uuids :: "db \<Rightarrow> store_call \<Rightarrow> string list" where
  "call_uuids d (CReserve u q) = [u]"
| "call_uuids d (CQueued m i) = [m]"
| "call_uuids d (CBegin u w inst i m delivery) = [u]"
| "call_uuids d (CClaim lk u w fallback inst) = [u]"
| "call_uuids d (CFail m i owner e retryable) = [m]"
| "call_uuids d (CReconcile gen gen') =
     map (\<lambda>r. gen (job_id r)) (jobs d) @ map (\<lambda>r. gen' (job_id r)) (jobs d)"
| "call_uuids d _ = []"

record sys =
  sdb :: db
  sclock :: time
  sused :: "string list"

definition init_sys :: sys where
  "init_sys = \<lparr>sdb = empty_db, sclock = 0, sused = []\<rparr>"

text \<open>
  A transaction may have begun before others that ran first (\<open>tx_now\<close> is only bounded by its
  own later readings), but it reads the clock after them.
\<close>

definition clock_ok :: "clock \<Rightarrow> time \<Rightarrow> bool" where
  "clock_ok c t \<longleftrightarrow> tx_now c \<le> reading c 0 \<and> t \<le> reading c 0 \<and> reading c 0 \<le> reading c 1 \<and>
     reading c 1 \<le> reading c 2"

definition fresh_uuids :: "string list \<Rightarrow> string list \<Rightarrow> bool" where
  "fresh_uuids us used \<longleftrightarrow> distinct us \<and> list_all canonical_uuid us \<and> list_all (\<lambda>u. u \<notin> set used) us"

inductive store_step :: "(string \<Rightarrow> int) \<Rightarrow> store_config \<Rightarrow> sys \<Rightarrow> sys \<Rightarrow> bool" for h cfg where
  call: "clock_ok c (sclock s) \<Longrightarrow> fresh_uuids (call_uuids (sdb s) k) (sused s) \<Longrightarrow>
     store_step h cfg s \<lparr>sdb = apply_call h cfg c k (sdb s), sclock = reading c 2,
       sused = call_uuids (sdb s) k @ sused s\<rparr>"
| tick: "sclock s \<le> t \<Longrightarrow> store_step h cfg s (s\<lparr>sclock := t\<rparr>)"

inductive_cases store_stepE: "store_step h cfg s t"

section \<open>Table invariant\<close>

definition tables_ok :: "db \<Rightarrow> bool" where
  "tables_ok d \<longleftrightarrow> distinct (map job_id (jobs d)) \<and>
     (\<forall>r \<in> set (jobs d). job_ok r) \<and>
     distinct (filter (\<lambda>x. x \<noteq> []) (map request_id (jobs d))) \<and>
     obs_ok (observations d)"

text \<open>Every submission has ended in exactly one counter, or its job is still open.\<close>

definition balanced :: "db \<Rightarrow> bool" where
  "balanced d \<longleftrightarrow> event_total ''submitted'' (observations d) =
     ended_total (observations d) + int (open_jobs (jobs d))"

text \<open>
  How the jobs of one state relate to those of a later one: a job that is in both keeps its
  identity and moved along the abstract life; and which jobs may be new.
\<close>

definition tables_evo :: "db \<Rightarrow> db \<Rightarrow> bool" where
  "tables_evo d d' \<longleftrightarrow> (\<forall>i r r'. job_by_id i d = Some r \<longrightarrow> job_by_id i d' = Some r' \<longrightarrow> row_evo r r')"

definition job_ids :: "db \<Rightarrow> string set" where
  "job_ids d = job_id ` set (jobs d)"

definition adds_only :: "string list \<Rightarrow> db \<Rightarrow> db \<Rightarrow> bool" where
  "adds_only us d d' \<longleftrightarrow> job_ids d' \<subseteq> job_ids d \<union> set us"

lemma tables_okD:
  "tables_ok d \<Longrightarrow> distinct (map job_id (jobs d))"
  "tables_ok d \<Longrightarrow> r \<in> set (jobs d) \<Longrightarrow> job_ok r"
  "tables_ok d \<Longrightarrow> obs_ok (observations d)"
  by (simp_all add: tables_ok_def)

lemma job_by_id_mem_iff: "job_by_id i d = None \<longleftrightarrow> i \<notin> job_ids d"
  by (auto simp: job_by_id_None job_ids_def)

lemma adds_only_trans:
  "adds_only us d d' \<Longrightarrow> adds_only vs d' d'' \<Longrightarrow> adds_only (vs @ us) d d''"
  unfolding adds_only_def set_append by blast

lemma tables_evo_trans:
  assumes "tables_evo d d'" and "tables_evo d' d''" and "adds_only us d' d''"
    and "set us \<inter> job_ids d = {}"
  shows "tables_evo d d''"
  unfolding tables_evo_def
proof (intro allI impI)
  fix i r r''
  assume r: "job_by_id i d = Some r" and r'': "job_by_id i d'' = Some r''"
  have "i \<in> job_ids d" "i \<in> job_ids d''"
    using r r'' job_by_id_mem_iff [of i d] job_by_id_mem_iff [of i d''] by auto
  with assms(3,4) have "i \<in> job_ids d'" by (auto simp: adds_only_def)
  then obtain r' where "job_by_id i d' = Some r'"
    using job_by_id_mem_iff [of i d'] by auto
  with assms(1,2) r r'' show "row_evo r r''" unfolding tables_evo_def by (blast intro: row_evo_trans)
qed

text \<open>
  The contract of an operation: it keeps the tables well-formed and the counters balanced,
  lets the jobs evolve, and adds no job but one of the ids it was given.
\<close>

definition keeps :: "string list \<Rightarrow> db \<Rightarrow> db \<Rightarrow> bool" where
  "keeps us d d' \<longleftrightarrow> tables_ok d' \<and> tables_evo d d' \<and> adds_only us d d' \<and>
     (balanced d \<longrightarrow> balanced d')"

lemma keeps_refl: "tables_ok d \<Longrightarrow> keeps us d d"
  by (auto simp: keeps_def tables_evo_def adds_only_def)

lemma keeps_ok: "keeps us d d' \<Longrightarrow> tables_ok d'"
  by (simp add: keeps_def)

lemma keeps_trans: "keeps us d d' \<Longrightarrow> keeps [] d' d'' \<Longrightarrow> keeps us d d''"
  using adds_only_trans [of us d d' "[]" d''] tables_evo_trans [of d d' d'' "[]"]
  by (simp add: keeps_def)

text \<open>Changes outside the jobs and their observations respect everything.\<close>

lemma keeps_frame:
  assumes "keeps us d d'" and "jobs e = jobs d'" and "observations e = observations d'"
  shows "keeps us d e"
  using assms by (simp add: keeps_def tables_ok_def tables_evo_def adds_only_def balanced_def
      job_by_id_def job_ids_def)

section \<open>Statements respect the contract\<close>

context row_statement begin

lemma keeps_update:
  assumes "tables_ok d"
  shows "keeps us d (update_jobs now P f d)"
proof -
  have ok: "\<And>r. r \<in> set (jobs d) \<Longrightarrow> job_ok r" and keys: "obs_ok (observations d)"
    using assms by (simp_all add: tables_ok_def)
  note cnt = counters [of "observations d" "jobs d" now, OF keys ok]
  have "tables_ok (update_jobs now P f d)"
    using assms cnt rows_ok [OF ok, of "jobs d"] by (auto simp: tables_ok_def update_jobs_def)
  moreover have "tables_evo d (update_jobs now P f d)"
    unfolding tables_evo_def
  proof (intro allI impI)
    fix i r r'
    assume "job_by_id i d = Some r" and "job_by_id i (update_jobs now P f d) = Some r'"
    moreover have "\<exists>r'. job_by_id i (update_jobs now P f d) = Some r' \<and> row_evo r r'"
      by (rule by_id_evo) (use ok calculation in auto)
    ultimately show "row_evo r r'" by simp
  qed
  moreover have "adds_only us d (update_jobs now P f d)"
    by (simp add: adds_only_def job_ids_def image_set flip: set_map)
  moreover have "balanced d \<longrightarrow> balanced (update_jobs now P f d)"
    using cnt by (simp add: balanced_def update_jobs_def)
  ultimately show ?thesis by (simp add: keeps_def)
qed

lemma keeps_quiet:
  assumes "tables_ok d" and "\<And>r. P r \<Longrightarrow> status (f r) = status r"
  shows "keeps us d (update_jobs_quiet P f d)"
proof -
  have ok: "\<And>r. r \<in> set (jobs d) \<Longrightarrow> job_ok r" using assms(1) by (simp add: tables_ok_def)
  have "tables_ok (update_jobs_quiet P f d)"
    using assms(1) rows_ok_quiet [OF ok, of "jobs d"] by (auto simp: tables_ok_def)
  moreover have "tables_evo d (update_jobs_quiet P f d)"
    unfolding tables_evo_def
  proof (intro allI impI)
    fix i r r'
    assume "job_by_id i d = Some r" and "job_by_id i (update_jobs_quiet P f d) = Some r'"
    moreover have "\<exists>r'. job_by_id i (update_jobs_quiet P f d) = Some r' \<and> row_evo r r'"
      by (rule by_id_evo_quiet) (use ok calculation in auto)
    ultimately show "row_evo r r'" by simp
  qed
  moreover have "adds_only us d (update_jobs_quiet P f d)"
    by (simp add: adds_only_def job_ids_def image_set flip: set_map)
  moreover have "balanced d \<longrightarrow> balanced (update_jobs_quiet P f d)"
    using assms(2) by (simp add: balanced_def open_jobs_def count_update_same)
  ultimately show ?thesis by (simp add: keeps_def)
qed

end

text \<open>
  A statement that names a job by its id updates the row that was read before it, so the
  condition read there may be added to the statement's.
\<close>

lemma update_jobs_cong:
  assumes "\<And>r. r \<in> set (jobs d) \<Longrightarrow> P r = Q r"
  shows "update_jobs now P f d = update_jobs now Q f d"
proof -
  have "trigger_rows now P f rs obs = trigger_rows now Q f rs obs"
    if "\<And>r. r \<in> set rs \<Longrightarrow> P r = Q r" for rs obs
    using that by (induction rs arbitrary: obs) auto
  with assms show ?thesis by (simp add: update_jobs_def cong: update_where_cong)
qed

lemma by_id_cong:
  assumes "distinct (map job_id (jobs d))" and "r \<in> set (jobs d)" and "job_id r = i" and "Q r"
  shows "update_jobs now (by_id i) f d = update_jobs now (\<lambda>x. job_id x = i \<and> Q x) f d"
proof (rule update_jobs_cong)
  fix x
  assume "x \<in> set (jobs d)"
  then show "by_id i x = (job_id x = i \<and> Q x)"
    using distinct_key_eq [OF assms(1) \<open>x \<in> set (jobs d)\<close> assms(2)] assms(3,4)
    by (auto simp: by_id_def)
qed

lemma by_id_startable:
  assumes "tables_ok d" and "r \<in> set (jobs d)" and "in_queue (status r)"
    and "attempts r < max_attempts r"
  shows "update_jobs now (by_id (job_id r)) f d = update_jobs now (startable_id (job_id r)) f d"
  using by_id_cong [OF tables_okD(1) [OF assms(1)] assms(2) refl,
      of "\<lambda>x. in_queue (status x) \<and> attempts x < max_attempts x" now f] assms(3,4)
  by (simp add: startable_id_def [abs_def])

lemma by_id_open:
  assumes "tables_ok d" and "r \<in> set (jobs d)" and "\<not> terminal (status r)"
  shows "update_jobs now (by_id (job_id r)) f d = update_jobs now (open_id (job_id r)) f d"
  using by_id_cong [OF tables_okD(1) [OF assms(1)] assms(2) refl,
      of "\<lambda>x. \<not> terminal (status x)" now f] assms(3)
  by (simp add: open_id_def [abs_def])

section \<open>Operations respect the contract\<close>

lemma keeps_reap: "tables_ok d \<Longrightarrow> keeps us d (sql_reap now d)"
  unfolding sql_reap_def by (rule reap_stmt.keeps_update)

lemma keeps_dispatch: "tables_ok d \<Longrightarrow> keeps us d (sql_dispatch m i d)"
  unfolding sql_dispatch_def by (rule dispatch_stmt.keeps_quiet) (simp_all add: dispatch_row_def)

lemma keeps_enqueue: "tables_ok d \<Longrightarrow> keeps us d (enqueue clk m i delay d)"
  by (rule keeps_frame [OF keeps_dispatch]) (auto simp: enqueue_def sql_outbox_insert_def)

lemma keeps_seed: "tables_ok d \<Longrightarrow> keeps us d (sql_broker_seed gen d)"
  by (rule keeps_frame [OF seed_stmt.keeps_quiet])
    (auto simp: sql_broker_seed_def seed_row_def)

lemma keeps_workers: "tables_ok d \<Longrightarrow> keeps us d (d\<lparr>workers := ws\<rparr>)"
  by (rule keeps_frame [OF keeps_refl]) auto

lemma keeps_request_work: "tables_ok d \<Longrightarrow> keeps us d (sql_request_work clk ttl w inst d)"
  unfolding sql_request_work_def by (rule keeps_workers)

lemma slot_candidate_Some:
  "slot_candidate lk clk d = Some r \<Longrightarrow> r \<in> set (jobs d) \<and> startable clk r \<and> \<not> lk (job_id r)"
  by (auto simp: slot_candidate_def dest: first_min_mem)

lemma legacy_candidate_Some:
  "legacy_candidate lk fb pref w inst now d = Some r \<Longrightarrow>
   r \<in> set (jobs d) \<and> startable now r \<and> \<not> lk (job_id r)"
  by (auto simp: legacy_candidate_def dest: first_min_mem split: if_splits)

lemma keeps_start_candidate:
  assumes "tables_ok d" and "\<And>r. cand = Some r \<Longrightarrow> r \<in> set (jobs d) \<and> startable t r"
  shows "keeps us d (snd (start_candidate now (claim_row now clk (new_lease w u) lease w inst) cand d))"
proof (cases cand)
  case None
  then show ?thesis using assms(1) by (simp add: start_candidate_def keeps_refl)
next
  case (Some r)
  with assms(2) have r: "r \<in> set (jobs d)" "in_queue (status r)" "attempts r < max_attempts r"
    by (auto simp: startable_def)
  show ?thesis
    using claim_stmt.keeps_update [OF assms(1), of us now "job_id r" now clk w u lease inst]
    by (simp add: Some start_candidate_def Let_def by_id_startable [OF assms(1) r])
qed

lemma keeps_claim_slot:
  "tables_ok d \<Longrightarrow> keeps us d (snd (sql_claim_slot lk now clk (new_lease w u) lease w inst d))"
  unfolding sql_claim_slot_def by (rule keeps_start_candidate) (auto dest: slot_candidate_Some)

lemma keeps_claim:
  "tables_ok d \<Longrightarrow> keeps us d (snd (sql_claim lk now fb pref w inst (new_lease w u) lease d))"
  unfolding sql_claim_def by (rule keeps_start_candidate) (auto dest: legacy_candidate_Some)

lemma keeps_claim_by_policy:
  assumes "tables_ok d"
  shows "keeps us d (snd (claim_by_policy cfg lk c u w inst d))"
proof -
  let ?d1 = "sql_reap (tx_now c) d"
  let ?d2 = "sql_request_work (reading c 0) (demand_ttl_seconds cfg) w inst ?d1"
  have k1: "keeps us d ?d1" using assms by (rule keeps_reap)
  have k2: "keeps us d ?d2"
    by (rule keeps_trans [OF k1 keeps_request_work [OF keeps_ok [OF k1]]])
  note k3 = keeps_trans [OF k2 keeps_claim_slot [OF keeps_ok [OF k2],
      of _ lk "tx_now c" "reading c 2" w u "lease_seconds cfg" inst]]
  show ?thesis using k2 k3
    by (auto simp: claim_by_policy_def Let_def split: option.split prod.split)
qed

lemma keeps_claim_next:
  assumes "tables_ok d"
  shows "keeps us d (snd (claim_next_job cfg lk c u w fb inst d))"
proof -
  have k1: "keeps us d (sql_reap (tx_now c) d)" using assms by (rule keeps_reap)
  note k2 = keeps_trans [OF k1 keeps_claim [OF keeps_ok [OF k1],
      of _ lk "tx_now c" fb "preferred_workers cfg" w inst u "lease_seconds cfg"]]
  show ?thesis using assms k2 keeps_claim_by_policy [OF assms, of us cfg lk c u w inst]
    by (auto simp: claim_next_job_def Let_def keeps_refl split: prod.split)
qed

lemma keeps_begin:
  assumes "tables_ok d"
  shows "keeps us d (snd (begin_attempt cfg c u w inst i m delivery d))"
proof (cases "job_by_id i d")
  case None
  then show ?thesis using assms by (simp add: begin_attempt_def keeps_refl)
next
  case (Some r)
  then have r: "r \<in> set (jobs d)" "job_id r = i" using job_by_id_Some by auto
  have ex: "\<not> terminal (status r) \<Longrightarrow> keeps us d (sql_broker_exhausted (tx_now c) i d)"
    using by_id_open [OF assms r(1)] r(2) exhausted_stmt.keeps_update [OF assms]
    by (simp add: sql_broker_exhausted_def)
  have st: "in_queue (status r) \<Longrightarrow> attempts r < max_attempts r \<Longrightarrow>
      keeps us d (sql_broker_start (tx_now c) (reading c 2) (new_lease w u) (lease_seconds cfg)
        w inst delivery i d)"
    using by_id_startable [OF assms r(1)] r(2) start_stmt.keeps_update [OF assms]
    by (simp add: sql_broker_start_def)
  have start: "in_queue (status r) \<Longrightarrow> attempts r < max_attempts r \<Longrightarrow>
      keeps us d (snd (start_delivery cfg c u w inst delivery r d))"
    using st assms r(2)
    by (auto simp: start_delivery_def Let_def keeps_refl split: option.split)
  show ?thesis using Some ex start assms
    by (auto simp: begin_attempt_def keeps_refl)
qed

lemma keeps_fail:
  assumes "tables_ok d"
  shows "keeps us d (snd (fail_job cfg c m i owner e retryable d))"
proof -
  let ?d = "sql_fail (tx_now c) retryable e i owner d"
  have k: "keeps us d ?d" unfolding sql_fail_def by (rule fail_stmt.keeps_update [OF assms])
  have k': "keeps us d (enqueue clk m i delay ?d)" for clk delay
    by (rule keeps_trans [OF k keeps_enqueue [OF keeps_ok [OF k]]])
  show ?thesis using k k' by (auto simp: fail_job_def Let_def split: option.split)
qed

lemma keeps_mark_queued:
  assumes "tables_ok d"
  shows "keeps us d (snd (mark_queued cfg c m i d))"
proof -
  let ?d = "update_jobs (tx_now c) (upload_sel i) (queued_row (tx_now c)) d"
  have k: "keeps us d ?d" by (rule queued_stmt.keeps_update [OF assms])
  have k': "keeps us d (enqueue clk m i delay ?d)" for clk delay
    by (rule keeps_trans [OF k keeps_enqueue [OF keeps_ok [OF k]]])
  show ?thesis using k k' by (auto simp: mark_queued_def Let_def split: list.split)
qed

text \<open>Deleting terminal jobs.\<close>

lemma keeps_delete:
  assumes "tables_ok d" and "\<And>r. r \<in> set (jobs d) \<Longrightarrow> P r \<Longrightarrow> terminal (status r)"
  shows "keeps us d (d\<lparr>jobs := filter (\<lambda>r. \<not> P r) (jobs d)\<rparr>)" (is "keeps us d ?e")
proof -
  have "distinct (map request_id (filter (\<lambda>r. request_id r \<noteq> []) (filter (\<lambda>r. \<not> P r) (jobs d))))"
    using assms(1) distinct_map_filter [of request_id "filter (\<lambda>r. request_id r \<noteq> []) (jobs d)"]
    by (simp add: tables_ok_def filter_map comp_def conj_commute)
  then have ok: "tables_ok ?e"
    using assms(1) by (auto simp: tables_ok_def filter_map comp_def intro: distinct_map_filter)
  have "tables_evo d ?e"
    unfolding tables_evo_def
  proof (intro allI impI)
    fix i r r'
    assume r: "job_by_id i d = Some r" and r': "job_by_id i ?e = Some r'"
    from job_by_id_Some [OF r'] have "r' \<in> set (jobs d)" "job_id r' = i" by auto
    with job_by_id_mem [OF tables_okD(1) [OF assms(1)]] have "job_by_id i d = Some r'" by auto
    with r show "row_evo r r'" by simp
  qed
  moreover have "adds_only us d ?e" by (auto simp: adds_only_def job_ids_def)
  moreover have "open_jobs (jobs ?e) = open_jobs (jobs d)"
    using assms(2) by (auto simp: open_jobs_def count_where_filter intro!: count_where_cong)
  then have "balanced d \<longrightarrow> balanced ?e" by (simp add: balanced_def)
  ultimately show ?thesis using ok by (simp add: keeps_def)
qed

lemma keeps_cleanup:
  assumes "tables_ok d"
  shows "keeps us d (fst (snd (cleanup_expired_jobs now ttl d f)))"
proof -
  let ?d = "sql_reap now d"
  have k: "keeps us d ?d" using assms by (rule keeps_reap)
  have "terminal (status r)" if "r \<in> set (jobs ?d)" "expired_sel now ttl r" for r
    using tables_okD(2) [OF keeps_ok [OF k] that(1)] that(2)
    by (auto simp: job_ok_def expired_sel_def split: option.splits)
  from keeps_trans [OF k keeps_delete [OF keeps_ok [OF k] this]]
  have "keeps us d (?d\<lparr>jobs := filter (\<lambda>r. \<not> expired_sel now ttl r) (jobs ?d)\<rparr>)" .
  then show ?thesis
    by (rule keeps_frame)
      (simp_all add: cleanup_expired_jobs_def sql_cleanup_def Let_def split: prod.split)
qed

lemma find_by_append:
  "find_by P (xs @ ys) = (case find_by P xs of None \<Rightarrow> find_by P ys | Some r \<Rightarrow> Some r)"
  by (induction xs) (auto simp: find_by_def)

lemma keeps_create:
  assumes "tables_ok d" and "0 < default_max_attempts cfg"
  shows "keeps [i] d (snd (create_job cfg now i q d))"
proof (cases "exists_where (\<lambda>r. job_id r = i \<or>
    (rq_request_id q \<noteq> [] \<and> request_id r = rq_request_id q)) (jobs d)")
  case True
  then show ?thesis using assms(1) by (simp add: create_job_def keeps_refl)
next
  case False
  let ?r = "new_job cfg now i q"
  let ?e = "snd (create_job cfg now i q d)"
  have js: "jobs ?e = jobs d @ [?r]" and os: "observations ?e = trigger_insert now (observations d)"
    using False by (simp_all add: create_job_def Let_def)
  have new: "job_id ?r = i" "request_id ?r = rq_request_id q" "status ?r = Accepted"
    by (simp_all add: new_job_def)
  have keys: "obs_ok (observations d)" using assms(1) by (simp add: tables_ok_def)
  have "tables_ok ?e"
    using assms False new_job_ok [OF assms(2)]
    by (auto simp: tables_ok_def js os new trigger_insert_def obs_ok_observe exists_where_iff)
  moreover have "tables_evo d ?e"
    unfolding tables_evo_def
  proof (intro allI impI)
    fix j r r'
    assume "job_by_id j d = Some r" and "job_by_id j ?e = Some r'"
    then have "r' = r" by (auto simp: job_by_id_def js find_by_append split: option.splits)
    then show "row_evo r r'" by simp
  qed
  moreover have "adds_only [i] d ?e" by (auto simp: adds_only_def job_ids_def js new)
  moreover have "balanced d \<longrightarrow> balanced ?e"
    by (simp add: balanced_def js os trigger_insert_def event_total_observe [OF keys] ended_total_def
        open_jobs_def new terminal_def)
  ultimately show ?thesis by (simp add: keeps_def)
qed

lemma keeps_release: "keeps us d e \<Longrightarrow> keeps us d (release_upload h rid e)"
  by (erule keeps_frame) (auto simp: release_upload_def)

lemma keeps_reserve:
  assumes "tables_ok d" and "0 < default_max_attempts cfg"
  shows "keeps [i] d (snd (reserve_upload h cfg now i q d))"
proof -
  define d1 where "d1 = (if rq_request_id q = [] then d
      else d\<lparr>upload_locks := h (rq_request_id q) # upload_locks d\<rparr>)"
  have k1: "keeps [i] d d1" by (rule keeps_frame [OF keeps_refl [OF assms(1)]]) (auto simp: d1_def)
  have j: "jobs d1 = jobs d" "observations d1 = observations d" by (auto simp: d1_def)
  have "keeps [i] d1 (snd (reserve_row cfg now i q d1))"
    using keeps_create [OF keeps_ok [OF k1] assms(2), of i now q] keeps_refl [OF keeps_ok [OF k1]]
    by (auto simp: reserve_row_def split: option.split prod.split sum.split if_split)
  then have k2: "keeps [i] d (snd (reserve_row cfg now i q d1))"
    using j by (simp add: keeps_def tables_evo_def adds_only_def balanced_def job_by_id_def job_ids_def)
  show ?thesis
    using k2 keeps_release [OF k2] keeps_refl [OF assms(1)]
    by (auto simp: reserve_upload_def Let_def d1_def [symmetric] split: prod.split sum.split)
qed

lemma keeps_reconcile:
  assumes "tables_ok d"
  shows "keeps us d (case reconcile_main cfg [] gen gen' clk d of Inl _ \<Rightarrow> d | Inr d' \<Rightarrow> d')"
proof -
  have k1: "keeps us d (init_schema cfg [] gen d)"
    using assms by (simp add: init_schema_def keeps_seed keeps_refl)
  have "keeps [] e (sql_broker_reconcile clk e)" if "tables_ok e" for e
    unfolding sql_broker_reconcile_def
    by (rule dispatch_stmt.keeps_quiet [OF that]) (simp add: dispatch_row_def)
  from keeps_trans [OF k1 this [OF keeps_ok [OF k1]]]
  have k2: "keeps us d (sql_broker_reconcile clk (init_schema cfg [] gen d))" .
  from keeps_trans [OF k2 keeps_seed [OF keeps_ok [OF k2]]] assms show ?thesis
    by (simp add: reconcile_main_def keeps_refl)
qed

lemma keeps_call:
  assumes "tables_ok d" and "0 < default_max_attempts cfg"
  shows "keeps (call_uuids d k) d (apply_call h cfg c k d)"
proof (cases k)
  case (CReserve u q)
  then show ?thesis using keeps_reserve [OF assms] by simp
next
  case (CRelease rid)
  then show ?thesis using keeps_release [OF keeps_refl [OF assms(1)]] by simp
next
  case (CDownloading i)
  then show ?thesis
    by (simp add: mark_downloading_def update_status_def downloading_stmt.keeps_update [OF assms(1)])
next
  case (CInterrupted i)
  then show ?thesis
    by (simp add: mark_upload_interrupted_def sql_upload_interrupted_def
        interrupted_stmt.keeps_quiet [OF assms(1)] interrupted_row_def)
next
  case (CQueued m i)
  then show ?thesis using keeps_mark_queued [OF assms(1)] by simp
next
  case (CAcknowledge i)
  then show ?thesis
    by (simp add: acknowledge_job_def sql_ack_def ack_stmt.keeps_quiet [OF assms(1)] ack_row_def)
next
  case (CPublish lk publish)
  then show ?thesis
    by (intro keeps_frame [OF keeps_refl [OF assms(1)]])
      (auto simp: publish_next_def sql_outbox_published_def split: option.split)
next
  case (CRegister w inst)
  then show ?thesis
    by (intro keeps_frame [OF keeps_refl [OF assms(1)]])
      (auto simp: register_consumer_def sql_broker_admit_def Let_def
        split: option.split prod.split bool.split)
next
  case (CBegin u w inst i m delivery)
  then show ?thesis using keeps_begin [OF assms(1)] by simp
next
  case (CCancel i)
  then show ?thesis by (simp add: cancel_job_def cancel_stmt.keeps_update [OF assms(1)])
next
  case (CReport w inst ready)
  then show ?thesis
    by (intro keeps_frame [OF keeps_refl [OF assms(1)]])
      (simp_all add: report_availability_def sql_report_availability_def
        sql_cleanup_availability_def Let_def)
next
  case (CClaim lk u w fallback inst)
  then show ?thesis using keeps_claim_next [OF assms(1)] by simp
next
  case (CHeartbeat i owner prog)
  then show ?thesis
    by (simp add: heartbeat_def sql_heartbeat_def heartbeat_stmt.keeps_quiet [OF assms(1)]
        heartbeat_row_def)
next
  case (CComplete i owner result segs path)
  then show ?thesis
    by (simp add: complete_job_def sql_complete_def complete_stmt.keeps_update [OF assms(1)])
next
  case (CFail m i owner e retryable)
  then show ?thesis using keeps_fail [OF assms(1)] by simp
next
  case (CCleanup ttl)
  then show ?thesis using keeps_cleanup [OF assms(1)] by simp
next
  case (CReconcile gen gen')
  then show ?thesis using keeps_reconcile [OF assms(1)] by simp
qed

section \<open>Reachable states\<close>

text \<open>Beside the tables: every job id is one of the UUIDs drawn so far.\<close>

definition sys_ok :: "sys \<Rightarrow> bool" where
  "sys_ok s \<longleftrightarrow> tables_ok (sdb s) \<and> balanced (sdb s) \<and>
     job_ids (sdb s) \<subseteq> set (sused s)"

lemma store_step_keeps:
  assumes "store_step h cfg s t" and "0 < default_max_attempts cfg" and "sys_ok s"
  shows "sys_ok t \<and> tables_evo (sdb s) (sdb t) \<and>
    (\<exists>us. adds_only us (sdb s) (sdb t) \<and> set us \<inter> set (sused s) = {} \<and>
      set (sused t) = set us \<union> set (sused s))"
  using assms(1)
proof (cases rule: store_step.cases)
  case (call c k)
  have k: "keeps (call_uuids (sdb s) k) (sdb s) (apply_call h cfg c k (sdb s))"
    using keeps_call assms(2,3) by (simp add: sys_ok_def)
  have "set (call_uuids (sdb s) k) \<inter> set (sused s) = {}"
    using call(3) by (auto simp: fresh_uuids_def list_all_iff)
  then show ?thesis
    using k assms(3) call(1) unfolding sys_ok_def keeps_def adds_only_def
    by (intro conjI exI [of _ "call_uuids (sdb s) k"]) auto
next
  case (tick t')
  then show ?thesis
    using assms(3) keeps_refl [of "sdb s" "[]"] unfolding sys_ok_def keeps_def
    by (intro conjI exI [of _ "[]"]) auto
qed

text \<open>
  \<open>setup_ok\<close> is the configuration the constructor accepts; \<open>reachable\<close> starts from an
  empty, migrated database.
\<close>

definition store_inv :: "store_config \<Rightarrow> sys \<Rightarrow> bool" where
  "store_inv cfg s \<longleftrightarrow> 0 < default_max_attempts cfg \<longrightarrow> sys_ok s"

interpretation store_sys: transition_invariant "\<lambda>s. s = init_sys" "store_step h cfg" "store_inv cfg"
proof (unfold_locales, goal_cases)
  case (1 s)
  then show ?case
    by (simp add: store_inv_def sys_ok_def init_sys_def empty_db_def tables_ok_def obs_ok_def obs_keys_def
        balanced_def job_ids_def ended_total_def event_total_def open_jobs_def)
next
  case (2 s t)
  then show ?case using store_step_keeps unfolding store_inv_def by blast
qed

lemma reachable_sys_ok:
  assumes "(store_step h cfg)\<^sup>*\<^sup>* init_sys s" and "0 < default_max_attempts cfg"
  shows "sys_ok s"
  using store_sys.reachable_inv [of init_sys h cfg s] assms by (simp add: store_inv_def)

lemma steps_sys_ok:
  assumes "(store_step h cfg)\<^sup>*\<^sup>* s t" and "0 < default_max_attempts cfg" and "sys_ok s"
  shows "sys_ok t"
  using store_sys.steps_inv [of h cfg s t] assms by (simp add: store_inv_def)

lemma steps_evo:
  assumes "(store_step h cfg)\<^sup>*\<^sup>* s t" and "0 < default_max_attempts cfg" and "sys_ok s"
  shows "tables_evo (sdb s) (sdb t) \<and>
    (\<exists>us. adds_only us (sdb s) (sdb t) \<and> set us \<inter> set (sused s) = {} \<and>
      set (sused t) = set us \<union> set (sused s))"
  using assms(1)
proof (induction rule: rtranclp_induct)
  case base
  show ?case using keeps_refl [of "sdb s" "[]"] assms(3)
    unfolding sys_ok_def keeps_def by (intro conjI exI [of _ "[]"]) auto
next
  case (step t v)
  have ok: "sys_ok t" using steps_sys_ok [OF step.hyps(1) assms(2,3)] .
  from step.IH obtain us where us: "tables_evo (sdb s) (sdb t)" "adds_only us (sdb s) (sdb t)"
    "set us \<inter> set (sused s) = {}" "set (sused t) = set us \<union> set (sused s)" by blast
  from store_step_keeps [OF step.hyps(2) assms(2) ok] obtain vs where
    vs: "tables_evo (sdb t) (sdb v)" "adds_only vs (sdb t) (sdb v)"
      "set vs \<inter> set (sused t) = {}" "set (sused v) = set vs \<union> set (sused t)" by blast
  have "set vs \<inter> job_ids (sdb s) = {}"
    using vs(3) us(4) assms(3) by (auto simp: sys_ok_def)
  from tables_evo_trans [OF us(1) vs(1,2) this]
  have "tables_evo (sdb s) (sdb v)" .
  moreover have "adds_only (vs @ us) (sdb s) (sdb v)" by (rule adds_only_trans [OF us(2) vs(2)])
  moreover have "set (vs @ us) \<inter> set (sused s) = {}" using us(3,4) vs(3) by auto
  ultimately show ?case using us(4) vs(4) by (intro conjI exI [of _ "vs @ us"]) auto
qed

end
