(* ===== verification/Fencing.thy ===== *)
theory Fencing
  imports StoreSystem
begin

text \<open>
  Attempt fencing. A lease token ends in a UUID drawn for one attempt; once the attempt has
  been replaced, ended or deleted, no later state accepts its token again.
\<close>

section \<open>Where lease tokens come from\<close>

text \<open>
  Every token in \<open>d'\<close> was the same job's in \<open>d\<close>, or is one of the new ones \<open>X\<close>, given by job
  id and UUID. \<open>path_name\<close> is what follows the last slash.
\<close>

definition owners_from :: "(string \<times> string) set \<Rightarrow> db \<Rightarrow> db \<Rightarrow> bool" where
  "owners_from X d d' \<longleftrightarrow> (\<forall>r' \<in> set (jobs d'). lease_owner r' = [] \<or>
     (\<exists>r \<in> set (jobs d). job_id r = job_id r' \<and> lease_owner r = lease_owner r') \<or>
     (job_id r', path_name (lease_owner r')) \<in> X)"

lemma owners_refl: "owners_from X d d"
  by (auto simp: owners_from_def)

lemma owners_frame: "owners_from X d d' \<Longrightarrow> jobs e = jobs d' \<Longrightarrow> owners_from X d e"
  by (simp add: owners_from_def)

lemma owners_mono: "owners_from X d d' \<Longrightarrow> X \<subseteq> Y \<Longrightarrow> owners_from Y d d'"
  unfolding owners_from_def by blast

lemma owners_trans: "owners_from X d d' \<Longrightarrow> owners_from X d' d'' \<Longrightarrow> owners_from X d d''"
  unfolding owners_from_def by (metis (no_types, lifting))

lemma owners_update:
  assumes "\<And>r. P r \<Longrightarrow> job_id (f r) = job_id r"
    and "\<And>r. P r \<Longrightarrow> lease_owner (f r) = [] \<or> lease_owner (f r) = lease_owner r \<or>
      (job_id r, path_name (lease_owner (f r))) \<in> X"
  shows "owners_from X d (update_jobs now P f d)"
  using assms by (fastforce simp: owners_from_def set_update_where)

lemma owners_quiet:
  assumes "\<And>r. P r \<Longrightarrow> job_id (f r) = job_id r" and "\<And>r. P r \<Longrightarrow> lease_owner (f r) = lease_owner r"
  shows "owners_from X d (update_jobs_quiet P f d)"
  using assms by (fastforce simp: owners_from_def set_update_where)

lemma path_name_lease: "canonical_uuid u \<Longrightarrow> path_name (new_lease w u) = u"
proof -
  assume u: "canonical_uuid u"
  have "CHR ''/'' \<notin> set u"
  proof
    assume "CHR ''/'' \<in> set u"
    then obtain i where i: "i < length u" "u ! i = CHR ''/''" by (auto simp: in_set_conv_nth)
    then have "(i, CHR ''/'') \<in> set (enumerate 0 u)"
      by (auto simp: in_set_conv_nth enumerate_eq_zip)
    with u show False
      by (auto simp: canonical_uuid_def list_all_iff is_lower_hex_def is_digit_def split: if_splits)
  qed
  then show ?thesis using path_name_join [of u w] by (simp add: new_lease_def path_join_def)
qed

lemma owners_reap: "owners_from X d (sql_reap now d)"
  unfolding sql_reap_def by (rule owners_update) (simp_all add: exhausted_row_def)

lemma owners_enqueue: "owners_from X d d' \<Longrightarrow> owners_from X d (enqueue clk m i delay d')"
  using owners_trans [OF _ owners_quiet [of "by_id i" "dispatch_row m" X d']]
  by (simp add: enqueue_def sql_outbox_insert_def sql_dispatch_def dispatch_row_def owners_from_def)

lemma owners_seed: "owners_from X d (sql_broker_seed gen d)"
  by (rule owners_frame [OF owners_quiet [of seed_sel "seed_row gen"]])
    (simp_all add: seed_row_def sql_broker_seed_def)

lemma owners_start_candidate:
  assumes "canonical_uuid u"
  shows "\<exists>i. owners_from ({i} \<times> {u}) d
    (snd (start_candidate now (claim_row now clk (new_lease w u) lease w inst) cand d))"
proof (cases cand)
  case None
  then show ?thesis by (simp add: start_candidate_def owners_refl)
next
  case (Some r)
  have "owners_from ({job_id r} \<times> {u}) d
      (update_jobs now (by_id (job_id r)) (claim_row now clk (new_lease w u) lease w inst) d)"
    by (rule owners_update) (simp_all add: claim_row_def by_id_def path_name_lease [OF assms])
  then show ?thesis by (auto simp: Some start_candidate_def Let_def)
qed

lemma owners_claim:
  assumes "canonical_uuid u"
  shows "\<exists>i. owners_from ({i} \<times> {u}) d (snd (claim_next_job cfg lk c u w fb inst d))"
proof -
  have ex: "\<exists>i. owners_from ({i} \<times> {u}) d (snd (start_candidate (tx_now c)
      (claim_row (tx_now c) clk (new_lease w u) lease w inst) cand d'))"
    if d': "\<And>X. owners_from X d d'" for clk lease cand d'
  proof -
    obtain i where "owners_from ({i} \<times> {u}) d' (snd (start_candidate (tx_now c)
        (claim_row (tx_now c) clk (new_lease w u) lease w inst) cand d'))"
      using owners_start_candidate [OF assms] by blast
    then show ?thesis using owners_trans [OF d'] by blast
  qed
  define d1 where "d1 = sql_reap (tx_now c) d"
  define d2 where "d2 = sql_request_work (reading c 0) (demand_ttl_seconds cfg) w inst d1"
  have d1: "owners_from X d d1" for X by (simp add: d1_def owners_reap)
  have d2: "owners_from X d d2" for X
    by (rule owners_frame [OF d1]) (simp add: d2_def sql_request_work_def)
  have policy: "\<exists>i. owners_from ({i} \<times> {u}) d (snd (claim_by_policy cfg lk c u w inst d))"
  proof (cases "sql_select_worker (worker_policies cfg) (reading c 1) w inst d2")
    case None
    then show ?thesis
      by (simp add: claim_by_policy_def Let_def d1_def [symmetric] d2_def [symmetric] d2)
  next
    case (Some a)
    then show ?thesis using ex [OF d2]
      by (simp add: claim_by_policy_def Let_def d1_def [symmetric] d2_def [symmetric]
          sql_claim_slot_def split_beta)
  qed
  consider "queue_backend cfg = Rabbitmq" | "queue_backend cfg \<noteq> Rabbitmq" "worker_policies cfg \<noteq> []"
    | "queue_backend cfg \<noteq> Rabbitmq" "worker_policies cfg = []" by blast
  then show ?thesis
  proof cases
    case 1
    then show ?thesis by (simp add: claim_next_job_def owners_refl)
  next
    case 2
    then show ?thesis using policy by (simp add: claim_next_job_def split_beta)
  next
    case 3
    then show ?thesis using ex [OF d1]
      by (simp add: claim_next_job_def Let_def d1_def [symmetric] sql_claim_def split_beta)
  qed
qed

lemma owners_begin:
  assumes "canonical_uuid u"
  shows "owners_from ({i} \<times> {u}) d (snd (begin_attempt cfg c u w inst i m delivery d))"
proof (cases "job_by_id i d")
  case None
  then show ?thesis by (simp add: begin_attempt_def owners_refl)
next
  case (Some r)
  then have i: "job_id r = i" using job_by_id_Some by auto
  have ex: "owners_from ({i} \<times> {u}) d (sql_broker_exhausted now i d)" for now
    unfolding sql_broker_exhausted_def by (rule owners_update) (simp_all add: exhausted_row_def)
  have st: "owners_from ({i} \<times> {u}) d (sql_broker_start now clk (new_lease w u) lease w inst delivery i d)"
    for now clk lease
    unfolding sql_broker_start_def
    by (rule owners_update) (simp_all add: broker_start_row_def by_id_def path_name_lease [OF assms])
  show ?thesis using Some i ex st owners_refl [of _ d]
    by (auto simp: begin_attempt_def start_delivery_def Let_def split: option.split)
qed

lemma owners_reserve: "owners_from X d (snd (reserve_upload h cfg now i q d))"
proof -
  have c: "owners_from X e (snd (create_job cfg now i q e))" for e
    by (auto simp: create_job_def Let_def owners_from_def new_job_def)
  have r: "owners_from X e (snd (reserve_row cfg now i q e))" for e
    using c [of e] by (auto simp: reserve_row_def owners_refl split: option.split prod.split sum.split)
  define d1 where "d1 = (if rq_request_id q = [] then d
      else d\<lparr>upload_locks := h (rq_request_id q) # upload_locks d\<rparr>)"
  have "jobs d1 = jobs d" by (simp add: d1_def)
  then have r1: "owners_from X d (snd (reserve_row cfg now i q d1))"
    using r [of d1] by (simp add: owners_from_def)
  then have "owners_from X d (release_upload h rid (snd (reserve_row cfg now i q d1)))" for rid
    by (rule owners_frame) (simp add: release_upload_def)
  with r1 show ?thesis
    by (auto simp: reserve_upload_def Let_def d1_def [symmetric] owners_refl split: prod.split sum.split)
qed

lemma owners_call:
  assumes "list_all canonical_uuid (call_uuids d k)"
  shows "\<exists>i. owners_from ({i} \<times> set (call_uuids d k)) d (apply_call h cfg c k d)"
proof (cases k)
  case (CReserve u q)
  then show ?thesis using owners_reserve by simp
next
  case (CRelease rid)
  then show ?thesis by (intro exI owners_frame [OF owners_refl]) (simp add: release_upload_def)
next
  case (CDownloading i)
  then show ?thesis
    by (simp add: mark_downloading_def update_status_def)
      (rule owners_update; simp add: status_row_def)
next
  case (CInterrupted i)
  then show ?thesis
    by (simp add: mark_upload_interrupted_def sql_upload_interrupted_def)
      (rule owners_quiet; simp add: interrupted_row_def)
next
  case (CQueued m i)
  have "owners_from X d (update_jobs now (upload_sel i) (queued_row now) d)" for X now
    by (rule owners_update) (simp_all add: queued_row_def)
  with CQueued show ?thesis
    by (auto simp: mark_queued_def Let_def intro!: owners_enqueue split: list.split)
next
  case (CAcknowledge i)
  then show ?thesis
    by (simp add: acknowledge_job_def sql_ack_def) (rule owners_quiet; simp add: ack_row_def)
next
  case (CPublish lk publish)
  then show ?thesis
    by (intro exI owners_frame [OF owners_refl])
      (simp add: publish_next_def sql_outbox_published_def split: option.split)
next
  case (CRegister w inst)
  then show ?thesis
    by (intro exI owners_frame [OF owners_refl])
      (simp add: register_consumer_def sql_broker_admit_def Let_def
        split: option.split prod.split bool.split)
next
  case (CBegin u w inst i m delivery)
  then show ?thesis using owners_begin [of u i d cfg c w inst m delivery] assms by auto
next
  case (CCancel i)
  then show ?thesis by (simp add: cancel_job_def) (rule owners_update; simp add: cancel_row_def)
next
  case (CReport w inst ready)
  then show ?thesis
    by (intro exI owners_frame [OF owners_refl])
      (simp add: report_availability_def sql_report_availability_def sql_cleanup_availability_def
        Let_def)
next
  case (CClaim lk u w fallback inst)
  then show ?thesis using owners_claim assms by auto
next
  case (CHeartbeat i owner prog)
  then show ?thesis
    by (simp add: heartbeat_def sql_heartbeat_def) (rule owners_quiet; simp add: heartbeat_row_def)
next
  case (CComplete i owner result segs path)
  then show ?thesis
    by (simp add: complete_job_def sql_complete_def) (rule owners_update; simp add: complete_row_def)
next
  case (CFail m i owner e retryable)
  have "owners_from X d (sql_fail now retryable e i owner d)" for X now
    unfolding sql_fail_def by (rule owners_update) (simp_all add: fail_row_def Let_def)
  with CFail show ?thesis
    by (auto simp: fail_job_def Let_def intro!: owners_enqueue split: option.split)
next
  case (CCleanup ttl)
  have "owners_from X d (d'\<lparr>jobs := filter P (jobs d'), outbox := ob\<rparr>)" if "owners_from X d d'" for X d' P ob
    using that by (auto simp: owners_from_def)
  with CCleanup owners_reap show ?thesis
    by (simp add: cleanup_expired_jobs_def sql_cleanup_def Let_def)
next
  case (CReconcile gen gen')
  have "owners_from X d (init_schema cfg [] gen d)" for X
    by (simp add: init_schema_def owners_seed owners_refl)
  then have "owners_from X d (sql_broker_reconcile clk (init_schema cfg [] gen d))" for X clk
    by (rule owners_trans) (simp add: sql_broker_reconcile_def, rule owners_quiet; simp add: dispatch_row_def)
  then have "owners_from X d (sql_broker_seed gen' (sql_broker_reconcile clk (init_schema cfg [] gen d)))" for X clk
    by (rule owners_trans) (rule owners_seed)
  with CReconcile show ?thesis by (simp add: reconcile_main_def owners_refl)
qed

section \<open>Tokens stay unique\<close>

definition fence_ok :: "sys \<Rightarrow> bool" where
  "fence_ok s \<longleftrightarrow>
     (\<forall>r \<in> set (jobs (sdb s)). lease_owner r \<noteq> [] \<longrightarrow> path_name (lease_owner r) \<in> set (sused s)) \<and>
     (\<forall>r \<in> set (jobs (sdb s)). \<forall>q \<in> set (jobs (sdb s)).
        lease_owner r = lease_owner q \<and> lease_owner r \<noteq> [] \<longrightarrow> job_id r = job_id q)"

text \<open>A token whose attempt is over.\<close>

definition spent :: "sys \<Rightarrow> string \<Rightarrow> bool" where
  "spent s owner \<longleftrightarrow> owner \<noteq> [] \<and> path_name owner \<in> set (sused s) \<and>
     (\<forall>r \<in> set (jobs (sdb s)). lease_owner r \<noteq> owner)"

lemma store_step_owners:
  assumes "store_step h cfg s t"
  shows "\<exists>i us. owners_from ({i} \<times> set us) (sdb s) (sdb t) \<and> set us \<inter> set (sused s) = {} \<and>
    set (sused t) = set us \<union> set (sused s)"
  using assms
proof (cases rule: store_step.cases)
  case (call c k)
  then have "list_all canonical_uuid (call_uuids (sdb s) k)" by (simp add: fresh_uuids_def)
  from owners_call [OF this] obtain i where
    "owners_from ({i} \<times> set (call_uuids (sdb s) k)) (sdb s) (apply_call h cfg c k (sdb s))" by blast
  moreover have "set (call_uuids (sdb s) k) \<inter> set (sused s) = {}"
    using call by (auto simp: fresh_uuids_def list_all_iff)
  ultimately show ?thesis using call(1)
    by (intro exI [of _ i] exI [of _ "call_uuids (sdb s) k"]) simp
next
  case (tick t')
  then show ?thesis by (intro exI [of _ undefined] exI [of _ "[]"]) (simp add: owners_refl)
qed

lemma fence_ok_step:
  assumes "store_step h cfg s t" and "fence_ok s"
  shows "fence_ok t"
proof -
  obtain i us where o: "owners_from ({i} \<times> set us) (sdb s) (sdb t)"
    and us: "set us \<inter> set (sused s) = {}" "set (sused t) = set us \<union> set (sused s)"
    using store_step_owners [OF assms(1)] by blast
  have src: "(\<exists>q \<in> set (jobs (sdb s)). job_id q = job_id r \<and> lease_owner q = lease_owner r) \<or>
      (job_id r = i \<and> path_name (lease_owner r) \<in> set us)"
    if "r \<in> set (jobs (sdb t))" "lease_owner r \<noteq> []" for r
    using o that unfolding owners_from_def by blast
  have old: "path_name (lease_owner q) \<in> set (sused s)"
    if "q \<in> set (jobs (sdb s))" "lease_owner q \<noteq> []" for q
    using assms(2) that by (simp add: fence_ok_def)
  have "path_name (lease_owner r) \<in> set (sused t)"
    if "r \<in> set (jobs (sdb t))" "lease_owner r \<noteq> []" for r
    using src [OF that] old us(2) that(2) by force
  moreover have "job_id r = job_id q"
    if "r \<in> set (jobs (sdb t))" "q \<in> set (jobs (sdb t))"
      "lease_owner r = lease_owner q" "lease_owner r \<noteq> []" for r q
  proof -
    have q: "lease_owner q \<noteq> []" using that by simp
    from src [OF that(1,4)] show ?thesis
    proof
      assume "\<exists>q' \<in> set (jobs (sdb s)). job_id q' = job_id r \<and> lease_owner q' = lease_owner r"
      then obtain r' where r': "r' \<in> set (jobs (sdb s))" "job_id r' = job_id r"
        "lease_owner r' = lease_owner r" by blast
      then have "path_name (lease_owner q) \<notin> set us" using old [of r'] that us(1) by auto
      with src [OF that(2) q] obtain q' where "q' \<in> set (jobs (sdb s))" "job_id q' = job_id q"
        "lease_owner q' = lease_owner q" by blast
      with r' assms(2) that(3,4) show ?thesis unfolding fence_ok_def by metis
    next
      assume r: "job_id r = i \<and> path_name (lease_owner r) \<in> set us"
      then have "path_name (lease_owner q) \<notin> set (sused s)" using that(3) us(1) by auto
      with src [OF that(2) q] old have "job_id q = i" using q by force
      with r show ?thesis by simp
    qed
  qed
  ultimately show ?thesis unfolding fence_ok_def by blast
qed

interpretation fence_sys: transition_invariant "\<lambda>s. s = init_sys" "store_step h cfg" fence_ok
  by unfold_locales (simp add: init_sys_def empty_db_def fence_ok_def, rule fence_ok_step)

lemma spent_step:
  assumes "store_step h cfg s t" and "spent s owner"
  shows "spent t owner"
proof -
  obtain i us where o: "owners_from ({i} \<times> set us) (sdb s) (sdb t)"
    and us: "set us \<inter> set (sused s) = {}" "set (sused t) = set us \<union> set (sused s)"
    using store_step_owners [OF assms(1)] by blast
  have "lease_owner r \<noteq> owner" if "r \<in> set (jobs (sdb t))" for r
  proof
    assume r: "lease_owner r = owner"
    with o that assms(2) us(1) show False unfolding owners_from_def spent_def by blast
  qed
  with assms(2) us(2) show ?thesis by (simp add: spent_def)
qed

interpretation spent_sys: transition_invariant "\<lambda>_. False" "store_step h cfg" "\<lambda>s. spent s owner"
  by unfold_locales (auto intro: spent_step)

text \<open>A job whose token changed, or which is gone, leaves its old token spent.\<close>

lemma spent_when_replaced:
  assumes "(store_step h cfg)\<^sup>*\<^sup>* s t" and "fence_ok s" and "sys_ok s" and "0 < default_max_attempts cfg"
    and "job_by_id i (sdb s) = Some r" and "lease_owner r \<noteq> []"
    and "\<And>r'. job_by_id i (sdb t) = Some r' \<Longrightarrow> lease_owner r' \<noteq> lease_owner r"
  shows "spent t (lease_owner r)"
proof -
  have "(\<forall>q \<in> set (jobs (sdb t)). lease_owner q = lease_owner r \<longrightarrow> job_id q = i) \<and>
      path_name (lease_owner r) \<in> set (sused t)"
    using assms(1)
  proof (induction rule: rtranclp_induct)
    case base
    from job_by_id_Some [OF assms(5)] assms(2,6) show ?case unfolding fence_ok_def by metis
  next
    case (step t v)
    obtain j us where o: "owners_from ({j} \<times> set us) (sdb t) (sdb v)"
      and us: "set us \<inter> set (sused t) = {}" "set (sused v) = set us \<union> set (sused t)"
      using store_step_owners [OF step.hyps(2)] by blast
    have "job_id q = i" if "q \<in> set (jobs (sdb v))" "lease_owner q = lease_owner r" for q
    proof -
      have q: "q \<in> set (jobs (sdb v))" "lease_owner q = lease_owner r" by (fact that)+
      have "path_name (lease_owner q) \<notin> set us" using step.IH us(1) q(2) by auto
      then obtain q' where "q' \<in> set (jobs (sdb t))" "job_id q' = job_id q" "lease_owner q' = lease_owner r"
        using o q assms(6) unfolding owners_from_def by force
      with step.IH show ?thesis by metis
    qed
    with step.IH us(2) show ?case by blast
  qed
  note inv = this
  have ok: "sys_ok t" using steps_sys_ok [OF assms(1,4,3)] .
  have "lease_owner q \<noteq> lease_owner r" if "q \<in> set (jobs (sdb t))" for q
  proof
    assume q: "lease_owner q = lease_owner r"
    with inv that have "job_id q = i" by blast
    with job_by_id_mem [OF tables_okD(1) that] ok have "job_by_id i (sdb t) = Some q"
      by (auto simp: sys_ok_def)
    with assms(7) q show False by blast
  qed
  with inv assms(6) show ?thesis by (simp add: spent_def)
qed

text \<open>What a spent token can do: nothing.\<close>

lemma update_jobs_none:
  assumes "\<And>r. r \<in> set (jobs d) \<Longrightarrow> \<not> P r"
  shows "update_jobs now P f d = d" and "update_jobs_quiet P f d = d" and "\<not> one_row P d"
proof -
  have "trigger_rows now P f rs obs = obs" if "\<And>r. r \<in> set rs \<Longrightarrow> \<not> P r" for rs obs
    using that by (induction rs arbitrary: obs) auto
  then show "update_jobs now P f d = d" using assms by (simp add: update_jobs_def update_where_id)
  show "update_jobs_quiet P f d = d" using assms by (simp add: update_jobs_quiet_def update_where_id)
  have "select_jobs P d = []" using assms by (simp add: select_jobs_def filter_empty_conv)
  then show "\<not> one_row P d" by (simp add: one_row_def)
qed

lemma no_owner_rejected:
  assumes "owner \<noteq> []" and "\<And>r. r \<in> set (jobs d) \<Longrightarrow> lease_owner r \<noteq> owner"
  shows "heartbeat cfg c i owner p d = (False, d)"
    and "complete_job now i owner res segs path d = (False, d)"
    and "fail_job cfg c m i owner e retryable d = (False, d)"
    and "get_owned_job now i owner d = None"
proof -
  have n: "\<not> heartbeat_sel i owner t r" "\<not> owned_sel i owner t r" "\<not> fail_sel i owner t r"
    if "r \<in> set (jobs d)" for r t
    using assms that by (auto simp: row_simps)
  show "heartbeat cfg c i owner p d = (False, d)"
    using n(1) by (simp add: heartbeat_def sql_heartbeat_def update_jobs_none)
  show "complete_job now i owner res segs path d = (False, d)"
    using n(2) by (simp add: complete_job_def sql_complete_def update_jobs_none)
  show "fail_job cfg c m i owner e retryable d = (False, d)"
    using n(3) by (simp add: fail_job_def sql_fail_def Let_def update_jobs_none)
  show "get_owned_job now i owner d = None"
    using n(2) by (auto simp: get_owned_job_def sql_owned_def find_by_None)
qed

end
