(* ===== verification/Scenario.thy ===== *)
theory Scenario
  imports Fencing
begin

text \<open>
  Concrete runs of the store, for the witnesses of properties that speak of reachable states:
  \<open>run_calls\<close> applies a list of calls, and \<open>run_ok\<close> checks that each is a step.
\<close>

section \<open>Executing calls\<close>

fun run_calls :: "(string \<Rightarrow> int) \<Rightarrow> store_config \<Rightarrow> sys \<Rightarrow> (clock \<times> store_call) list \<Rightarrow> sys" where
  "run_calls h cfg s [] = s"
| "run_calls h cfg s ((c, k) # ks) = run_calls h cfg
     \<lparr>sdb = apply_call h cfg c k (sdb s), sclock = reading c 2, sused = call_uuids (sdb s) k @ sused s\<rparr> ks"

fun run_ok :: "(string \<Rightarrow> int) \<Rightarrow> store_config \<Rightarrow> sys \<Rightarrow> (clock \<times> store_call) list \<Rightarrow> bool" where
  "run_ok h cfg s [] = True"
| "run_ok h cfg s ((c, k) # ks) = (clock_ok c (sclock s) \<and> fresh_uuids (call_uuids (sdb s) k) (sused s) \<and>
     run_ok h cfg
       \<lparr>sdb = apply_call h cfg c k (sdb s), sclock = reading c 2, sused = call_uuids (sdb s) k @ sused s\<rparr> ks)"

lemma run_calls_append: "run_calls h cfg s (ks @ ls) = run_calls h cfg (run_calls h cfg s ks) ls"
  by (induction ks arbitrary: s rule: list.induct) auto

lemma run_calls_steps:
  "run_ok h cfg s ks \<Longrightarrow> (store_step h cfg)\<^sup>*\<^sup>* s (run_calls h cfg s ks)"
proof (induction ks arbitrary: s)
  case (Cons ck ks)
  obtain c k where ck: "ck = (c, k)" by fastforce
  with Cons.prems have "store_step h cfg s
      \<lparr>sdb = apply_call h cfg c k (sdb s), sclock = reading c 2, sused = call_uuids (sdb s) k @ sused s\<rparr>"
    by (intro store_step.call) auto
  with Cons ck show ?case by (auto intro: converse_rtranclp_into_rtranclp)
qed simp

section \<open>Configurations and identifiers\<close>

definition at_time :: "time \<Rightarrow> clock" where
  "at_time t = \<lparr>tx_now = t, reading = \<lambda>_. t\<rparr>"

definition demo_cfg :: "backend \<Rightarrow> store_config" where
  "demo_cfg b = \<lparr>lease_seconds = 900, default_max_attempts = 3,
     worker_policies = [(''gpu'', \<lparr>priority = 10, max_concurrency = 1\<rparr>),
       (''cpu'', \<lparr>priority = 20, max_concurrency = 2\<rparr>)],
     queue_backend = b, demand_ttl_seconds = 10, preferred_workers = [],
     availability_ttl_seconds = 90, storage_root = ''/data/jobs''\<rparr>"

definition demo_hash :: "string \<Rightarrow> int" where
  "demo_hash s = int (length s)"

definition demo_uuid :: "char \<Rightarrow> string" where
  "demo_uuid c = ''00000000-0000-4000-8000-00000000000'' @ [c]"

definition demo_request :: "string \<Rightarrow> upload_request" where
  "demo_request rid = \<lparr>rq_request_id = rid, rq_retain = True, rq_format = ''mp3'',
     rq_preset = ''balanced'', rq_language = [], rq_prompt = [], rq_traceparent = [],
     rq_tracestate = []\<rparr>"

text \<open>One job, uploaded, queued, and claimed by a worker that had reported.\<close>

definition claimed_run :: "(clock \<times> store_call) list" where
  "claimed_run = [
     (at_time 0, CReserve (demo_uuid CHR ''1'') (demo_request [])),
     (at_time 1, CQueued (demo_uuid CHR ''2'') (demo_uuid CHR ''1'')),
     (at_time 2, CReport ''gpu'' ''slot-1'' True),
     (at_time 3, CClaim (\<lambda>_. False) (demo_uuid CHR ''3'') ''gpu'' False ''slot-1'')]"

lemmas demo_defs = at_time_def demo_cfg_def demo_hash_def demo_uuid_def demo_request_def
  claimed_run_def

lemma claimed_run_ok: "run_ok demo_hash (demo_cfg Postgres) init_sys claimed_run"
  by code_simp

end
