(* ===== verification/Capacity.thy ===== *)
theory Capacity
  imports Scenario
begin

text \<open>
  Pool capacity. With worker policies, in SQL mode and in broker mode alike, a pool never has
  more running jobs under an unexpired lease than its policy allows, and a slot never has two.
\<close>

section \<open>Counting live jobs\<close>

text \<open>The jobs live at \<open>t\<close> whose worker and instance satisfy \<open>A\<close>.\<close>

definition live_slots :: "(string \<Rightarrow> string \<Rightarrow> bool) \<Rightarrow> time \<Rightarrow> db \<Rightarrow> nat" where
  "live_slots A t d =
     count_where (\<lambda>r. live t r \<and> A (assigned_worker_id r) (assigned_instance_id r)) (jobs d)"

definition calm :: "time \<Rightarrow> db \<Rightarrow> time \<Rightarrow> db \<Rightarrow> bool" where
  "calm t d t' d' \<longleftrightarrow> (\<forall>A. live_slots A t' d' \<le> live_slots A t d)"

lemma calm_refl: "t \<le> t' \<Longrightarrow> calm t d t' d"
  unfolding calm_def live_slots_def by (intro allI count_where_mono) (metis live_antimono)

lemma calm_trans: "calm t d t' d' \<Longrightarrow> calm t' d' t'' d'' \<Longrightarrow> calm t d t'' d''"
  unfolding calm_def by (meson le_trans)

lemma calm_frame: "calm t d t' d' \<Longrightarrow> jobs e = jobs d' \<Longrightarrow> calm t d t' e"
  by (simp add: calm_def live_slots_def)

lemma calm_later: "calm t d t' d' \<Longrightarrow> t' \<le> t'' \<Longrightarrow> calm t d t'' d'"
  by (rule calm_trans [OF _ calm_refl])

lemma count_update_mono:
  assumes "\<And>r. r \<in> set rs \<Longrightarrow> P r \<Longrightarrow> Q' (f r) \<Longrightarrow> Q r"
    and "\<And>r. r \<in> set rs \<Longrightarrow> \<not> P r \<Longrightarrow> Q' r \<Longrightarrow> Q r"
  shows "count_where Q' (update_where P f rs) \<le> count_where Q rs"
  using assms
proof (induction rs)
  case (Cons r rs)
  then have "count_where Q' (update_where P f rs) \<le> count_where Q rs" by simp
  moreover have "Q' (if P r then f r else r) \<Longrightarrow> Q r" using Cons.prems [of r] by (simp split: if_splits)
  ultimately show ?case by (auto split: if_splits)
qed simp

text \<open>An update that makes no row live, and moves no live row to another slot.\<close>

lemma calm_update:
  assumes "t \<le> t'"
    and "\<And>r. P r \<Longrightarrow> live t' (f r) \<Longrightarrow> live t r \<and> assigned_worker_id (f r) = assigned_worker_id r \<and>
      assigned_instance_id (f r) = assigned_instance_id r"
  shows "calm t d t' (update_jobs now P f d)" and "calm t d t' (update_jobs_quiet P f d)"
proof -
  have N: "live t r" if "live t' r" for r using live_antimono [OF that assms(1)] .
  have le: "live_slots A t' (update_jobs now P f d) \<le> live_slots A t d \<and>
      live_slots A t' (update_jobs_quiet P f d) \<le> live_slots A t d" for A
  proof -
    have "live t r \<and> A (assigned_worker_id r) (assigned_instance_id r)"
      if "P r" "live t' (f r)" "A (assigned_worker_id (f r)) (assigned_instance_id (f r))" for r
      using assms(2) [OF that(1,2)] that(3) by simp
    then show ?thesis unfolding live_slots_def update_jobs_sel update_jobs_quiet_sel
      by (intro conjI count_update_mono) (simp_all add: N)
  qed
  then show "calm t d t' (update_jobs now P f d)" "calm t d t' (update_jobs_quiet P f d)"
    unfolding calm_def by blast+
qed

lemma calm_not_running:
  assumes "t \<le> t'" and "\<And>r. P r \<Longrightarrow> status (f r) \<noteq> Running"
  shows "calm t d t' (update_jobs now P f d)" and "calm t d t' (update_jobs_quiet P f d)"
  by (rule calm_update [OF assms(1)]; simp add: assms(2) live_def)+

lemma calm_unmoved:
  assumes "t \<le> t'"
    and "\<And>r. status (f r) = status r \<and> lease_expires_at (f r) = lease_expires_at r \<and>
      assigned_worker_id (f r) = assigned_worker_id r \<and> assigned_instance_id (f r) = assigned_instance_id r"
  shows "calm t d t' (update_jobs_quiet P f d)"
proof (rule calm_update(2) [OF assms(1)])
  fix r
  assume "live t' (f r)"
  then have "live t' r" using assms(2) by (simp add: live_def)
  with live_antimono [OF this assms(1)] assms(2) show "live t r \<and>
      assigned_worker_id (f r) = assigned_worker_id r \<and> assigned_instance_id (f r) = assigned_instance_id r"
    by simp
qed

section \<open>Calls that start nothing\<close>

lemma calm_enqueue: "calm t d t' d' \<Longrightarrow> calm t d t' (enqueue clk m i delay d')"
  by (rule calm_trans [OF _ calm_frame [OF calm_unmoved [of t' t' "dispatch_row m"]]])
    (simp_all add: enqueue_def sql_outbox_insert_def sql_dispatch_def dispatch_row_def)

lemma calm_seed: "t \<le> t' \<Longrightarrow> calm t d t' (sql_broker_seed gen d)"
  by (rule calm_frame [OF calm_unmoved [of t t' "seed_row gen"]])
    (simp_all add: seed_row_def sql_broker_seed_def)

lemma calm_reap: "t \<le> t' \<Longrightarrow> calm t d t' (sql_reap now d)"
  unfolding sql_reap_def by (rule calm_not_running) (simp_all add: exhausted_row_def)

lemma calm_exhausted: "t \<le> t' \<Longrightarrow> calm t d t' (sql_broker_exhausted now i d)"
  unfolding sql_broker_exhausted_def by (rule calm_not_running) (simp_all add: exhausted_row_def)

lemma calm_delete:
  assumes "calm t d t' d'"
  shows "calm t d t' (d'\<lparr>jobs := filter P (jobs d'), outbox := ob\<rparr>)"
  unfolding calm_def
proof
  fix A
  have "live_slots A t' (d'\<lparr>jobs := filter P (jobs d'), outbox := ob\<rparr>) \<le> live_slots A t' d'"
    by (simp add: live_slots_def count_where_filter) (rule count_where_mono, simp)
  with assms show "live_slots A t' (d'\<lparr>jobs := filter P (jobs d'), outbox := ob\<rparr>) \<le> live_slots A t d"
    unfolding calm_def by (meson le_trans)
qed

lemma calm_create: "t \<le> t' \<Longrightarrow> calm t d t' (snd (create_job cfg now i q d))"
  using calm_refl [of t t' d]
  by (simp add: create_job_def Let_def calm_def live_slots_def new_job_def live_def)

lemma calm_reserve:
  assumes "t \<le> t'"
  shows "calm t d t' (snd (reserve_upload h cfg now i q d))"
proof -
  have row: "calm t e t' (snd (reserve_row cfg now i q e))" for e
    using calm_create [OF assms, of e cfg now i q] calm_refl [OF assms]
    by (auto simp: reserve_row_def split: option.split prod.split sum.split)
  define d1 where "d1 = (if rq_request_id q = [] then d
      else d\<lparr>upload_locks := h (rq_request_id q) # upload_locks d\<rparr>)"
  have "jobs d1 = jobs d" by (simp add: d1_def)
  then have r1: "calm t d t' (snd (reserve_row cfg now i q d1))"
    using row [of d1] by (simp add: calm_def live_slots_def)
  then have "calm t d t' (release_upload h rid (snd (reserve_row cfg now i q d1)))" for rid
    by (rule calm_frame) (simp add: release_upload_def)
  with r1 show ?thesis using calm_refl [OF assms]
    by (auto simp: reserve_upload_def Let_def d1_def [symmetric] split: prod.split sum.split)
qed

fun starts_jobs :: "store_call \<Rightarrow> bool" where
  "starts_jobs (CBegin u w inst i m delivery) = True"
| "starts_jobs (CClaim lk u w fallback inst) = True"
| "starts_jobs _ = False"

lemma calm_call:
  assumes "\<not> starts_jobs k" and "clock_ok c t"
  shows "calm t d (reading c 2) (apply_call h cfg c k d)"
proof -
  have le: "t \<le> reading c 2" "t \<le> reading c 0" "reading c 0 \<le> reading c 2"
    using assms(2) by (simp_all add: clock_ok_def)
  have frame: "calm t d (reading c 2) e" if "jobs e = jobs d" for e
    by (rule calm_frame [OF calm_refl [OF le(1)] that])
  show ?thesis
  proof (cases k)
    case (CReserve u q)
    then show ?thesis using calm_reserve [OF le(1)] by simp
  next
    case (CDownloading i)
    then show ?thesis by (simp add: mark_downloading_def update_status_def)
      (rule calm_not_running [OF le(1)]; simp add: status_row_def)
  next
    case (CInterrupted i)
    then show ?thesis by (simp add: mark_upload_interrupted_def sql_upload_interrupted_def)
      (rule calm_unmoved [OF le(1)]; simp add: interrupted_row_def)
  next
    case (CQueued m i)
    have "calm t d (reading c 2) (update_jobs (tx_now c) (upload_sel i) (queued_row (tx_now c)) d)"
      by (rule calm_not_running [OF le(1)]) (simp add: queued_row_def)
    with CQueued show ?thesis
      by (auto simp: mark_queued_def Let_def intro!: calm_enqueue split: list.split)
  next
    case (CAcknowledge i)
    then show ?thesis by (simp add: acknowledge_job_def sql_ack_def)
      (rule calm_unmoved [OF le(1)]; simp add: ack_row_def)
  next
    case (CPublish lk publish)
    show ?thesis by (rule frame)
      (simp add: CPublish publish_next_def sql_outbox_published_def split: option.split)
  next
    case (CRegister w inst)
    show ?thesis by (rule frame) (simp add: CRegister register_consumer_def sql_broker_admit_def Let_def
        split: option.split prod.split bool.split)
  next
    case (CCancel i)
    then show ?thesis by (simp add: cancel_job_def)
      (rule calm_not_running [OF le(1)]; simp add: cancel_row_def)
  next
    case (CHeartbeat i owner prog)
    have "calm t d (reading c 2) (sql_heartbeat (tx_now c) (reading c 0) (lease_seconds cfg) prog i owner d)"
      unfolding sql_heartbeat_def using live_antimono [OF _ le(2)]
      by (intro calm_update [OF le(1)]) (auto simp: heartbeat_sel_def heartbeat_row_def)
    with CHeartbeat show ?thesis by (simp add: heartbeat_def)
  next
    case (CComplete i owner res segs path)
    then show ?thesis by (simp add: complete_job_def sql_complete_def)
      (rule calm_not_running [OF le(1)]; simp add: complete_row_def)
  next
    case (CFail m i owner e retryable)
    have "calm t d (reading c 2) (sql_fail (tx_now c) retryable e i owner d)"
      unfolding sql_fail_def by (rule calm_not_running [OF le(1)]) (simp add: fail_row_def Let_def)
    with CFail show ?thesis
      by (auto simp: fail_job_def Let_def intro!: calm_enqueue split: option.split)
  next
    case (CCleanup ttl)
    then show ?thesis using calm_delete [OF calm_reap [OF le(1)]]
      by (simp add: cleanup_expired_jobs_def sql_cleanup_def Let_def)
  next
    case (CReconcile gen gen')
    have "calm t d (reading c 2) (init_schema cfg [] gen d)"
      by (simp add: init_schema_def calm_seed le calm_refl)
    moreover have "calm (reading c 2) e (reading c 2) (sql_broker_reconcile clk e)" for e clk
      unfolding sql_broker_reconcile_def by (rule calm_unmoved) (simp_all add: dispatch_row_def)
    ultimately have "calm t d (reading c 2) (sql_broker_seed gen' (sql_broker_reconcile clk (init_schema cfg [] gen d)))"
      for clk using calm_trans [OF calm_trans] calm_seed [OF order_refl] by blast
    with CReconcile frame show ?thesis by (simp add: reconcile_main_def)
  qed (use assms(1) frame in \<open>simp_all add: release_upload_def report_availability_def
      sql_report_availability_def sql_cleanup_availability_def Let_def\<close>)
qed

section \<open>Calls that start a job\<close>

lemma live_slots_start:
  assumes "distinct (map job_id (jobs d))"
    and "\<And>r. assigned_worker_id (f r) = w \<and> assigned_instance_id (f r) = inst"
  shows "live_slots A t (update_jobs now (by_id i) f d) \<le>
    live_slots A t d + (if A w inst then 1 else 0)"
proof (cases "A w inst")
  case True
  have "by_id i = (\<lambda>r. job_id r = i)" by (simp add: by_id_def fun_eq_iff)
  with True count_update_key [OF assms(1)] show ?thesis by (simp add: live_slots_def)
next
  case False
  then show ?thesis using assms(2) unfolding live_slots_def update_jobs_sel
    by (simp, intro count_update_mono) auto
qed

definition pool_cap :: "store_config \<Rightarrow> string \<Rightarrow> int" where
  "pool_cap cfg w = (case map_of (worker_policies cfg) w of None \<Rightarrow> 0 | Some p \<Rightarrow> max_concurrency p)"

text \<open>What the selection and the delivery checked before they let a job start in a slot.\<close>

definition slot_free :: "store_config \<Rightarrow> time \<Rightarrow> string \<Rightarrow> string \<Rightarrow> db \<Rightarrow> bool" where
  "slot_free cfg t w inst d \<longleftrightarrow> int (live_slots (\<lambda>x y. x = w) t d) < pool_cap cfg w \<and>
     live_slots (\<lambda>x y. x = w \<and> y = inst) t d = 0"

text \<open>A start is calm, or it fills one free slot.\<close>

definition fills :: "store_config \<Rightarrow> time \<Rightarrow> db \<Rightarrow> time \<Rightarrow> db \<Rightarrow> string \<Rightarrow> string \<Rightarrow> bool" where
  "fills cfg t d t' d' w inst \<longleftrightarrow> slot_free cfg t w inst d \<and>
     (\<forall>A. live_slots A t' d' \<le> live_slots A t d + (if A w inst then 1 else 0))"

lemma slot_free_iff:
  "slot_free cfg t w inst d \<longleftrightarrow> int (active_jobs t w d) < pool_cap cfg w \<and>
     \<not> exists_where (\<lambda>r. live t r \<and> assigned_worker_id r = w \<and> assigned_instance_id r = inst) (jobs d)"
  by (simp add: slot_free_def active_jobs_def live_slots_def exists_where_iff count_where_def
      filter_empty_conv)

lemma fills_start:
  assumes "tables_ok d" and "slot_free cfg t w inst d" and "t \<le> t'"
    and "\<And>r. assigned_worker_id (f r) = w \<and> assigned_instance_id (f r) = inst"
  shows "fills cfg t d t' (update_jobs now (by_id i) f d) w inst"
proof -
  have "live_slots A t' d \<le> live_slots A t d" for A
    using calm_refl [OF assms(3)] by (simp add: calm_def)
  with live_slots_start [OF tables_okD(1) [OF assms(1)] assms(4), of _ t' now i] assms(2) show ?thesis
    unfolding fills_def by (meson add_le_mono1 le_trans)
qed

lemma eligible_free: "eligible_slot (worker_policies cfg) t d a \<Longrightarrow>
  slot_free cfg t (av_worker_id a) (av_instance_id a) d"
  by (auto simp: eligible_slot_def slot_free_iff pool_cap_def slot_held_def exists_where_iff
      split: option.splits)

lemma select_worker_free:
  assumes "sql_select_worker (worker_policies cfg) t w inst d = Some a"
  shows "slot_free cfg t w inst d"
  using find_by_Some [OF assms [unfolded sql_select_worker_def Let_def]] eligible_free by auto

lemma claim_capacity:
  assumes "tables_ok d" and "worker_policies cfg \<noteq> []" and "clock_ok c t"
  shows "let d' = snd (claim_next_job cfg lk c u w fb inst d) in
    calm t d (reading c 2) d' \<or>
    (\<exists>e. calm t d (reading c 1) e \<and> fills cfg (reading c 1) e (reading c 2) d' w inst)"
proof -
  have le: "t \<le> reading c 1" "t \<le> reading c 2" "reading c 1 \<le> reading c 2"
    using assms(3) by (simp_all add: clock_ok_def)
  define d1 where "d1 = sql_reap (tx_now c) d"
  define d2 where "d2 = sql_request_work (reading c 0) (demand_ttl_seconds cfg) w inst d1"
  have js: "jobs d2 = jobs d1" by (simp add: d2_def sql_request_work_def)
  have ok: "tables_ok d2"
    unfolding d2_def d1_def by (rule keeps_ok [OF keeps_request_work [OF keeps_ok [OF keeps_reap]]])
      (rule assms(1))
  have c1: "calm t d (reading c 1) d2" "calm t d (reading c 2) d2"
    by (rule calm_frame [OF calm_reap [OF le(1)] js [unfolded d1_def]],
        rule calm_frame [OF calm_reap [OF le(2)] js [unfolded d1_def]])
  have res: "snd (claim_next_job cfg lk c u w fb inst d) =
      (if queue_backend cfg = Rabbitmq then d else
       case sql_select_worker (worker_policies cfg) (reading c 1) w inst d2 of None \<Rightarrow> d2
       | Some _ \<Rightarrow> snd (sql_claim_slot lk (tx_now c) (reading c 2) (new_lease w u) (lease_seconds cfg)
           w inst d2))"
    using assms(2) by (auto simp: claim_next_job_def claim_by_policy_def Let_def d1_def [symmetric]
        d2_def [symmetric] split: option.split prod.split)
  show ?thesis
  proof (cases "queue_backend cfg = Rabbitmq \<or>
      sql_select_worker (worker_policies cfg) (reading c 1) w inst d2 = None \<or>
      slot_candidate lk (reading c 2) d2 = None")
    case True
    then show ?thesis using c1 calm_refl [OF le(2)]
      by (auto simp: res Let_def sql_claim_slot_def start_candidate_def split: option.split)
  next
    case False
    then obtain a r where a: "sql_select_worker (worker_policies cfg) (reading c 1) w inst d2 = Some a"
      and r: "slot_candidate lk (reading c 2) d2 = Some r" by auto
    have "fills cfg (reading c 1) d2 (reading c 2)
        (update_jobs (tx_now c) (by_id (job_id r)) (claim_row (tx_now c) (reading c 2) (new_lease w u)
          (lease_seconds cfg) w inst) d2) w inst"
      by (rule fills_start [OF ok select_worker_free [OF a] le(3)]) (simp add: claim_row_def)
    with c1 False show ?thesis
      by (auto simp: res Let_def sql_claim_slot_def start_candidate_def a r)
  qed
qed

lemma begin_capacity:
  assumes "tables_ok d" and "clock_ok c t"
  shows "let d' = snd (begin_attempt cfg c u w inst i m delivery d) in
    calm t d (reading c 2) d' \<or>
    (\<exists>e. calm t d (reading c 1) e \<and> fills cfg (reading c 1) e (reading c 2) d' w inst)"
proof -
  have le: "t \<le> reading c 1" "t \<le> reading c 2" "reading c 1 \<le> reading c 2"
    using assms(2) by (simp_all add: clock_ok_def)
  have refl: "calm t d (reading c 2) d" "calm t d (reading c 1) d"
    using calm_refl le(1,2) by blast+
  show ?thesis
  proof (cases "job_by_id i d")
    case None
    then show ?thesis using refl by (simp add: begin_attempt_def)
  next
    case (Some r)
    have start: "fills cfg (reading c 1) d (reading c 2) (sql_broker_start (tx_now c) (reading c 2) owner
        (lease_seconds cfg) w inst delivery (job_id r) d) w inst"
      if p: "map_of (worker_policies cfg) w = Some p"
        and free: "\<not> cap_busy (sql_broker_capacity (reading c 1) w inst d)"
          "int (cap_active (sql_broker_capacity (reading c 1) w inst d)) < max_concurrency p" for p owner
      unfolding sql_broker_start_def
    proof (rule fills_start [OF assms(1) _ le(3)])
      show "slot_free cfg (reading c 1) w inst d"
        using p free by (simp add: slot_free_iff pool_cap_def sql_broker_capacity_def)
    qed (simp add: broker_start_row_def)
    show ?thesis
      using Some refl start calm_exhausted [OF le(2)]
      by (auto simp: begin_attempt_def start_delivery_def Let_def not_le split: option.split)
  qed
qed

section \<open>The invariant\<close>

definition within_capacity :: "store_config \<Rightarrow> time \<Rightarrow> db \<Rightarrow> bool" where
  "within_capacity cfg t d \<longleftrightarrow>
     (\<forall>w. int (live_slots (\<lambda>x y. x = w) t d) \<le> pool_cap cfg w) \<and>
     (\<forall>w inst. live_slots (\<lambda>x y. x = w \<and> y = inst) t d \<le> 1)"

lemma int_le_trans: "(m :: nat) \<le> n \<Longrightarrow> int n \<le> x \<Longrightarrow> int m \<le> x"
  by simp

lemma within_calm: "within_capacity cfg t d \<Longrightarrow> calm t d t' d' \<Longrightarrow> within_capacity cfg t' d'"
  unfolding within_capacity_def calm_def by (meson int_le_trans le_trans)

lemma within_fills:
  assumes "within_capacity cfg t d" and "fills cfg t d t' d' w inst"
  shows "within_capacity cfg t' d'"
proof -
  have le: "live_slots A t' d' \<le> live_slots A t d + (if A w inst then 1 else 0)" for A
    using assms(2) by (simp add: fills_def)
  have free: "int (live_slots (\<lambda>x y. x = w) t d) < pool_cap cfg w"
    "live_slots (\<lambda>x y. x = w \<and> y = inst) t d = 0"
    using assms(2) by (simp_all add: fills_def slot_free_def)
  have "int (live_slots (\<lambda>x y. x = v) t' d') \<le> pool_cap cfg v" for v
  proof (cases "v = w")
    case True
    with le [of "\<lambda>x y. x = v"] free(1) show ?thesis by simp
  next
    case False
    with le [of "\<lambda>x y. x = v"] have "live_slots (\<lambda>x y. x = v) t' d' \<le> live_slots (\<lambda>x y. x = v) t d" by simp
    with assms(1) show ?thesis unfolding within_capacity_def by (meson int_le_trans)
  qed
  moreover have "live_slots (\<lambda>x y. x = v \<and> y = n) t' d' \<le> 1" for v n
  proof (cases "v = w \<and> n = inst")
    case True
    with le [of "\<lambda>x y. x = v \<and> y = n"] free(2) show ?thesis by simp
  next
    case False
    with le [of "\<lambda>x y. x = v \<and> y = n"] have
      "live_slots (\<lambda>x y. x = v \<and> y = n) t' d' \<le> live_slots (\<lambda>x y. x = v \<and> y = n) t d" by auto
    with assms(1) show ?thesis unfolding within_capacity_def by (meson le_trans)
  qed
  ultimately show ?thesis by (simp add: within_capacity_def)
qed

definition capacity_inv :: "store_config \<Rightarrow> sys \<Rightarrow> bool" where
  "capacity_inv cfg s \<longleftrightarrow> sys_ok s \<and> within_capacity cfg (sclock s) (sdb s)"

lemma capacity_step:
  assumes "store_step h cfg s s'" and "0 < default_max_attempts cfg" and "worker_policies cfg \<noteq> []"
    and "capacity_inv cfg s"
  shows "capacity_inv cfg s'"
proof -
  have ok: "sys_ok s" "tables_ok (sdb s)" and cap: "within_capacity cfg (sclock s) (sdb s)"
    using assms(4) by (simp_all add: capacity_inv_def sys_ok_def)
  have "within_capacity cfg (sclock s') (sdb s')"
    using assms(1)
  proof (cases rule: store_step.cases)
    case (call c k)
    have "within_capacity cfg (reading c 2) (apply_call h cfg c k (sdb s))"
    proof (cases k)
      case (CBegin u w inst i m delivery)
      with begin_capacity [OF ok(2) call(2), of cfg u w inst i m delivery] show ?thesis
        by (auto simp: Let_def intro: within_calm [OF cap] within_fills [OF within_calm [OF cap]])
    next
      case (CClaim lk u w fallback inst)
      with claim_capacity [OF ok(2) assms(3) call(2), of lk u w fallback inst] show ?thesis
        by (auto simp: Let_def intro: within_calm [OF cap] within_fills [OF within_calm [OF cap]])
    qed (use within_calm [OF cap calm_call [OF _ call(2)], of k h cfg] in \<open>simp_all del: apply_call.simps\<close>)
    with call(1) show ?thesis by simp
  next
    case (tick t')
    with within_calm [OF cap calm_refl] show ?thesis by simp
  qed
  with store_step_keeps [OF assms(1,2) ok(1)] show ?thesis by (simp add: capacity_inv_def)
qed

text \<open>The invariant of a configuration the constructor accepts.\<close>

definition policies_ok :: "store_config \<Rightarrow> bool" where
  "policies_ok cfg \<longleftrightarrow> 0 < default_max_attempts cfg \<and> worker_policies cfg \<noteq> [] \<and>
     list_all (\<lambda>(w, p). 0 \<le> max_concurrency p) (worker_policies cfg)"

lemma pool_cap_nonneg: "policies_ok cfg \<Longrightarrow> 0 \<le> pool_cap cfg w"
  by (auto simp: policies_ok_def pool_cap_def list_all_iff split: option.split dest: map_of_SomeD)

lemma capacity_init: "policies_ok cfg \<Longrightarrow> capacity_inv cfg init_sys"
  using reachable_sys_ok [of undefined cfg init_sys]
  by (simp add: capacity_inv_def within_capacity_def live_slots_def pool_cap_nonneg)
    (simp add: init_sys_def empty_db_def policies_ok_def pool_cap_nonneg)

definition capacity_or :: "store_config \<Rightarrow> sys \<Rightarrow> bool" where
  "capacity_or cfg s \<longleftrightarrow> policies_ok cfg \<longrightarrow> capacity_inv cfg s"

interpretation capacity_sys: transition_invariant "\<lambda>s. s = init_sys" "store_step h cfg" "capacity_or cfg"
  by unfold_locales (auto simp: capacity_or_def policies_ok_def capacity_init intro: capacity_step)

lemma capacity_reachable:
  assumes "(store_step h cfg)\<^sup>*\<^sup>* init_sys s" and "policies_ok cfg" and "sclock s \<le> t"
  shows "int (active_jobs t w (sdb s)) \<le> pool_cap cfg w \<and>
    count_where (\<lambda>r. live t r \<and> assigned_worker_id r = w \<and> assigned_instance_id r = inst)
      (jobs (sdb s)) \<le> 1"
proof -
  have "capacity_inv cfg s"
    using capacity_sys.reachable_inv [OF refl assms(1)] assms(2) by (simp add: capacity_or_def)
  then have "within_capacity cfg t (sdb s)"
    by (auto simp: capacity_inv_def intro: within_calm calm_refl [OF assms(3)])
  then show ?thesis
    unfolding within_capacity_def live_slots_def active_jobs_def by blast
qed

text \<open>
  C3: no pool is overcommitted. With worker policies, in SQL mode and in broker mode, in every
  reachable state and at every later instant, the running jobs of a pool whose lease has not
  expired are at most the pool's \<open>max_concurrency\<close> (none for a pool without a policy), and a
  slot (worker and instance) runs at most one job.
\<close>

theorem pools_within_capacity:
  assumes "(store_step h cfg)\<^sup>*\<^sup>* init_sys s" and "policies_ok cfg" and "sclock s \<le> t"
  shows "int (active_jobs t w (sdb s)) \<le> pool_cap cfg w \<and>
    count_where (\<lambda>r. live t r \<and> assigned_worker_id r = w \<and> assigned_instance_id r = inst)
      (jobs (sdb s)) \<le> 1"
  by (rule capacity_reachable [OF assms])

text \<open>Two jobs queued, the first one claimed: the pool of capacity one is full.\<close>

definition full_run :: "(clock \<times> store_call) list" where
  "full_run = claimed_run @ [
     (at_time 4, CReserve (demo_uuid CHR ''5'') (demo_request [])),
     (at_time 5, CQueued (demo_uuid CHR ''6'') (demo_uuid CHR ''5'')),
     (at_time 6, CReport ''gpu'' ''slot-2'' True),
     (at_time 7, CClaim (\<lambda>_. False) (demo_uuid CHR ''7'') ''gpu'' False ''slot-2'')]"

definition full_sys :: sys where
  "full_sys = run_calls demo_hash (demo_cfg Postgres) init_sys full_run"

lemma full_sys_reachable: "(store_step demo_hash (demo_cfg Postgres))\<^sup>*\<^sup>* init_sys full_sys"
proof -
  have "run_ok demo_hash (demo_cfg Postgres) init_sys full_run" by code_simp
  then show ?thesis unfolding full_sys_def by (rule run_calls_steps)
qed

theorem pools_within_capacity_witness:
  "active_jobs 8 ''gpu'' (sdb full_sys) = 1 \<and> length (jobs (sdb full_sys)) = 2 \<and>
   int (active_jobs 8 ''gpu'' (sdb full_sys)) \<le> pool_cap (demo_cfg Postgres) ''gpu''"
proof -
  have e: "active_jobs 8 ''gpu'' (sdb full_sys) = 1 \<and> length (jobs (sdb full_sys)) = 2 \<and>
      sclock full_sys \<le> 8"
    by code_simp
  have "policies_ok (demo_cfg Postgres)" by code_simp
  with pools_within_capacity [OF full_sys_reachable this, of 8 "''gpu''"] e show ?thesis by blast
qed

end
