(* ===== verification/Guarantees.thy ===== *)
theory Guarantees
  imports Scenario
begin

text \<open>
  What the store guarantees to its clients, for every reachable state of \<open>StoreSystem\<close> and
  every operation of \<open>JobStore\<close>: the life of a job, the counters, fencing, claiming,
  uploading, retention and recovery.
\<close>

section \<open>Reachable states\<close>

text \<open>The state the demonstration run ends in, and its one job.\<close>

definition claimed_sys :: sys where
  "claimed_sys = run_calls demo_hash (demo_cfg Postgres) init_sys claimed_run"

lemma claimed_sys_reachable: "(store_step demo_hash (demo_cfg Postgres))\<^sup>*\<^sup>* init_sys claimed_sys"
  unfolding claimed_sys_def by (rule run_calls_steps) (rule claimed_run_ok)

definition completed_run :: "(clock \<times> store_call) list" where
  "completed_run = [(at_time 5, CComplete (demo_uuid CHR ''1'') (''gpu/'' @ demo_uuid CHR ''3'')
     ''hello'' [] ''/data/jobs/r.txt'')]"

definition completed_sys :: sys where
  "completed_sys = run_calls demo_hash (demo_cfg Postgres) claimed_sys completed_run"

lemma completed_sys_steps: "(store_step demo_hash (demo_cfg Postgres))\<^sup>*\<^sup>* claimed_sys completed_sys"
proof -
  have "run_ok demo_hash (demo_cfg Postgres) claimed_sys completed_run" by code_simp
  then show ?thesis unfolding completed_sys_def by (rule run_calls_steps)
qed

lemma demo_budget: "0 < default_max_attempts (demo_cfg b)"
  by (simp add: demo_cfg_def)

lemma job_in_table:
  assumes "sys_ok s" and "job_by_id i (sdb s) = Some r"
  shows "job_ok r"
  using assms job_by_id_Some [OF assms(2)] tables_okD(2) by (auto simp: sys_ok_def)

text \<open>
  C1: the queue implements the abstract job. Between any two reachable states a job keeps its
  identity (options, request id, input path, budget) and moves along the life
  uploading, queued, running, then done or failed, with retries only within its budget.
\<close>

theorem jobs_follow_lifecycle:
  assumes "(store_step h cfg)\<^sup>*\<^sup>* init_sys s" and "(store_step h cfg)\<^sup>*\<^sup>* s t"
    and "0 < default_max_attempts cfg"
    and "job_by_id i (sdb s) = Some r" and "job_by_id i (sdb t) = Some r'"
  shows "row_key r' = row_key r \<and>
    (lifecycle (max_attempts r))\<^sup>*\<^sup>* (status r, attempts r) (status r', attempts r')"
  using steps_evo [OF assms(2,3) reachable_sys_ok [OF assms(1,3)]] assms(4,5)
  by (auto simp: tables_evo_def row_evo_def)

theorem jobs_follow_lifecycle_witness:
  "\<exists>r r'. status r = Running \<and> status r' = Done \<and> row_key r' = row_key r \<and>
    (lifecycle 3)\<^sup>*\<^sup>* (Running, 1) (Done, 1)"
proof -
  have s: "map_option (\<lambda>r. (status r, attempts r, max_attempts r))
      (job_by_id (demo_uuid CHR ''1'') (sdb claimed_sys)) = Some (Running, 1, 3)"
    and t: "map_option (\<lambda>r. (status r, attempts r)) (job_by_id (demo_uuid CHR ''1'') (sdb completed_sys)) =
      Some (Done, 1)"
    by code_simp+
  from s t obtain r r' where "job_by_id (demo_uuid CHR ''1'') (sdb claimed_sys) = Some r"
    "job_by_id (demo_uuid CHR ''1'') (sdb completed_sys) = Some r'"
    "status r = Running" "attempts r = 1" "max_attempts r = 3" "status r' = Done" "attempts r' = 1"
    by auto
  with jobs_follow_lifecycle [OF claimed_sys_reachable completed_sys_steps demo_budget] show ?thesis
    by metis
qed

text \<open>
  C4: a finished job never changes its outcome. Its status, attempt count, transcript,
  segments, error, result path and end time stay as they were for as long as the row exists,
  and an acknowledgement once given stays.
\<close>

theorem finished_is_final:
  assumes "(store_step h cfg)\<^sup>*\<^sup>* init_sys s" and "(store_step h cfg)\<^sup>*\<^sup>* s t"
    and "0 < default_max_attempts cfg"
    and "job_by_id i (sdb s) = Some r" and "job_by_id i (sdb t) = Some r'"
    and "terminal (status r)"
  shows "row_outcome r' = row_outcome r \<and>
    (acknowledged_at r = None \<or> acknowledged_at r' = acknowledged_at r)"
  using steps_evo [OF assms(2,3) reachable_sys_ok [OF assms(1,3)]] assms(4,5,6)
  by (auto simp: tables_evo_def row_evo_def)

definition late_run :: "(clock \<times> store_call) list" where
  "late_run = [(at_time 6, CCancel (demo_uuid CHR ''1'')),
     (at_time 7, CFail (demo_uuid CHR ''4'') (demo_uuid CHR ''1'') (''gpu/'' @ demo_uuid CHR ''3'') ''late'' True),
     (at_time 8, CAcknowledge (demo_uuid CHR ''1''))]"

definition late_sys :: sys where
  "late_sys = run_calls demo_hash (demo_cfg Postgres) completed_sys late_run"

lemma late_sys_steps: "(store_step demo_hash (demo_cfg Postgres))\<^sup>*\<^sup>* completed_sys late_sys"
proof -
  have "run_ok demo_hash (demo_cfg Postgres) completed_sys late_run" by code_simp
  then show ?thesis unfolding late_sys_def by (rule run_calls_steps)
qed

lemma completed_sys_reachable: "(store_step demo_hash (demo_cfg Postgres))\<^sup>*\<^sup>* init_sys completed_sys"
  using claimed_sys_reachable completed_sys_steps by simp

theorem finished_is_final_witness:
  "\<exists>r r'. job_by_id (demo_uuid CHR ''1'') (sdb completed_sys) = Some r \<and>
    job_by_id (demo_uuid CHR ''1'') (sdb late_sys) = Some r' \<and> status r = Done \<and>
    row_outcome r' = row_outcome r"
proof -
  have s: "map_option status (job_by_id (demo_uuid CHR ''1'') (sdb completed_sys)) = Some Done"
    and t: "job_by_id (demo_uuid CHR ''1'') (sdb late_sys) \<noteq> None"
    by code_simp+
  then obtain r r' where r: "job_by_id (demo_uuid CHR ''1'') (sdb completed_sys) = Some r"
    "job_by_id (demo_uuid CHR ''1'') (sdb late_sys) = Some r'" "status r = Done" by auto
  with finished_is_final [OF completed_sys_reachable late_sys_steps demo_budget r(1,2)] show ?thesis
    by (simp add: terminal_def)
qed

text \<open>
  The cumulative counters account for every job. In every reachable state the number of
  submissions recorded is the number of completions, failures and cancellations recorded plus
  the jobs that are still open: no job is lost, and none ends twice.
\<close>

theorem counters_account_for_jobs:
  assumes "(store_step h cfg)\<^sup>*\<^sup>* init_sys s" and "0 < default_max_attempts cfg"
  shows "event_total ''submitted'' (observations (sdb s)) =
    event_total ''completed'' (observations (sdb s)) + event_total ''failed'' (observations (sdb s)) +
    event_total ''cancelled'' (observations (sdb s)) + int (open_jobs (jobs (sdb s)))"
  using reachable_sys_ok [OF assms] by (simp add: sys_ok_def balanced_def ended_total_def)

theorem counters_account_for_jobs_witness:
  "event_total ''submitted'' (observations (sdb completed_sys)) = 1 \<and>
   event_total ''completed'' (observations (sdb completed_sys)) = 1 \<and>
   event_total ''submitted'' (observations (sdb completed_sys)) =
    event_total ''completed'' (observations (sdb completed_sys)) +
    event_total ''failed'' (observations (sdb completed_sys)) +
    event_total ''cancelled'' (observations (sdb completed_sys)) +
    int (open_jobs (jobs (sdb completed_sys)))"
proof -
  have "event_total ''submitted'' (observations (sdb completed_sys)) = 1"
    and "event_total ''completed'' (observations (sdb completed_sys)) = 1" by code_simp+
  with counters_account_for_jobs [OF completed_sys_reachable demo_budget] show ?thesis by simp
qed

text \<open>
  C9: no reachable job is stuck. A queued job always has an attempt left; a running one has a
  lease, and once that lease has expired either a claim may start it again or the reaper fails
  it; the attempts never exceed the budget.
\<close>

theorem no_job_is_stuck:
  assumes "(store_step h cfg)\<^sup>*\<^sup>* init_sys s" and "0 < default_max_attempts cfg"
    and "r \<in> set (jobs (sdb s))"
  shows "0 \<le> attempts r \<and> attempts r \<le> max_attempts r \<and>
    (case status r of
       Queued \<Rightarrow> startable now r
     | Running \<Rightarrow> (\<exists>e. lease_expires_at r = Some e \<and>
         (live now r \<and> now < e \<or> e \<le> now \<and> \<not> live now r \<and> (startable (now + 1) r \<noteq> reap_sel (now + 1) r)))
     | _ \<Rightarrow> lease_owner r = [] \<and> lease_expires_at r = None)"
proof -
  have ok: "job_ok r" using reachable_sys_ok [OF assms(1,2)] assms(3)
    by (auto simp: sys_ok_def dest: tables_okD(2))
  show ?thesis
  proof (cases "status r")
    case Queued
    with ok show ?thesis by (simp add: job_ok_def startable_def in_queue_def)
  next
    case Running
    with ok obtain e where e: "lease_expires_at r = Some e" by (auto simp: job_ok_def)
    with Running ok show ?thesis
      by (auto simp: job_ok_def startable_def reap_sel_def live_def in_queue_def not_le)
  qed (use ok in \<open>simp_all add: job_ok_def\<close>)
qed

theorem no_job_is_stuck_witness:
  "\<exists>r \<in> set (jobs (sdb claimed_sys)). status r = Running \<and> attempts r = 1 \<and>
    (startable (1000 * 1000000 + 1) r \<noteq> reap_sel (1000 * 1000000 + 1) r)"
proof -
  have "map (\<lambda>r. (status r, attempts r, live (1000 * 1000000) r)) (jobs (sdb claimed_sys)) =
    [(Running, 1, False)]" by code_simp
  then obtain r where r: "r \<in> set (jobs (sdb claimed_sys))" "status r = Running" "attempts r = 1"
    "\<not> live (1000 * 1000000) r" by (auto simp: map_eq_Cons_conv)
  with no_job_is_stuck [OF claimed_sys_reachable demo_budget r(1), of "1000 * 1000000"] show ?thesis
    by (intro bexI [OF _ r(1)]) auto
qed

section \<open>Fencing\<close>

text \<open>
  C2: a superseded attempt is fenced off for ever. Once the token of an attempt is no longer
  the one its job holds (the job was retried, reaped, cancelled, completed or deleted), then in
  every later state, for every job id, a heartbeat, a completion and a failure that present it
  are refused and change nothing, and the job is not handed out for it.
\<close>

theorem stale_attempt_fenced:
  assumes "(store_step h cfg)\<^sup>*\<^sup>* init_sys s" and "(store_step h cfg)\<^sup>*\<^sup>* s t"
    and "(store_step h cfg)\<^sup>*\<^sup>* t v" and "0 < default_max_attempts cfg"
    and "job_by_id i (sdb s) = Some r" and "lease_owner r \<noteq> []"
    and "\<And>r'. job_by_id i (sdb t) = Some r' \<Longrightarrow> lease_owner r' \<noteq> lease_owner r"
  shows "heartbeat cfg c j (lease_owner r) p (sdb v) = (False, sdb v) \<and>
    complete_job now j (lease_owner r) txt segs path (sdb v) = (False, sdb v) \<and>
    fail_job cfg c m j (lease_owner r) e retryable (sdb v) = (False, sdb v) \<and>
    get_owned_job now j (lease_owner r) (sdb v) = None"
proof -
  have "spent t (lease_owner r)"
    by (rule spent_when_replaced [OF assms(2) fence_sys.reachable_inv [OF refl assms(1)]
          reachable_sys_ok [OF assms(1,4)] assms(4,5,6,7)])
  from spent_sys.steps_inv [OF assms(3) this] have "\<And>r'. r' \<in> set (jobs (sdb v)) \<Longrightarrow>
      lease_owner r' \<noteq> lease_owner r" by (simp add: spent_def)
  from no_owner_rejected [OF assms(6) this] show ?thesis by simp
qed

theorem stale_attempt_fenced_witness:
  "complete_job 9000000 (demo_uuid CHR ''1'') (''gpu/'' @ demo_uuid CHR ''3'') ''again'' [] ''x'' (sdb late_sys) =
    (False, sdb late_sys)"
proof -
  have s: "map_option lease_owner (job_by_id (demo_uuid CHR ''1'') (sdb claimed_sys)) =
      Some (''gpu/'' @ demo_uuid CHR ''3'')"
    and t: "map_option lease_owner (job_by_id (demo_uuid CHR ''1'') (sdb completed_sys)) = Some []"
    by code_simp+
  from s obtain r where r: "job_by_id (demo_uuid CHR ''1'') (sdb claimed_sys) = Some r"
    and o: "lease_owner r = ''gpu/'' @ demo_uuid CHR ''3''" by auto
  have "lease_owner r \<noteq> []" by (simp add: o)
  moreover have "lease_owner r' \<noteq> lease_owner r"
    if "job_by_id (demo_uuid CHR ''1'') (sdb completed_sys) = Some r'" for r'
    using t that o by simp
  ultimately show ?thesis
    using stale_attempt_fenced [OF claimed_sys_reachable completed_sys_steps late_sys_steps
        demo_budget r] o by metis
qed

section \<open>Claiming under pool policies\<close>

text \<open>The tables the selection and the claim of one request see.\<close>

definition demanded :: "store_config \<Rightarrow> clock \<Rightarrow> string \<Rightarrow> string \<Rightarrow> db \<Rightarrow> db" where
  "demanded cfg c w inst d =
     sql_request_work (reading c 0) (demand_ttl_seconds cfg) w inst (sql_reap (tx_now c) d)"

definition best_slot :: "store_config \<Rightarrow> time \<Rightarrow> string \<Rightarrow> string \<Rightarrow> db \<Rightarrow> bool" where
  "best_slot cfg t w inst d \<longleftrightarrow> (\<exists>a \<in> set (workers d). av_worker_id a = w \<and> av_instance_id a = inst \<and>
     eligible_slot (worker_policies cfg) t d a \<and>
     (\<forall>b \<in> set (workers d). eligible_slot (worker_policies cfg) t d b \<longrightarrow>
        slot_priority (worker_policies cfg) a \<le> slot_priority (worker_policies cfg) b))"

lemma select_worker_iff:
  "sql_select_worker (worker_policies cfg) t w inst d \<noteq> None \<longleftrightarrow> best_slot cfg t w inst d"
  by (auto simp: sql_select_worker_def Let_def find_by_None best_slot_def list_all_iff)

lemma slot_candidate_None:
  "slot_candidate lk t d = None \<longleftrightarrow> (\<forall>r \<in> set (jobs d). startable t r \<longrightarrow> lk (job_id r))"
  by (auto simp: slot_candidate_def filter_empty_conv)

lemma slot_candidate_least:
  "slot_candidate lk t d = Some r \<Longrightarrow> q \<in> set (jobs d) \<Longrightarrow> startable t q \<Longrightarrow> \<not> lk (job_id q) \<Longrightarrow>
   (created_at r, job_id r) \<le> (created_at q, job_id q)"
  unfolding slot_candidate_def by (drule first_min_le) auto

lemma tables_ok_demanded: "tables_ok d \<Longrightarrow> tables_ok (demanded cfg c w inst d)"
  unfolding demanded_def
  by (rule keeps_ok [OF keeps_request_work [OF keeps_ok [OF keeps_reap]]])

lemma claim_next_policy:
  assumes "queue_backend cfg = Postgres" and "worker_policies cfg \<noteq> []"
  shows "claim_next_job cfg lk c u w fb inst d =
    (if best_slot cfg (reading c 1) w inst (demanded cfg c w inst d)
     then (case sql_claim_slot lk (tx_now c) (reading c 2) (new_lease w u) (lease_seconds cfg) w inst
             (demanded cfg c w inst d) of
             (row, d') \<Rightarrow> (Inr (map_option (claimed_of (new_lease w u)) row), d'))
     else (Inr None, demanded cfg c w inst d))"
  using assms select_worker_iff [of cfg "reading c 1" w inst "demanded cfg c w inst d"]
  by (auto simp: claim_next_job_def claim_by_policy_def Let_def demanded_def [symmetric]
      split: option.split prod.split)

lemma start_candidate_Some:
  assumes "tables_ok d" and "r \<in> set (jobs d)" and "\<And>x. job_id (f x) = job_id x"
  shows "start_candidate now f (Some r) d =
    (Some (trigger_row now r (f r)), update_jobs now (by_id (job_id r)) f d)"
  using job_by_id_mem [OF tables_okD(1) [OF assms(1)] assms(2)] assms(3)
  by (simp add: start_candidate_def Let_def job_by_id_update_jobs by_id_def)


text \<open>The state before the demonstration claim.\<close>

definition ready_sys :: sys where
  "ready_sys = run_calls demo_hash (demo_cfg Postgres) init_sys (butlast claimed_run)"

lemma ready_sys_reachable: "(store_step demo_hash (demo_cfg Postgres))\<^sup>*\<^sup>* init_sys ready_sys"
proof -
  have "run_ok demo_hash (demo_cfg Postgres) init_sys (butlast claimed_run)" by code_simp
  then show ?thesis unfolding ready_sys_def by (rule run_calls_steps)
qed

lemma ready_tables_ok: "tables_ok (sdb ready_sys)"
  using reachable_sys_ok [OF ready_sys_reachable demo_budget] by (simp add: sys_ok_def)


text \<open>
  C7: the scheduler is exact. Under pool policies a request is given a job if and only if its
  slot is eligible (its pool has a policy with spare capacity, the slot is ready, has asked for
  work recently and holds no running job), no eligible slot of another pool has a better
  priority, and some waiting or abandoned job is not locked by another claim.
\<close>

theorem claim_succeeds_iff:
  assumes "tables_ok d" and "queue_backend cfg = Postgres" and "worker_policies cfg \<noteq> []"
  shows "(\<exists>j. fst (claim_next_job cfg lk c u w fb inst d) = Inr (Some j)) \<longleftrightarrow>
    best_slot cfg (reading c 1) w inst (demanded cfg c w inst d) \<and>
    (\<exists>r \<in> set (jobs (sql_reap (tx_now c) d)). startable (reading c 2) r \<and> \<not> lk (job_id r))"
proof -
  let ?d = "demanded cfg c w inst d"
  have js: "jobs ?d = jobs (sql_reap (tx_now c) d)" by (simp add: demanded_def sql_request_work_def)
  have ok: "tables_ok ?d" using assms(1) by (rule tables_ok_demanded)
  show ?thesis
  proof (cases "slot_candidate lk (reading c 2) ?d")
    case None
    with slot_candidate_None [of lk "reading c 2" ?d] show ?thesis
      by (auto simp: claim_next_policy [OF assms(2,3)] sql_claim_slot_def start_candidate_def js)
  next
    case (Some r)
    with slot_candidate_Some have r: "r \<in> set (jobs ?d)" "startable (reading c 2) r" "\<not> lk (job_id r)"
      by auto
    have "sql_claim_slot lk (tx_now c) (reading c 2) (new_lease w u) (lease_seconds cfg) w inst ?d =
        (Some (trigger_row (tx_now c) r (claim_row (tx_now c) (reading c 2) (new_lease w u)
          (lease_seconds cfg) w inst r)), update_jobs (tx_now c) (by_id (job_id r))
          (claim_row (tx_now c) (reading c 2) (new_lease w u) (lease_seconds cfg) w inst) ?d)"
      by (simp add: sql_claim_slot_def Some start_candidate_Some [OF ok r(1)] claim_row_def)
    with r show ?thesis by (auto simp: claim_next_policy [OF assms(2,3)] js)
  qed
qed

theorem claim_succeeds_iff_witness:
  "\<exists>j. fst (claim_next_job (demo_cfg Postgres) (\<lambda>_. False) (at_time 3) (demo_uuid CHR ''3'') ''gpu''
      False ''slot-1'' (sdb ready_sys)) = Inr (Some j)"
proof -
  have cfg: "queue_backend (demo_cfg Postgres) = Postgres" "worker_policies (demo_cfg Postgres) \<noteq> []"
    by (simp_all add: demo_cfg_def)
  let ?d = "demanded (demo_cfg Postgres) (at_time 3) ''gpu'' ''slot-1'' (sdb ready_sys)"
  have "best_slot (demo_cfg Postgres) (reading (at_time 3) 1) ''gpu'' ''slot-1'' ?d"
    unfolding select_worker_iff [symmetric] by code_simp
  moreover have "slot_candidate (\<lambda>_. False) 3 (sql_reap 3 (sdb ready_sys)) \<noteq> None" by code_simp
  then have "\<exists>r \<in> set (jobs (sql_reap (tx_now (at_time 3)) (sdb ready_sys))).
      startable (reading (at_time 3) 2) r \<and> \<not> (\<lambda>_. False) (job_id r)"
    by (simp add: slot_candidate_None at_time_def)
  ultimately show ?thesis using claim_succeeds_iff [OF ready_tables_ok cfg] by blast
qed

section \<open>The owner of an attempt\<close>

lemma filter_key:
  assumes "distinct (map key rs)"
  shows "filter (\<lambda>r. key r = k \<and> Q r) rs =
    (case find_by (\<lambda>x. key x = k) rs of None \<Rightarrow> [] | Some r \<Rightarrow> if Q r then [r] else [])"
  using assms
proof (induction rs)
  case (Cons r rs)
  show ?case
  proof (cases "key r = k")
    case True
    with Cons.prems have "filter (\<lambda>r. key r = k \<and> Q r) rs = []"
      by (auto simp: filter_empty_conv image_iff)
    with True show ?thesis by (simp add: find_by_def)
  next
    case False
    with Cons show ?thesis by (simp add: find_by_def)
  qed
qed (simp add: find_by_def)

lemma select_jobs_id:
  assumes "tables_ok d"
  shows "select_jobs (\<lambda>r. job_id r = i \<and> Q r) d =
    (case job_by_id i d of None \<Rightarrow> [] | Some r \<Rightarrow> if Q r then [r] else [])"
  unfolding select_jobs_def job_by_id_def by (rule filter_key [OF tables_okD(1) [OF assms]])

lemma one_row_id:
  assumes "tables_ok d"
  shows "one_row (\<lambda>r. job_id r = i \<and> Q r) d \<longleftrightarrow> (\<exists>r. job_by_id i d = Some r \<and> Q r)"
  unfolding one_row_def select_jobs_id [OF assms] by (cases "job_by_id i d") auto

lemma job_by_id_updated:
  assumes "tables_ok d" and "\<And>r. job_id (f r) = job_id r"
  shows "job_by_id i (update_jobs now (\<lambda>r. job_id r = i \<and> Q r) f d) =
    map_option (\<lambda>r. if Q r then trigger_row now r (f r) else r) (job_by_id i d)"
  using assms(2) job_by_id_Some
  by (cases "job_by_id i d") (auto simp: job_by_id_update_jobs)

text \<open>
  What the worker reports is what clients read. On well-formed tables the completion of an
  attempt is accepted exactly when the token is that of the job's unexpired lease, and then a
  client reading the job sees it done with that transcript, those segments and that file, at
  100 percent and without an error; a refused completion changes nothing.
\<close>

theorem completion_is_read_back:
  assumes "tables_ok d"
  shows "(fst (complete_job now i owner txt segs path d) \<longleftrightarrow>
      (\<exists>r. job_by_id i d = Some r \<and> lease_owner r = owner \<and> live now r)) \<and>
    (if fst (complete_job now i owner txt segs path d)
     then (\<exists>j. get_job i (snd (complete_job now i owner txt segs path d)) = Some j \<and>
       JobRecord.status j = Done \<and> JobRecord.job_text j = txt \<and> JobRecord.segments_json j = segs \<and>
       JobRecord.result_path j = path \<and> JobRecord.progress_percent j = 100 \<and>
       JobRecord.job_error j = [] \<and> JobRecord.finished_at j = Some now)
     else snd (complete_job now i owner txt segs path d) = d)"
proof -
  let ?Q = "\<lambda>r. lease_owner r = owner \<and> live now r"
  have sel: "owned_sel i owner now = (\<lambda>r. job_id r = i \<and> ?Q r)"
    by (simp add: owned_sel_def fun_eq_iff)
  have id: "job_id (complete_row now txt segs path r) = job_id r" for r by (simp add: complete_row_def)
  have look: "job_by_id i (update_jobs now (\<lambda>r. job_id r = i \<and> ?Q r) (complete_row now txt segs path) d) =
      map_option (\<lambda>r. if ?Q r then trigger_row now r (complete_row now txt segs path r) else r)
        (job_by_id i d)"
    by (rule job_by_id_updated [OF assms id])
  have acc: "fst (complete_job now i owner txt segs path d) \<longleftrightarrow> (\<exists>r. job_by_id i d = Some r \<and> ?Q r)"
    by (simp add: complete_job_def sel one_row_id [OF assms])
  have "update_jobs now (\<lambda>r. job_id r = i \<and> ?Q r) (complete_row now txt segs path) d = d"
    if no: "\<not> (\<exists>r. job_by_id i d = Some r \<and> ?Q r)"
  proof (rule update_jobs_none(1))
    fix r
    assume "r \<in> set (jobs d)"
    from job_by_id_mem [OF tables_okD(1) [OF assms] this] no
    show "\<not> (job_id r = i \<and> ?Q r)" by auto
  qed
  moreover have "\<exists>j. get_job i (update_jobs now (\<lambda>r. job_id r = i \<and> ?Q r) (complete_row now txt segs path) d) = Some j \<and>
       JobRecord.status j = Done \<and> JobRecord.job_text j = txt \<and> JobRecord.segments_json j = segs \<and>
       JobRecord.result_path j = path \<and> JobRecord.progress_percent j = 100 \<and>
       JobRecord.job_error j = [] \<and> JobRecord.finished_at j = Some now"
    if "job_by_id i d = Some r" "?Q r" for r
    using that by (simp add: get_job_def look complete_row_def)
  ultimately show ?thesis unfolding acc by (auto simp: complete_job_def sql_complete_def sel)
qed

theorem completion_is_read_back_witness:
  "\<exists>j. get_job (demo_uuid CHR ''1'') (snd (complete_job 5000000 (demo_uuid CHR ''1'')
      (''gpu/'' @ demo_uuid CHR ''3'') ''hello'' [] ''r.txt'' (sdb claimed_sys))) = Some j \<and>
    JobRecord.status j = Done \<and> JobRecord.job_text j = ''hello''"
proof -
  have ok: "tables_ok (sdb claimed_sys)"
    using reachable_sys_ok [OF claimed_sys_reachable demo_budget] by (simp add: sys_ok_def)
  have "fst (complete_job 5000000 (demo_uuid CHR ''1'') (''gpu/'' @ demo_uuid CHR ''3'') ''hello'' []
      ''r.txt'' (sdb claimed_sys))" by code_simp
  with completion_is_read_back [OF ok, of 5000000 "demo_uuid CHR ''1''" "''gpu/'' @ demo_uuid CHR ''3''"
      "''hello''" "[]" "''r.txt''"] show ?thesis by metis
qed

end
