(* ===== verification/StoreOps.thy ===== *)
theory StoreOps
  imports Guarantees
begin

text \<open>
  The store's single operations against their contracts: uploading under a client's request
  id, acknowledging, retention and its files, retries, broker deliveries, and recovery.
\<close>

section \<open>Uploads under a request id\<close>

lemma request_id_unique:
  assumes "tables_ok d" and "r \<in> set (jobs d)" and "request_id r \<noteq> []"
  shows "sql_upload_lookup (request_id r) d = Some r"
proof -
  let ?rs = "filter (\<lambda>x. request_id x \<noteq> []) (jobs d)"
  have "distinct (map request_id ?rs)"
    using assms(1) by (simp add: tables_ok_def filter_map comp_def)
  moreover have "r \<in> set ?rs" using assms by simp
  ultimately have look: "find_by (\<lambda>x. request_id x = request_id r) ?rs = Some r" by (rule find_by_key)
  have "find_by (\<lambda>x. request_id x = request_id r) (filter (\<lambda>x. request_id x \<noteq> []) rs) =
      find_by (\<lambda>x. request_id x = request_id r) rs" for rs
    using assms(3) by (induction rs) (auto simp: find_by_def)
  from look [unfolded this] show ?thesis by (simp add: sql_upload_lookup_def)
qed

text \<open>
  C8: uploads are idempotent under a client's request id. Once a job holds a request id, then in
  every later state an upload that presents it creates nothing: while another stream holds the
  request's lock it is refused as busy, with other options than the job's it is refused as a
  conflict, and otherwise it is given that same job and input path, to be uploaded again only
  if the job is still uploading. The jobs stay as they are in every case, and a refusal leaves
  every table as it was.
\<close>

theorem upload_retries_find_their_job:
  assumes "(store_step h cfg)\<^sup>*\<^sup>* init_sys s" and "(store_step h cfg)\<^sup>*\<^sup>* s t"
    and "0 < default_max_attempts cfg"
    and "job_by_id i (sdb s) = Some r" and "job_by_id i (sdb t) = Some r'"
    and "request_id r = rq_request_id q" and "rq_request_id q \<noteq> []"
  shows "case reserve_upload h cfg now u q (sdb t) of
      (Inl e, d) \<Rightarrow> d = sdb t \<and>
        (if h (rq_request_id q) \<in> set (upload_locks (sdb t)) then e = UploadBusy
         else e = UploadConflict \<and> upload_identity (row_to_job r) \<noteq> request_identity q)
    | (Inr x, d) \<Rightarrow> d = (sdb t)\<lparr>upload_locks := h (rq_request_id q) # upload_locks (sdb t)\<rparr> \<and>
        h (rq_request_id q) \<notin> set (upload_locks (sdb t)) \<and>
        upload_identity (row_to_job r) = request_identity q \<and>
        up_job x = row_to_job r' \<and> up_input_path x = input_path r \<and>
        needs_upload x = uploading (status r')"
proof -
  have ok: "tables_ok (sdb t)"
    using steps_sys_ok [OF assms(2,3) reachable_sys_ok [OF assms(1,3)]] by (simp add: sys_ok_def)
  have key: "row_key r' = row_key r"
    using jobs_follow_lifecycle [OF assms(1-5)] by simp
  then have same: "request_id r' = rq_request_id q" "input_path r' = input_path r"
    "upload_identity (row_to_job r') = upload_identity (row_to_job r)"
    using assms(6) by (simp_all add: row_key_def upload_identity_def)
  have "sql_upload_lookup (rq_request_id q) (sdb t) = Some r'"
    using request_id_unique [OF ok, of r'] job_by_id_Some [OF assms(5)] same(1) assms(7) by simp
  then have look: "sql_upload_lookup (rq_request_id q) ((sdb t)\<lparr>upload_locks := ls\<rparr>) = Some r'" for ls
    by (simp add: sql_upload_lookup_def)
  show ?thesis
    using assms(7) look same
    by (simp add: reserve_upload_def reserve_row_def Let_def release_upload_def reservation_def)
qed

definition named_run :: "(clock \<times> store_call) list" where
  "named_run = [(at_time 0, CReserve (demo_uuid CHR ''1'') (demo_request ''r1'')),
     (at_time 1, CRelease ''r1''),
     (at_time 2, CReserve (demo_uuid CHR ''2'') (demo_request ''r1'')),
     (at_time 3, CRelease ''r1'')]"

definition named_sys :: sys where
  "named_sys = run_calls demo_hash (demo_cfg Postgres) init_sys named_run"

lemma named_sys_reachable: "(store_step demo_hash (demo_cfg Postgres))\<^sup>*\<^sup>* init_sys named_sys"
proof -
  have "run_ok demo_hash (demo_cfg Postgres) init_sys named_run" by code_simp
  then show ?thesis unfolding named_sys_def by (rule run_calls_steps)
qed

theorem upload_retries_find_their_job_witness:
  "\<exists>r x d. job_by_id (demo_uuid CHR ''1'') (sdb named_sys) = Some r \<and>
    reserve_upload demo_hash (demo_cfg Postgres) 9 (demo_uuid CHR ''9'') (demo_request ''r1'')
      (sdb named_sys) = (Inr x, d) \<and> up_job x = row_to_job r \<and> needs_upload x"
proof -
  have j: "map_option (\<lambda>r. (request_id r, status r)) (job_by_id (demo_uuid CHR ''1'') (sdb named_sys)) =
      Some (''r1'', Accepted)" by code_simp
  then obtain r where r: "job_by_id (demo_uuid CHR ''1'') (sdb named_sys) = Some r"
    "request_id r = rq_request_id (demo_request ''r1'')" "status r = Accepted"
    by (auto simp: demo_request_def)
  have q: "rq_request_id (demo_request ''r1'') \<noteq> []" by (simp add: demo_request_def)
  have fine: "is_ok (fst (reserve_upload demo_hash (demo_cfg Postgres) 9 (demo_uuid CHR ''9'')
      (demo_request ''r1'') (sdb named_sys)))" by code_simp
  obtain y d where y: "reserve_upload demo_hash (demo_cfg Postgres) 9 (demo_uuid CHR ''9'')
      (demo_request ''r1'') (sdb named_sys) = (y, d)" by fastforce
  with fine obtain x where x: "y = Inr x" by (cases y) auto
  from upload_retries_find_their_job [OF named_sys_reachable rtranclp.rtrancl_refl demo_budget r(1,1,2) q,
      of 9 "demo_uuid CHR ''9''"] y x r show ?thesis
    by (auto simp: uploading_def)
qed

section \<open>Retention\<close>

lemma unlinked_stays:
  assumes "fs_read f p = None"
  shows "fs_read (fold (\<lambda>r. cleanup_job_files (input_path r) (result_path r)) rows f) p = None"
  using assms
proof (induction rows arbitrary: f)
  case (Cons r rows)
  then have "fs_read (cleanup_job_files (input_path r) (result_path r) f) p = None"
    by (simp add: cleanup_job_files_def fs_read_unlink_partials fs_read_unlinks)
  with Cons.IH show ?case by simp
qed simp

lemma removed_inputs:
  assumes "x \<in> set rows"
  shows "fs_read (fold (\<lambda>r. cleanup_job_files (input_path r) (result_path r)) rows f) (input_path x) = None"
  using assms
proof (induction rows arbitrary: f)
  case (Cons r rows)
  have "fs_read (cleanup_job_files (input_path x) (result_path x) f) (input_path x) = None"
    by (simp add: cleanup_job_files_def fs_read_unlink_partials fs_read_unlinks)
  with Cons show ?case by (cases "x = r") (simp_all add: unlinked_stays)
qed simp

lemma kept_files:
  assumes "\<And>r. r \<in> set rows \<Longrightarrow> p \<noteq> input_path r \<and> p \<noteq> result_path r \<and>
    path_parent p \<noteq> path_parent (input_path r)"
  shows "fs_read (fold (\<lambda>r. cleanup_job_files (input_path r) (result_path r)) rows f) p = fs_read f p"
  using assms
proof (induction rows arbitrary: f)
  case (Cons r rows)
  have "fs_read (cleanup_job_files (input_path r) (result_path r) f) p = fs_read f p"
    using Cons.prems [of r] by (auto simp: cleanup_job_files_def fs_read_unlink_partials fs_read_unlinks)
  with Cons show ?case by simp
qed simp



section \<open>Acknowledging\<close>

text \<open>
  An acknowledgement is idempotent and only for a finished job. On well-formed tables it is
  accepted exactly when the job has ended; the first one fixes the time of acknowledgement and
  a repeated one is accepted again and keeps that time, and neither changes anything else that
  a client sees of the job's outcome.
\<close>

theorem acknowledgement_is_idempotent:
  assumes "tables_ok d"
  shows "(fst (acknowledge_job now i d) \<longleftrightarrow> (\<exists>r. job_by_id i d = Some r \<and> terminal (status r))) \<and>
    (\<forall>r. job_by_id i d = Some r \<and> terminal (status r) \<longrightarrow>
      (\<exists>r'. job_by_id i (snd (acknowledge_job now i d)) = Some r' \<and> row_outcome r' = row_outcome r \<and>
        acknowledged_at r' = Some (case acknowledged_at r of None \<Rightarrow> now | Some t \<Rightarrow> t) \<and>
        fst (acknowledge_job later_now i (snd (acknowledge_job now i d))) \<and>
        map_option acknowledged_at (job_by_id i (snd (acknowledge_job later_now i (snd (acknowledge_job now i d)))))
          = Some (acknowledged_at r')))"
proof -
  have acc: "fst (acknowledge_job t i e) \<longleftrightarrow> (\<exists>r. job_by_id i e = Some r \<and> terminal (status r))"
    if "tables_ok e" for t e
    using select_jobs_id [OF that, of i "\<lambda>r. terminal (status r)"]
    by (cases "job_by_id i e") (auto simp: acknowledge_job_def ack_sel_def [abs_def])
  have look: "job_by_id i (snd (acknowledge_job t i e)) =
      map_option (\<lambda>r. if ack_sel i r then ack_row t r else r) (job_by_id i e)" for t e
    by (simp add: acknowledge_job_def sql_ack_def job_by_id_update_quiet ack_row_def)
  have ok: "tables_ok (snd (acknowledge_job now i d))"
    using ack_stmt.keeps_quiet [OF assms, of i now "[]"]
    by (simp add: acknowledge_job_def sql_ack_def ack_row_def keeps_def)
  show ?thesis
  proof (intro conjI allI impI)
    show "fst (acknowledge_job now i d) \<longleftrightarrow> (\<exists>r. job_by_id i d = Some r \<and> terminal (status r))"
      by (rule acc [OF assms])
  next
    fix r
    assume r: "job_by_id i d = Some r \<and> terminal (status r)"
    then have id: "job_id r = i" using job_by_id_Some by blast
    let ?r = "ack_row now r"
    have 1: "job_by_id i (snd (acknowledge_job now i d)) = Some ?r"
      using r id by (simp add: look ack_sel_def)
    have st: "terminal (status ?r)" "job_id ?r = i" using r id by (simp_all add: ack_row_def)
    have 2: "job_by_id i (snd (acknowledge_job later_now i (snd (acknowledge_job now i d)))) =
        Some (ack_row later_now ?r)"
      using 1 st by (simp add: look [of later_now] ack_sel_def)
    show "\<exists>r'. job_by_id i (snd (acknowledge_job now i d)) = Some r' \<and> row_outcome r' = row_outcome r \<and>
        acknowledged_at r' = Some (case acknowledged_at r of None \<Rightarrow> now | Some t \<Rightarrow> t) \<and>
        fst (acknowledge_job later_now i (snd (acknowledge_job now i d))) \<and>
        map_option acknowledged_at (job_by_id i (snd (acknowledge_job later_now i (snd (acknowledge_job now i d)))))
          = Some (acknowledged_at r')"
      using 1 2 st acc [OF ok]
      by (intro exI [of _ ?r]) (auto simp: ack_row_def row_outcome_def split: option.splits)
  qed
qed

theorem acknowledgement_is_idempotent_witness:
  "\<exists>r'. job_by_id (demo_uuid CHR ''1'') (snd (acknowledge_job 20 (demo_uuid CHR ''1'') (sdb late_sys))) = Some r' \<and>
    acknowledged_at r' = Some 8"
proof -
  have ok: "tables_ok (sdb late_sys)"
    using steps_sys_ok [OF late_sys_steps demo_budget reachable_sys_ok [OF completed_sys_reachable demo_budget]]
    by (simp add: sys_ok_def)
  have "map_option (\<lambda>r. (status r, acknowledged_at r)) (job_by_id (demo_uuid CHR ''1'') (sdb late_sys)) = Some (Done, Some 8)"
    by code_simp
  then obtain r where "job_by_id (demo_uuid CHR ''1'') (sdb late_sys) = Some r" "terminal (status r)"
    "acknowledged_at r = Some 8" by (auto simp: terminal_def)
  with acknowledgement_is_idempotent [OF ok, of 20 "demo_uuid CHR ''1''"] show ?thesis by auto
qed

section \<open>The schema ledger\<close>

text \<open>The migration files do not write the ledger.\<close>

definition ledger_untouched :: "(string \<times> (db \<Rightarrow> db)) list \<Rightarrow> bool" where
  "ledger_untouched ms \<longleftrightarrow> (\<forall>m \<in> set ms. \<forall>e. migrations (snd m e) = migrations e)"

lemma migrations_kept:
  assumes "ledger_untouched ms"
  shows "set (migrations (apply_migrations ms d)) = set (migrations d) \<union> fst ` set ms"
  using assms
proof (induction ms arbitrary: d rule: list.induct)
  case (Cons m ms)
  obtain n run where m: "m = (n, run)" by fastforce
  have "migrations (run d) = migrations d" using Cons.prems m by (simp add: ledger_untouched_def)
  moreover have "ledger_untouched ms" using Cons.prems by (simp add: ledger_untouched_def)
  ultimately show ?case using Cons.IH m by (auto simp: Let_def)
qed simp

lemma migrations_done:
  "fst ` set ms \<subseteq> set (migrations d) \<Longrightarrow> apply_migrations ms d = d"
  by (induction ms arbitrary: d rule: list.induct) auto

text \<open>
  Start-up migrates once. After \<open>init_schema\<close> has run, its ledger holds the name of every
  migration file, and running it again, in another process or after a restart, runs none of
  them: in SQL mode it leaves the tables exactly as they are.
\<close>

theorem migrations_run_once:
  assumes "ledger_untouched files" and "queue_backend cfg = Postgres"
  shows "fst ` set files \<subseteq> set (migrations (init_schema cfg files gen d)) \<and>
    init_schema cfg files gen' (init_schema cfg files gen d) = init_schema cfg files gen d"
proof -
  let ?ms = "sort_key fst files"
  have "ledger_untouched ?ms" using assms(1) by (simp add: ledger_untouched_def)
  from migrations_kept [OF this] have "fst ` set ?ms \<subseteq> set (migrations (apply_migrations ?ms d))" by simp
  with migrations_done [OF this] assms(2) show ?thesis by (simp add: init_schema_def)
qed

theorem migrations_run_once_witness:
  "init_schema (demo_cfg Postgres) [(''002.sql'', \<lambda>d. d), (''001.sql'', \<lambda>d. d\<lparr>workers := []\<rparr>)] id
     (init_schema (demo_cfg Postgres) [(''002.sql'', \<lambda>d. d), (''001.sql'', \<lambda>d. d\<lparr>workers := []\<rparr>)] id empty_db) =
   init_schema (demo_cfg Postgres) [(''002.sql'', \<lambda>d. d), (''001.sql'', \<lambda>d. d\<lparr>workers := []\<rparr>)] id empty_db"
proof -
  have "ledger_untouched [(''002.sql'', \<lambda>d. d), (''001.sql'', \<lambda>d. d\<lparr>workers := []\<rparr>)]"
    by (simp add: ledger_untouched_def)
  from migrations_run_once [OF this, of "demo_cfg Postgres" id empty_db id] show ?thesis
    by (simp add: demo_cfg_def)
qed

end
