(* ===== verification/BrokerMode.thy ===== *)
theory BrokerMode
  imports StoreOps
begin

text \<open>
  Broker mode: failures and their delayed retries, the outbox and its message for every waiting
  job, deliveries of those messages to consumers, and the recovery of a lost broker.
\<close>

section \<open>Failures and retries\<close>

lemma job_by_id_enqueue:
  "job_by_id i (enqueue clk m j delay d) =
    map_option (\<lambda>r. if job_id r = j then dispatch_row m r else r) (job_by_id i d)"
proof -
  have "job_by_id i (update_jobs_quiet (by_id j) (dispatch_row m) d) =
      map_option (\<lambda>r. if by_id j r then dispatch_row m r else r) (job_by_id i d)"
    by (rule job_by_id_update_quiet) (simp add: dispatch_row_def)
  then show ?thesis
    by (simp add: enqueue_def sql_outbox_insert_def sql_dispatch_def job_by_id_def by_id_def)
qed

lemma outbox_enqueue [simp]:
  "outbox (enqueue clk m j delay d) =
    outbox d @ [\<lparr>message_id = m, ox_job_id = j, available_at = clk + secs delay, published_at = None\<rparr>]"
  by (simp add: enqueue_def sql_outbox_insert_def sql_dispatch_def)

lemma retry_delay_bounds: "1 \<le> a \<Longrightarrow> 2 \<le> retry_delay a \<and> retry_delay a \<le> 256"
proof -
  assume a: "1 \<le> a"
  define n where "n = nat (min a 8)"
  have "1 \<le> n" "n \<le> 8" using a by (auto simp: n_def)
  with power_increasing [of 1 n "2 :: int"] power_increasing [of n 8 "2 :: int"] show ?thesis
    by (simp add: retry_delay_def n_def [symmetric])
qed

text \<open>
  C11: a failed attempt is retried exactly within the budget. In broker mode the failure the owner
  of a live lease reports is accepted. If it is retryable and attempts are left, the job waits
  again under a new message, which the outbox holds once, unpublished, and due after a delay of
  2 to 256 seconds that doubles with each attempt; otherwise the job has failed for good, with
  the reported error, and no message is added.
\<close>

theorem failure_is_retried_within_budget:
  assumes "tables_ok d" and "queue_backend cfg = Rabbitmq"
    and "job_by_id i d = Some r" and "live (tx_now c) r"
  shows "case fail_job cfg c m i (lease_owner r) e retryable d of (accepted, d') \<Rightarrow> accepted \<and>
    (\<exists>r'. job_by_id i d' = Some r' \<and> attempts r' = attempts r \<and> job_error r' = e \<and>
      lease_owner r' = [] \<and>
      (if retryable \<and> attempts r < max_attempts r
       then status r' = Queued \<and> dispatch_id r' = m \<and>
         outbox d' = outbox d @ [\<lparr>message_id = m, ox_job_id = i,
           available_at = reading c 0 + secs (retry_delay (attempts r)), published_at = None\<rparr>] \<and>
         2 \<le> retry_delay (attempts r) \<and> retry_delay (attempts r) \<le> 256
       else status r' = Failed \<and> finished_at r' = Some (tx_now c) \<and> outbox d' = outbox d))"
proof -
  let ?Q = "\<lambda>x. lease_owner x = lease_owner r \<and>
    (live (tx_now c) x \<or> (lease_owner r = [] \<and> uploading (status x)))"
  let ?f = "fail_row (tx_now c) retryable e"
  let ?d = "sql_fail (tx_now c) retryable e i (lease_owner r) d"
  have sel: "fail_sel i (lease_owner r) (tx_now c) = (\<lambda>x. job_id x = i \<and> ?Q x)"
    by (simp add: fail_sel_def fun_eq_iff)
  have id: "job_id (?f x) = job_id x" for x by (simp add: fail_row_def Let_def)
  have acc: "one_row (fail_sel i (lease_owner r) (tx_now c)) d"
    unfolding sel one_row_id [OF assms(1)] using assms(3,4) by blast
  have job: "job_by_id i ?d = Some (trigger_row (tx_now c) r (?f r))"
    using job_by_id_updated [OF assms(1) id] assms(3,4) by (simp add: sql_fail_def sel)
  have ok: "job_ok r" using tables_okD(2) [OF assms(1)] job_by_id_Some [OF assms(3)] by blast
  have i: "job_id r = i" using job_by_id_Some [OF assms(3)] by simp
  have ob: "outbox ?d = outbox d" by (simp add: sql_fail_def)
  show ?thesis
  proof (cases "retryable \<and> attempts r < max_attempts r")
    case True
    have "fail_job cfg c m i (lease_owner r) e retryable d =
        (True, enqueue (reading c 0) m i (retry_delay (attempts r)) ?d)"
      using True assms(2) acc job by (simp add: fail_job_def Let_def fail_row_def)
    moreover have "1 \<le> attempts r" using ok assms(4) by (simp add: job_ok_def live_def)
    ultimately show ?thesis using True retry_delay_bounds [of "attempts r"] i job ob
      by (simp add: job_by_id_enqueue fail_row_def dispatch_row_def Let_def)
  next
    case False
    then have "fail_job cfg c m i (lease_owner r) e retryable d = (True, ?d)"
      using assms(2) acc job by (auto simp: fail_job_def Let_def fail_row_def)
    with False job ob show ?thesis by (auto simp: fail_row_def Let_def)
  qed
qed

text \<open>A broker-mode run: a job queued, announced, admitted and delivered.\<close>

definition delivered_run :: "(clock \<times> store_call) list" where
  "delivered_run = [
     (at_time 0, CReserve (demo_uuid CHR ''1'') (demo_request [])),
     (at_time 1, CQueued (demo_uuid CHR ''2'') (demo_uuid CHR ''1'')),
     (at_time 2, CPublish (\<lambda>_. False) (\<lambda>_ _. True)),
     (at_time 3, CReport ''gpu'' ''slot-1'' True),
     (at_time 4, CRegister ''gpu'' ''slot-1''),
     (at_time 5, CBegin (demo_uuid CHR ''3'') ''gpu'' ''slot-1'' (demo_uuid CHR ''1'')
        (demo_uuid CHR ''2'') ''delivery-1'')]"

definition delivered_sys :: sys where
  "delivered_sys = run_calls demo_hash (demo_cfg Rabbitmq) init_sys delivered_run"

lemma delivered_sys_reachable: "(store_step demo_hash (demo_cfg Rabbitmq))\<^sup>*\<^sup>* init_sys delivered_sys"
proof -
  have "run_ok demo_hash (demo_cfg Rabbitmq) init_sys delivered_run" by code_simp
  then show ?thesis unfolding delivered_sys_def by (rule run_calls_steps)
qed

lemma delivered_tables_ok: "tables_ok (sdb delivered_sys)"
  using reachable_sys_ok [OF delivered_sys_reachable demo_budget] by (simp add: sys_ok_def)

lemma delivered_job:
  "\<exists>r. job_by_id (demo_uuid CHR ''1'') (sdb delivered_sys) = Some r \<and> live 6 r \<and> attempts r = 1 \<and>
    max_attempts r = 3 \<and> dispatch_id r = demo_uuid CHR ''2'' \<and> delivery_id r = ''delivery-1'' \<and>
    lease_owner r = new_lease ''gpu'' (demo_uuid CHR ''3'') \<and>
    assigned_worker_id r = ''gpu'' \<and> assigned_instance_id r = ''slot-1'' \<and> status r = Running"
proof -
  have "map_option (\<lambda>r. (live 6 r, attempts r, max_attempts r, dispatch_id r, delivery_id r, lease_owner r,
      assigned_worker_id r, assigned_instance_id r, status r)) (job_by_id (demo_uuid CHR ''1'') (sdb delivered_sys)) =
    Some (True, 1, 3, demo_uuid CHR ''2'', ''delivery-1'', new_lease ''gpu'' (demo_uuid CHR ''3''),
      ''gpu'', ''slot-1'', Running)"
    by code_simp
  then show ?thesis by auto
qed

lemma demo_rabbit: "queue_backend (demo_cfg Rabbitmq) = Rabbitmq"
  by (simp add: demo_cfg_def)

theorem failure_is_retried_within_budget_witness:
  "\<exists>r r' d'. job_by_id (demo_uuid CHR ''1'') (sdb delivered_sys) = Some r \<and>
    fail_job (demo_cfg Rabbitmq) (at_time 6) (demo_uuid CHR ''4'') (demo_uuid CHR ''1'') (lease_owner r)
      ''boom'' True (sdb delivered_sys) = (True, d') \<and>
    job_by_id (demo_uuid CHR ''1'') d' = Some r' \<and> status r' = Queued \<and> dispatch_id r' = demo_uuid CHR ''4''"
proof -
  obtain r where r: "job_by_id (demo_uuid CHR ''1'') (sdb delivered_sys) = Some r" "live 6 r"
    "attempts r = 1" "max_attempts r = 3" using delivered_job by blast
  have "live (tx_now (at_time 6)) r" using r(2) by (simp add: at_time_def)
  from failure_is_retried_within_budget [OF delivered_tables_ok demo_rabbit r(1) this,
      of "''boom''" True "demo_uuid CHR ''4''"] r
  show ?thesis by (auto split: prod.splits)
qed

section \<open>Every waiting job has its message\<close>

text \<open>A job in the queue names a message, and the outbox holds that message for that job.\<close>

definition has_message :: "db \<Rightarrow> job \<Rightarrow> bool" where
  "has_message d r \<longleftrightarrow> dispatch_id r \<noteq> [] \<and>
     (\<exists>x \<in> set (outbox d). message_id x = dispatch_id r \<and> ox_job_id x = job_id r)"

definition dispatched :: "db \<Rightarrow> bool" where
  "dispatched d \<longleftrightarrow> (\<forall>r \<in> set (jobs d). in_queue (status r) \<longrightarrow> has_message d r)"

text \<open>Messages are kept, up to the time of their publication.\<close>

definition keeps_messages :: "db \<Rightarrow> db \<Rightarrow> bool" where
  "keeps_messages d d' \<longleftrightarrow> (\<forall>x \<in> set (outbox d). \<exists>y \<in> set (outbox d').
     message_id y = message_id x \<and> ox_job_id y = ox_job_id x)"

lemma keeps_messages_same: "set (outbox d) \<subseteq> set (outbox d') \<Longrightarrow> keeps_messages d d'"
  by (auto simp: keeps_messages_def)

lemma dispatched_update:
  assumes "dispatched d" and "keeps_messages d d'"
    and "\<And>r'. r' \<in> set (jobs d') \<Longrightarrow> in_queue (status r') \<Longrightarrow> \<exists>r \<in> set (jobs d).
      in_queue (status r) \<and> dispatch_id r' = dispatch_id r \<and> job_id r' = job_id r"
  shows "dispatched d'"
  unfolding dispatched_def has_message_def
proof (intro ballI impI)
  fix r'
  assume "r' \<in> set (jobs d')" and "in_queue (status r')"
  from assms(3) [OF this] obtain r where r: "r \<in> set (jobs d)" "in_queue (status r)"
    "dispatch_id r' = dispatch_id r" "job_id r' = job_id r" by blast
  with assms(1) have m: "has_message d r" by (simp add: dispatched_def)
  then obtain x where "x \<in> set (outbox d)" "message_id x = dispatch_id r" "ox_job_id x = job_id r"
    by (auto simp: has_message_def)
  with assms(2) r m show "dispatch_id r' \<noteq> [] \<and>
      (\<exists>x \<in> set (outbox d'). message_id x = dispatch_id r' \<and> ox_job_id x = job_id r')"
    unfolding keeps_messages_def has_message_def by metis
qed

lemma dispatched_frame:
  "dispatched d \<Longrightarrow> jobs e = jobs d \<Longrightarrow> outbox e = outbox d \<Longrightarrow> dispatched e"
  by (simp add: dispatched_def has_message_def)

text \<open>A row update that puts no job into the queue and keeps the messages of those in it.\<close>

lemma dispatched_rows:
  assumes "dispatched d"
    and "\<And>r. P r \<Longrightarrow> in_queue (status (f r)) \<Longrightarrow>
      in_queue (status r) \<and> dispatch_id (f r) = dispatch_id r \<and> job_id (f r) = job_id r"
  shows "dispatched (update_jobs now P f d)" and "dispatched (update_jobs_quiet P f d)"
proof -
  have row: "\<exists>r \<in> set (jobs d). in_queue (status r) \<and> dispatch_id r' = dispatch_id r \<and> job_id r' = job_id r"
    if r': "r' = trigger_row now x (f x) \<or> r' = f x" and "P x" "x \<in> set (jobs d)" "in_queue (status r')" for r' x
  proof -
    have "in_queue (status (f x))" using r' that(4) by auto
    with assms(2) [OF that(2)] r' that(3) show ?thesis by (intro bexI [of _ x]) auto
  qed
  show "dispatched (update_jobs now P f d)"
    by (rule dispatched_update [OF assms(1) keeps_messages_same])
      (auto simp: set_update_where split: if_splits intro: row)
  show "dispatched (update_jobs_quiet P f d)"
    by (rule dispatched_update [OF assms(1) keeps_messages_same])
      (auto simp: set_update_where split: if_splits intro: row)
qed

text \<open>A job may be put into the queue if its message is added with it.\<close>

lemma dispatched_enqueue:
  assumes "dispatched d" and "m \<noteq> []"
    and "\<And>r. in_queue (status (f r)) \<Longrightarrow> P r \<Longrightarrow> job_id r = i \<or>
      (in_queue (status r) \<and> dispatch_id (f r) = dispatch_id r)"
    and "\<And>r. job_id (f r) = job_id r"
  shows "dispatched (enqueue clk m i delay (update_jobs now P f d))"
  unfolding dispatched_def
proof (intro ballI impI)
  let ?d = "enqueue clk m i delay (update_jobs now P f d)"
  fix r'
  assume r': "r' \<in> set (jobs ?d)" and q: "in_queue (status r')"
  have js: "jobs ?d = update_where (by_id i) (dispatch_row m) (jobs (update_jobs now P f d))"
    by (simp add: enqueue_def sql_outbox_insert_def sql_dispatch_def)
  show "has_message ?d r'"
  proof (cases "job_id r' = i")
    case True
    from r' obtain y where "r' = (if by_id i y then dispatch_row m y else y)"
      unfolding js set_update_where by blast
    with True have "dispatch_id r' = m" by (simp add: by_id_def dispatch_row_def split: if_splits)
    with True assms(2) show ?thesis by (simp add: has_message_def)
  next
    case False
    from r' obtain y where y: "y \<in> set (jobs (update_jobs now P f d))"
        "r' = (if by_id i y then dispatch_row m y else y)"
      unfolding js set_update_where by blast
    have "r' = y" using False y(2) by (cases "by_id i y") (simp_all add: by_id_def dispatch_row_def)
    with y obtain r where r: "r \<in> set (jobs d)" "r' = (if P r then trigger_row now r (f r) else r)"
      unfolding update_jobs_sel set_update_where by blast
    have "in_queue (status r) \<and> dispatch_id r' = dispatch_id r \<and> job_id r' = job_id r"
    proof (cases "P r")
      case True
      with r q False assms(3) [of r] assms(4) [of r] show ?thesis by auto
    qed (use r q in simp)
    with assms(1) r(1) have "has_message d r" "dispatch_id r' = dispatch_id r" "job_id r' = job_id r"
      by (simp_all add: dispatched_def)
    then show ?thesis by (auto simp: has_message_def)
  qed
qed

lemma dispatched_seed:
  assumes "\<And>r. r \<in> set (jobs d) \<Longrightarrow> in_queue (status r) \<Longrightarrow> dispatch_id r \<noteq> [] \<Longrightarrow> has_message d r"
    and "\<And>r. r \<in> set (jobs d) \<Longrightarrow> gen (job_id r) \<noteq> []"
  shows "dispatched (sql_broker_seed gen d)"
  unfolding dispatched_def
proof (intro ballI impI)
  fix r'
  assume r': "r' \<in> set (jobs (sql_broker_seed gen d))" and q: "in_queue (status r')"
  then obtain r where r: "r \<in> set (jobs d)" "r' = (if seed_sel r then seed_row gen r else r)"
    by (auto simp: sql_broker_seed_def set_update_where)
  show "has_message (sql_broker_seed gen d) r'"
  proof (cases "seed_sel r")
    case True
    let ?x = "\<lparr>message_id = gen (job_id r), ox_job_id = job_id r, available_at = created_at r,
      published_at = None\<rparr>"
    have "?x \<in> set (outbox (sql_broker_seed gen d))"
      using True r(1) by (auto simp: select_jobs_def sql_broker_seed_def)
    moreover have "dispatch_id r' = gen (job_id r)" "job_id r' = job_id r"
      using True r(2) by (simp_all add: seed_row_def)
    ultimately show ?thesis using assms(2) [OF r(1)] unfolding has_message_def
      by (intro conjI bexI [of _ ?x]) simp_all
  next
    case False
    with r q have "dispatch_id r \<noteq> []" by (auto simp: seed_sel_def)
    with False r q assms(1) show ?thesis by (auto simp: has_message_def sql_broker_seed_def)
  qed
qed

lemma canonical_nonempty: "canonical_uuid u \<Longrightarrow> u \<noteq> []"
  by (auto simp: canonical_uuid_def)

lemma dispatched_begin:
  assumes "tables_ok d" and "dispatched d"
  shows "dispatched (snd (begin_attempt cfg c u w inst i m delivery d))"
proof (cases "job_by_id i d")
  case None
  then show ?thesis using assms by (simp add: begin_attempt_def)
next
  case (Some r)
  then have r: "r \<in> set (jobs d)" "job_id r = i" using job_by_id_Some by auto
  have ex: "dispatched (sql_broker_exhausted now i d)" for now
    unfolding sql_broker_exhausted_def
    by (rule dispatched_rows(1) [OF assms(2)]) (simp add: exhausted_row_def in_queue_def)
  have start: "dispatched (sql_broker_start now clk owner lease w inst delivery i d)"
    if "in_queue (status r)" "attempts r < max_attempts r" for now clk owner lease
    using by_id_startable [OF assms(1) r(1) that] r(2)
    by (simp add: sql_broker_start_def)
      (rule dispatched_rows(1) [OF assms(2)]; simp add: startable_id_def broker_start_row_def)
  show ?thesis using Some r(2) ex start assms(2)
    by (auto simp: begin_attempt_def start_delivery_def Let_def split: option.split)
qed

lemma dispatched_mark_queued:
  assumes "dispatched d" and "m \<noteq> []" and "queue_backend cfg = Rabbitmq"
  shows "dispatched (snd (mark_queued cfg c m i d))"
proof (cases "select_jobs (upload_sel i) d")
  case Nil
  then have "update_jobs now (upload_sel i) f d = d" for now f
    by (intro update_jobs_none(1)) (simp add: select_jobs_def filter_empty_conv)
  with Nil assms(1) show ?thesis by (simp add: mark_queued_def)
next
  case (Cons r rs)
  have "dispatched (enqueue clk m i 0 (update_jobs now (upload_sel i) (queued_row now) d))" for clk now
    by (rule dispatched_enqueue [OF assms(1,2)]) (simp_all add: upload_sel_def queued_row_def)
  with Cons assms(3) show ?thesis by (simp add: mark_queued_def Let_def)
qed

text \<open>A statement that names one job selects that job, or no row at all.\<close>

lemma one_row_sel:
  assumes "tables_ok d" and "\<And>r. P r \<Longrightarrow> job_id r = i"
  shows "one_row P d \<longleftrightarrow> (\<exists>r. job_by_id i d = Some r \<and> P r)"
proof -
  have "P = (\<lambda>r. job_id r = i \<and> P r)" using assms(2) by (auto simp: fun_eq_iff)
  then have "one_row P d = one_row (\<lambda>r. job_id r = i \<and> P r) d" by simp
  then show ?thesis by (simp only: one_row_id [OF assms(1)])
qed

lemma no_row_sel:
  assumes "tables_ok d" and "\<And>r. P r \<Longrightarrow> job_id r = i" and "\<not> one_row P d" and "r \<in> set (jobs d)"
  shows "\<not> P r"
proof
  assume "P r"
  then have "job_by_id i d = Some r"
    using job_by_id_mem [OF tables_okD(1) [OF assms(1)] assms(4)] assms(2) by simp
  with assms(3) one_row_sel [OF assms(1,2)] \<open>P r\<close> show False by blast
qed

lemma dispatched_fail:
  assumes "tables_ok d" and "dispatched d" and "m \<noteq> []" and "queue_backend cfg = Rabbitmq"
  shows "dispatched (snd (fail_job cfg c m i owner e retryable d))"
proof -
  let ?sel = "fail_sel i owner (tx_now c)" and ?f = "fail_row (tx_now c) retryable e"
  let ?d = "sql_fail (tx_now c) retryable e i owner d"
  have sel: "?sel x \<Longrightarrow> job_id x = i" for x by (simp add: fail_sel_def)
  have id: "job_id (?f x) = job_id x" for x by (simp add: fail_row_def Let_def)
  show ?thesis
  proof (cases "one_row ?sel d")
    case False
    have "?d = d" unfolding sql_fail_def
      by (rule update_jobs_none(1)) (rule no_row_sel [OF assms(1) sel False])
    with False assms(2) show ?thesis by (simp add: fail_job_def Let_def)
  next
    case True
    then obtain r where r: "job_by_id i d = Some r" "?sel r"
      using one_row_sel [OF assms(1) sel] by blast
    have job: "job_by_id i ?d = Some (trigger_row (tx_now c) r (?f r))"
      unfolding sql_fail_def using r by (simp add: job_by_id_update_jobs id)
    have q: "dispatched (enqueue clk m i delay ?d)" for clk delay
      unfolding sql_fail_def
      by (rule dispatched_enqueue [OF assms(2,3) _ id]) (simp add: fail_sel_def)
    show ?thesis
    proof (cases "status (?f r) = Queued")
      case True
      with job q \<open>one_row ?sel d\<close> assms(4) show ?thesis by (simp add: fail_job_def Let_def)
    next
      case False
      have "snd (fail_job cfg c m i owner e retryable d) = ?d"
        using False job by (simp add: fail_job_def Let_def)
      moreover have "dispatched ?d"
      proof (rule dispatched_update [OF assms(2) keeps_messages_same])
        fix r'
        assume r': "r' \<in> set (jobs ?d)" and iq: "in_queue (status r')"
        then obtain y where y: "y \<in> set (jobs d)"
            "r' = (if ?sel y then trigger_row (tx_now c) y (?f y) else y)"
          unfolding sql_fail_def update_jobs_sel set_update_where by blast
        have "\<not> ?sel y"
        proof
          assume s: "?sel y"
          then have "y = r" using job_by_id_mem [OF tables_okD(1) [OF assms(1)] y(1)] r
            by (simp add: fail_sel_def)
          with y(2) s iq False show False by (simp add: fail_row_def Let_def in_queue_def split: if_splits)
        qed
        with y iq show "\<exists>x \<in> set (jobs d). in_queue (status x) \<and> dispatch_id r' = dispatch_id x \<and>
            job_id r' = job_id x" by auto
      qed (simp add: sql_fail_def)
      ultimately show ?thesis by simp
    qed
  qed
qed

lemma dispatched_reserve:
  assumes "dispatched d"
  shows "dispatched (snd (reserve_upload h cfg now i q d))"
proof -
  have row: "dispatched (snd (reserve_row cfg now i q e))" if "dispatched e" for e
  proof -
    have "dispatched (snd (create_job cfg now i q e))"
      using that by (auto simp: create_job_def Let_def dispatched_def has_message_def new_job_def in_queue_def)
    with that show ?thesis
      by (auto simp: reserve_row_def split: option.split prod.split sum.split)
  qed
  define d1 where "d1 = (if rq_request_id q = [] then d
      else d\<lparr>upload_locks := h (rq_request_id q) # upload_locks d\<rparr>)"
  have "dispatched d1" by (rule dispatched_frame [OF assms]) (simp_all add: d1_def)
  note r1 = row [OF this]
  have "dispatched (release_upload h rid (snd (reserve_row cfg now i q d1)))" for rid
    by (rule dispatched_frame [OF r1]) (simp_all add: release_upload_def)
  with r1 assms show ?thesis
    by (auto simp: reserve_upload_def Let_def d1_def [symmetric] split: prod.split sum.split)
qed

lemma dispatched_publish:
  assumes "dispatched d"
  shows "dispatched (snd (snd (publish_next lk c publish d)))"
proof -
  have "keeps_messages d (sql_outbox_published now m d)" for now m
    unfolding keeps_messages_def
  proof
    fix x
    assume x: "x \<in> set (outbox d)"
    let ?y = "if message_id x = m then x\<lparr>published_at := Some now\<rparr> else x"
    have "?y \<in> set (outbox (sql_outbox_published now m d))"
      using x by (auto simp: sql_outbox_published_def set_update_where)
    then show "\<exists>y \<in> set (outbox (sql_outbox_published now m d)).
        message_id y = message_id x \<and> ox_job_id y = ox_job_id x"
      by (rule bexI [rotated]) simp
  qed
  then have "dispatched (sql_outbox_published now m d)" for now m
    by (rule dispatched_update [OF assms]) (auto simp: sql_outbox_published_def)
  with assms show ?thesis by (simp add: publish_next_def split: option.split)
qed

lemma dispatched_cleanup:
  assumes "tables_ok d" and "dispatched d"
  shows "dispatched (fst (snd (cleanup_expired_jobs now ttl d f)))"
proof -
  let ?d = "sql_reap now d"
  have ok: "tables_ok ?d" by (rule keeps_ok [OF keeps_reap [OF assms(1)]])
  have dd: "dispatched ?d" unfolding sql_reap_def
    by (rule dispatched_rows(1) [OF assms(2)]) (simp add: exhausted_row_def in_queue_def)
  have "dispatched (snd (sql_cleanup now ttl ?d))"
    unfolding dispatched_def
  proof (intro ballI impI)
    fix r
    assume "r \<in> set (jobs (snd (sql_cleanup now ttl ?d)))" and q: "in_queue (status r)"
    then have r: "r \<in> set (jobs ?d)" "\<not> expired_sel now ttl r" by (auto simp: sql_cleanup_def Let_def)
    with dd q obtain x where x: "dispatch_id r \<noteq> []" "x \<in> set (outbox ?d)"
      "message_id x = dispatch_id r" "ox_job_id x = job_id r" by (auto simp: dispatched_def has_message_def)
    have "job_id r \<notin> job_id ` set (select_jobs (expired_sel now ttl) ?d)"
    proof
      assume "job_id r \<in> job_id ` set (select_jobs (expired_sel now ttl) ?d)"
      then obtain y where y: "y \<in> set (jobs ?d)" "expired_sel now ttl y" "job_id r = job_id y"
        by (auto simp: select_jobs_def)
      from distinct_key_eq [OF tables_okD(1) [OF ok] r(1) y(1) y(3)] y(2) r(2) show False by simp
    qed
    with x have "x \<in> set (outbox (snd (sql_cleanup now ttl ?d)))" by (simp add: sql_cleanup_def Let_def)
    with x show "has_message (snd (sql_cleanup now ttl ?d)) r" unfolding has_message_def by blast
  qed
  then show ?thesis by (simp add: cleanup_expired_jobs_def split_beta)
qed

lemma dispatched_reconcile:
  assumes "dispatched d" and "\<And>r. r \<in> set (jobs d) \<Longrightarrow> gen (job_id r) \<noteq> [] \<and> gen' (job_id r) \<noteq> []"
    and "queue_backend cfg = Rabbitmq" and "reconcile_main cfg [] gen gen' clk d = Inr d'"
  shows "dispatched d'"
proof -
  let ?d1 = "sql_broker_seed gen d" and ?d2 = "sql_broker_reconcile clk (sql_broker_seed gen d)"
  have "map job_id (jobs ?d2) = map job_id (jobs d)"
    by (simp add: sql_broker_reconcile_def sql_broker_seed_def map_update_where dispatch_row_def seed_row_def)
  then have ids: "job_id ` set (jobs ?d2) = job_id ` set (jobs d)" by (metis set_map)
  have d1: "dispatched ?d1"
    using assms(1,2) by (intro dispatched_seed) (auto simp: dispatched_def)
  have "has_message ?d2 r'"
    if "r' \<in> set (jobs ?d2)" "in_queue (status r')" "dispatch_id r' \<noteq> []" for r'
  proof -
    have "\<exists>y \<in> set (jobs ?d1). r' = (if reconcile_sel clk y then dispatch_row [] y else y)"
      using that(1) unfolding sql_broker_reconcile_def update_jobs_quiet_sel set_update_where by blast
    with that(3) have "r' \<in> set (jobs ?d1)" by (auto simp: dispatch_row_def split: if_splits)
    with d1 that(2) show ?thesis by (auto simp: dispatched_def has_message_def sql_broker_reconcile_def)
  qed
  moreover have "gen' (job_id r') \<noteq> []" if "r' \<in> set (jobs ?d2)" for r'
  proof -
    have "job_id r' \<in> job_id ` set (jobs d)" using that ids by blast
    with assms(2) show ?thesis by auto
  qed
  ultimately have "dispatched (sql_broker_seed gen' ?d2)" by (rule dispatched_seed)
  with assms(3,4) show ?thesis by (simp add: reconcile_main_def init_schema_def)
qed

lemma dispatched_call:
  assumes "tables_ok d" and "dispatched d" and "queue_backend cfg = Rabbitmq"
    and "list_all canonical_uuid (call_uuids d k)"
  shows "dispatched (apply_call h cfg c k d)"
proof (cases k)
  case (CReserve u q)
  then show ?thesis using dispatched_reserve [OF assms(2)] by simp
next
  case (CRelease rid)
  then show ?thesis using dispatched_frame [OF assms(2)] by (simp add: release_upload_def)
next
  case (CDownloading i)
  then show ?thesis
    by (simp add: mark_downloading_def update_status_def)
      (rule dispatched_rows(1) [OF assms(2)]; simp add: status_row_def in_queue_def)
next
  case (CInterrupted i)
  then show ?thesis
    by (simp add: mark_upload_interrupted_def sql_upload_interrupted_def)
      (rule dispatched_rows(2) [OF assms(2)]; simp add: interrupted_row_def)
next
  case (CQueued m i)
  then show ?thesis using dispatched_mark_queued [OF assms(2) canonical_nonempty assms(3)] assms(4) by simp
next
  case (CAcknowledge i)
  then show ?thesis
    by (simp add: acknowledge_job_def sql_ack_def)
      (rule dispatched_rows(2) [OF assms(2)]; simp add: ack_row_def)
next
  case (CPublish lk publish)
  then show ?thesis using dispatched_publish [OF assms(2)] by simp
next
  case (CRegister w inst)
  show ?thesis
    by (rule dispatched_frame [OF assms(2)]; simp add: CRegister register_consumer_def
        sql_broker_admit_def Let_def split: option.split prod.split bool.split)
next
  case (CBegin u w inst i m delivery)
  then show ?thesis using dispatched_begin [OF assms(1,2)] by simp
next
  case (CCancel i)
  then show ?thesis
    by (simp add: cancel_job_def)
      (rule dispatched_rows(1) [OF assms(2)]; simp add: cancel_row_def in_queue_def)
next
  case (CReport w inst ready)
  show ?thesis
    by (rule dispatched_frame [OF assms(2)]; simp add: CReport report_availability_def
        sql_report_availability_def sql_cleanup_availability_def Let_def)
next
  case (CClaim lk u w fallback inst)
  then show ?thesis using assms(2,3) by (simp add: claim_next_job_def)
next
  case (CHeartbeat i owner prog)
  then show ?thesis
    by (simp add: heartbeat_def sql_heartbeat_def)
      (rule dispatched_rows(2) [OF assms(2)]; simp add: heartbeat_row_def)
next
  case (CComplete i owner res segs path)
  then show ?thesis
    by (simp add: complete_job_def sql_complete_def)
      (rule dispatched_rows(1) [OF assms(2)]; simp add: complete_row_def in_queue_def)
next
  case (CFail m i owner e retryable)
  then show ?thesis using dispatched_fail [OF assms(1,2) canonical_nonempty assms(3)] assms(4) by simp
next
  case (CCleanup ttl)
  then show ?thesis using dispatched_cleanup [OF assms(1,2)] by simp
next
  case (CReconcile gen gen')
  have "gen (job_id r) \<noteq> [] \<and> gen' (job_id r) \<noteq> []" if "r \<in> set (jobs d)" for r
    using assms(4) CReconcile that by (auto simp: list_all_iff canonical_nonempty)
  then have "dispatched d'" if "reconcile_main cfg [] gen gen' (reading c 0) d = Inr d'" for d'
    using dispatched_reconcile [OF assms(2) _ assms(3) that] by blast
  with CReconcile assms(2) show ?thesis by (simp split: sum.split)
qed

definition dispatched_inv :: "store_config \<Rightarrow> sys \<Rightarrow> bool" where
  "dispatched_inv cfg s \<longleftrightarrow> queue_backend cfg = Rabbitmq \<and> 0 < default_max_attempts cfg \<longrightarrow>
     sys_ok s \<and> dispatched (sdb s)"

interpretation dispatched_sys: transition_invariant "\<lambda>s. s = init_sys" "store_step h cfg"
  "dispatched_inv cfg"
proof (unfold_locales, goal_cases)
  case (1 s)
  then show ?case using reachable_sys_ok [of undefined cfg init_sys]
    by (simp add: dispatched_inv_def) (simp add: init_sys_def empty_db_def dispatched_def)
next
  case (2 s t)
  show ?case
    unfolding dispatched_inv_def
  proof
    assume cfg: "queue_backend cfg = Rabbitmq \<and> 0 < default_max_attempts cfg"
    with 2(2) have s: "sys_ok s" "dispatched (sdb s)" by (simp_all add: dispatched_inv_def)
    from 2(1) have "dispatched (sdb t)"
    proof (cases rule: store_step.cases)
      case (call c k)
      with dispatched_call [of "sdb s" cfg k h c] s cfg show ?thesis
        by (simp add: sys_ok_def fresh_uuids_def)
    qed (use s in simp)
    with store_step_keeps [OF 2(1) conjunct2 [OF cfg] s(1)] show "sys_ok t \<and> dispatched (sdb t)" by blast
  qed
qed

text \<open>
  C5: in broker mode no waiting job is ever without its message. In every reachable state each
  queued or running job names a message, and the outbox holds that message for that job: what
  a crash of the broker loses can be announced again from the database alone.
\<close>

theorem waiting_jobs_have_messages:
  assumes "(store_step h cfg)\<^sup>*\<^sup>* init_sys s" and "queue_backend cfg = Rabbitmq"
    and "0 < default_max_attempts cfg" and "r \<in> set (jobs (sdb s))" and "in_queue (status r)"
  shows "dispatch_id r \<noteq> [] \<and>
    (\<exists>x \<in> set (outbox (sdb s)). message_id x = dispatch_id r \<and> ox_job_id x = job_id r)"
  using dispatched_sys.reachable_inv [OF refl assms(1)] assms(2-)
  by (simp add: dispatched_inv_def dispatched_def has_message_def)

theorem waiting_jobs_have_messages_witness:
  "\<exists>x \<in> set (outbox (sdb delivered_sys)). ox_job_id x = demo_uuid CHR ''1'' \<and>
    message_id x = demo_uuid CHR ''2''"
proof -
  obtain r where r: "job_by_id (demo_uuid CHR ''1'') (sdb delivered_sys) = Some r"
    "dispatch_id r = demo_uuid CHR ''2''" "status r = Running" using delivered_job by blast
  with job_by_id_Some [OF r(1)]
    waiting_jobs_have_messages [OF delivered_sys_reachable demo_rabbit demo_budget, of r]
  show ?thesis by (auto simp: in_queue_def)
qed

end
