(* ===== verification/Delivery.thy ===== *)
theory Delivery
  imports BrokerMode
begin

text \<open>
  Deliveries of a job's message to a consumer, and the recovery command that announces every
  waiting job again.
\<close>

section \<open>Deliveries\<close>

text \<open>The row of an attempt that a delivery started, or found started by itself.\<close>

definition attempt_of :: "string \<Rightarrow> string \<Rightarrow> string \<Rightarrow> string \<Rightarrow> job \<Rightarrow> bool" where
  "attempt_of w inst m delivery r \<longleftrightarrow> status r = Running \<and> dispatch_id r = m \<and>
     delivery_id r = delivery \<and> assigned_worker_id r = w \<and> assigned_instance_id r = inst"

lemma job_by_id_update_by_id:
  assumes "job_by_id i d = Some r" and "\<And>x. job_id (f x) = job_id x"
  shows "job_by_id i (update_jobs now (by_id i) f d) = Some (trigger_row now r (f r))"
  using job_by_id_Some [OF assms(1)] assms by (simp add: job_by_id_update_jobs by_id_def)

lemma started_attempt:
  assumes "begin_attempt cfg c u w inst i m delivery d = ((Started, Some j), d')"
  shows "\<exists>r. job_by_id i d' = Some r \<and> j = claimed_of (lease_owner r) r \<and>
    attempt_of w inst m delivery r"
proof (cases "job_by_id i d")
  case None
  with assms show ?thesis by (simp add: begin_attempt_def)
next
  case (Some r)
  then have i: "job_id r = i" using job_by_id_Some by auto
  show ?thesis
  proof (cases "live (reading c 0) r")
    case True
    with assms Some show ?thesis
      by (auto simp: begin_attempt_def attempt_of_def live_def split: if_splits)
  next
    case False
    let ?f = "broker_start_row (tx_now c) (reading c 2) (new_lease w u) (lease_seconds cfg) w inst delivery"
    have id: "job_id (?f x) = job_id x" for x by (simp add: broker_start_row_def)
    have m: "dispatch_id r = m"
      and start: "start_delivery cfg c u w inst delivery r d = ((Started, Some j), d')"
      using assms Some False by (auto simp: begin_attempt_def split: if_splits)
    have d': "d' = update_jobs (tx_now c) (by_id i) ?f d"
      and j: "map_option (claimed_of (new_lease w u)) (job_by_id i d') = Some j"
      using start i by (auto simp: start_delivery_def Let_def sql_broker_start_def
          split: option.splits if_splits)
    have job: "job_by_id i d' = Some (trigger_row (tx_now c) r (?f r))"
      unfolding d' by (rule job_by_id_update_by_id [OF Some id])
    with j m show ?thesis by (auto simp: attempt_of_def broker_start_row_def)
  qed
qed

text \<open>
  C10: a redelivered message never starts a second attempt. After a delivery has started a job,
  and for as long as that lease lasts, the same delivery presented again by the same slot gets
  the same claim with the same token, any other delivery of the message is told that the job is
  busy, another message for the job is discarded, and none of them changes anything.
\<close>

theorem redelivery_is_idempotent:
  assumes "begin_attempt cfg c u w inst i m delivery d = ((Started, Some j), d')"
    and "claimed_expires_at j = Some e" and "reading c' 0 < e"
  shows "begin_attempt cfg c' u' w' inst' i m' delivery' d' =
    ((if m' \<noteq> m then (Discard, None)
      else if w' = w \<and> inst' = inst \<and> delivery' = delivery then (Started, Some j)
      else (Busy, None)), d')"
proof -
  from started_attempt [OF assms(1)] obtain r where r: "job_by_id i d' = Some r"
    "j = claimed_of (lease_owner r) r" "attempt_of w inst m delivery r" by blast
  then have "live (reading c' 0) r" "\<not> terminal (status r)"
    using assms(2,3) by (simp_all add: attempt_of_def live_def claimed_of_def terminal_def)
  with r show ?thesis by (auto simp: begin_attempt_def attempt_of_def)
qed

definition announced_sys :: sys where
  "announced_sys = run_calls demo_hash (demo_cfg Rabbitmq) init_sys (butlast delivered_run)"

theorem redelivery_is_idempotent_witness:
  "\<exists>j d'. begin_attempt (demo_cfg Rabbitmq) (at_time 5) (demo_uuid CHR ''3'') ''gpu'' ''slot-1''
      (demo_uuid CHR ''1'') (demo_uuid CHR ''2'') ''delivery-1'' (sdb announced_sys) = ((Started, Some j), d') \<and>
    begin_attempt (demo_cfg Rabbitmq) (at_time 6) (demo_uuid CHR ''4'') ''cpu'' ''slot-9''
      (demo_uuid CHR ''1'') (demo_uuid CHR ''2'') ''delivery-2'' d' = ((Busy, None), d')"
proof -
  let ?b = "begin_attempt (demo_cfg Rabbitmq) (at_time 5) (demo_uuid CHR ''3'') ''gpu'' ''slot-1''
      (demo_uuid CHR ''1'') (demo_uuid CHR ''2'') ''delivery-1'' (sdb announced_sys)"
  have "(case fst ?b of (Started, Some j) \<Rightarrow> claimed_expires_at j | _ \<Rightarrow> None) = Some (5 + 900 * 1000000)"
    by code_simp
  then obtain j d' where b: "?b = ((Started, Some j), d')" "claimed_expires_at j = Some (5 + 900 * 1000000)"
    by (cases ?b) (auto split: prod.splits disposition.splits option.splits)
  have "reading (at_time 6) 0 < 5 + 900 * 1000000" by (simp add: at_time_def)
  from redelivery_is_idempotent [OF b this, of "demo_uuid CHR ''4''" "''cpu''" "''slot-9''"
      "demo_uuid CHR ''2''" "''delivery-2''"] b show ?thesis by auto
qed

section \<open>The outbox\<close>

text \<open>
  Messages are published at least once and in order. A publication either hands the broker
  the oldest due message that no other publisher holds, and marks exactly that message once the
  broker has confirmed it; or it raises and leaves every table as it was, so that the message is
  still due; or it reports that nothing is due. No message is ever removed, or marked unconfirmed.
\<close>

theorem publish_confirms_then_marks:
  assumes "publish_next lk c publish d = (res, sent, d')"
  shows "case res of
      Inl e \<Rightarrow> sent = None \<and> d' = d \<and> (\<exists>x \<in> set (outbox d). published_at x = None \<and> available_at x \<le> reading c 0)
    | Inr False \<Rightarrow> sent = None \<and> d' = d \<and>
        (\<forall>x \<in> set (outbox d). published_at x = None \<and> available_at x \<le> reading c 0 \<longrightarrow> lk (message_id x))
    | Inr True \<Rightarrow> \<exists>x \<in> set (outbox d). sent = Some (ox_job_id x, message_id x) \<and>
        publish (ox_job_id x) (message_id x) \<and> published_at x = None \<and> available_at x \<le> reading c 0 \<and>
        \<not> lk (message_id x) \<and>
        (\<forall>y \<in> set (outbox d). published_at y = None \<and> available_at y \<le> reading c 0 \<and> \<not> lk (message_id y) \<longrightarrow>
           (available_at x, message_id x) \<le> (available_at y, message_id y)) \<and>
        outbox d' = update_where (\<lambda>y. message_id y = message_id x) (\<lambda>y. y\<lparr>published_at := Some (tx_now c)\<rparr>) (outbox d) \<and>
        jobs d' = jobs d"
proof (cases "sql_outbox_next lk (reading c 0) d")
  case None
  then have "lk (message_id x)" if "x \<in> set (outbox d)" "published_at x = None" "available_at x \<le> reading c 0" for x
    using that by (force simp: sql_outbox_next_def filter_empty_conv)
  moreover have "res = Inr False" "sent = None" "d' = d"
    using None assms by (simp_all add: publish_next_def)
  ultimately show ?thesis by simp
next
  case (Some x)
  let ?due = "filter (\<lambda>x. published_at x = None \<and> available_at x \<le> reading c 0 \<and> \<not> lk (message_id x)) (outbox d)"
  have x: "x \<in> set ?due" using Some unfolding sql_outbox_next_def by (rule first_min_mem)
  have least: "(available_at x, message_id x) \<le> (available_at y, message_id y)" if "y \<in> set ?due" for y
    using first_min_le [OF Some [unfolded sql_outbox_next_def] that] .
  show ?thesis
  proof (cases "publish (ox_job_id x) (message_id x)")
    case True
    with assms Some x least show ?thesis
      by (auto simp: publish_next_def sql_outbox_published_def simp del: less_eq_prod_simp
          intro!: bexI [of _ x])
  next
    case False
    with assms Some x show ?thesis by (auto simp: publish_next_def)
  qed
qed

theorem publish_confirms_then_marks_witness:
  "\<exists>x \<in> set (outbox (sdb announced_sys)). published_at x = Some 2 \<and>
    fst (publish_next (\<lambda>_. False) (at_time 9) (\<lambda>_ _. True) (sdb announced_sys)) = Inr False \<and>
    fst (snd (publish_next (\<lambda>_. False) (at_time 9) (\<lambda>_ _. True) (sdb announced_sys))) = None"
proof -
  obtain res sent d' where p: "publish_next (\<lambda>_. False) (at_time 9) (\<lambda>_ _. True) (sdb announced_sys) = (res, sent, d')"
    by (metis prod_cases3)
  have "map published_at (outbox (sdb announced_sys)) = [Some 2]" by code_simp
  then obtain x where x: "outbox (sdb announced_sys) = [x]" "published_at x = Some 2"
    by (auto simp: map_eq_Cons_conv)
  from publish_confirms_then_marks [OF p] x have "res = Inr False \<and> sent = None"
    by (auto split: sum.splits bool.splits)
  with x p show ?thesis by auto
qed

section \<open>Recovery\<close>

lemma job_by_id_seed:
  "job_by_id i (sql_broker_seed gen d) =
    map_option (\<lambda>r. if seed_sel r then seed_row gen r else r) (job_by_id i d)"
proof -
  have "job_by_id i (update_jobs_quiet seed_sel (seed_row gen) d) =
      map_option (\<lambda>r. if seed_sel r then seed_row gen r else r) (job_by_id i d)"
    by (rule job_by_id_update_quiet) (simp add: seed_row_def)
  then show ?thesis by (simp add: sql_broker_seed_def job_by_id_def)
qed

lemma job_by_id_seeded:
  "job_by_id i d = Some r \<Longrightarrow> job_by_id i (sql_broker_seed gen d) = Some (if seed_sel r then seed_row gen r else r)"
  by (simp only: job_by_id_seed option.map)

lemma job_by_id_reconcile:
  "job_by_id i (sql_broker_reconcile clk d) =
    map_option (\<lambda>r. if reconcile_sel clk r then dispatch_row [] r else r) (job_by_id i d)"
  unfolding sql_broker_reconcile_def by (rule job_by_id_update_quiet) (simp add: dispatch_row_def)

lemma job_by_id_reconciled:
  "job_by_id i d = Some r \<Longrightarrow>
   job_by_id i (sql_broker_reconcile clk d) = Some (if reconcile_sel clk r then dispatch_row [] r else r)"
  by (simp only: job_by_id_reconcile option.map)

text \<open>
  C13: the recovery command rebuilds the queue from the database and disturbs nothing that runs.
  In broker mode, started in a state where every waiting job names a message, it leaves every
  job alone that is not waiting (in particular one running under an unexpired lease) and gives
  every other one (queued, or running with an expired lease) a new message, which the outbox
  holds unpublished and due; a delivery of the old message is from then on discarded without
  effect. In SQL mode it refuses to run.
\<close>

theorem recovery_announces_waiting_jobs:
  assumes "tables_ok d" and "dispatched d" and "queue_backend cfg = Rabbitmq"
    and "job_by_id i d = Some r" and "gen' i \<noteq> dispatch_id r"
    and "reconcile_main cfg [] gen gen' clk d = Inr d'"
  shows "(\<not> reconcile_sel clk r \<longrightarrow> job_by_id i d' = Some r) \<and>
    (live clk r \<longrightarrow> \<not> reconcile_sel clk r) \<and>
    (reconcile_sel clk r \<longrightarrow>
      job_by_id i d' = Some (r\<lparr>dispatch_id := gen' i\<rparr>) \<and>
      \<lparr>message_id = gen' i, ox_job_id = i, available_at = created_at r, published_at = None\<rparr> \<in> set (outbox d') \<and>
      begin_attempt cfg c u w inst i (dispatch_id r) delivery d' = ((Discard, None), d'))"
proof -
  let ?d1 = "sql_broker_seed gen d" and ?d2 = "sql_broker_reconcile clk (sql_broker_seed gen d)"
  have d': "d' = sql_broker_seed gen' ?d2"
    using assms(3,6) by (simp add: reconcile_main_def init_schema_def)
  have i: "job_id r = i" "r \<in> set (jobs d)" using job_by_id_Some [OF assms(4)] by auto
  have seeded: "\<not> seed_sel r" using assms(2) i(2) by (auto simp: seed_sel_def dispatched_def has_message_def)
  then have j1: "job_by_id i ?d1 = Some r" using job_by_id_seeded [OF assms(4), of gen] by simp
  note j2' = job_by_id_reconciled [OF j1, of clk]
  note j3' = job_by_id_seeded [OF j2', of gen', folded d']
  show ?thesis
  proof (cases "reconcile_sel clk r")
    case False
    then have "job_by_id i d' = Some r" using j3' seeded by simp
    with False show ?thesis by simp
  next
    case True
    let ?r = "dispatch_row [] r"
    have j2: "job_by_id i ?d2 = Some ?r" using j2' True by simp
    have sel: "seed_sel ?r" using True by (auto simp: seed_sel_def dispatch_row_def reconcile_sel_def in_queue_def)
    then have j3: "job_by_id i d' = Some (r\<lparr>dispatch_id := gen' i\<rparr>)"
      using j3' True i(1) by (simp add: seed_row_def dispatch_row_def)
    have "?r \<in> set (select_jobs seed_sel ?d2)"
      using job_by_id_Some [OF j2] sel by (simp add: select_jobs_def)
    then have "\<lparr>message_id = gen' i, ox_job_id = i, available_at = created_at r, published_at = None\<rparr> \<in> set (outbox d')"
      using i(1) unfolding d' sql_broker_seed_def
      by (auto simp: dispatch_row_def image_iff intro!: bexI [of _ ?r])
    moreover have "\<not> live clk r"
      using True earlier_not_later by (auto simp: reconcile_sel_def live_def)
    ultimately show ?thesis using True j3 assms(5) by (simp add: begin_attempt_def)
  qed
qed

definition queued_again :: "string \<Rightarrow> string" where
  "queued_again i = demo_uuid CHR ''8''"

definition waiting_sys :: sys where
  "waiting_sys = run_calls demo_hash (demo_cfg Rabbitmq) init_sys (take 3 delivered_run)"

lemma waiting_sys_reachable: "(store_step demo_hash (demo_cfg Rabbitmq))\<^sup>*\<^sup>* init_sys waiting_sys"
proof -
  have "run_ok demo_hash (demo_cfg Rabbitmq) init_sys (take 3 delivered_run)" by code_simp
  then show ?thesis unfolding waiting_sys_def by (rule run_calls_steps)
qed

theorem recovery_announces_waiting_jobs_witness:
  "\<exists>d' r. reconcile_main (demo_cfg Rabbitmq) [] queued_again queued_again 100 (sdb waiting_sys) = Inr d' \<and>
    job_by_id (demo_uuid CHR ''1'') d' = Some (r\<lparr>dispatch_id := demo_uuid CHR ''8''\<rparr>)"
proof -
  have ok: "tables_ok (sdb waiting_sys)" "dispatched (sdb waiting_sys)"
    using dispatched_sys.reachable_inv [OF refl waiting_sys_reachable]
    by (simp_all add: dispatched_inv_def demo_rabbit demo_budget sys_ok_def)
  have "map_option (\<lambda>r. (status r, dispatch_id r)) (job_by_id (demo_uuid CHR ''1'') (sdb waiting_sys)) =
    Some (Queued, demo_uuid CHR ''2'')" by code_simp
  then obtain r where r: "job_by_id (demo_uuid CHR ''1'') (sdb waiting_sys) = Some r" "status r = Queued"
    "dispatch_id r = demo_uuid CHR ''2''" by auto
  have new: "queued_again (demo_uuid CHR ''1'') \<noteq> dispatch_id r"
    by (simp add: r(3) queued_again_def demo_uuid_def)
  obtain d' where d': "reconcile_main (demo_cfg Rabbitmq) [] queued_again queued_again 100 (sdb waiting_sys) = Inr d'"
    by (simp add: reconcile_main_def demo_rabbit)
  from recovery_announces_waiting_jobs [OF ok demo_rabbit r(1) new d'] r(2) d' show ?thesis
    by (auto simp: reconcile_sel_def queued_again_def)
qed

section \<open>The row after an answer\<close>

lemma keeps_heartbeat: "tables_ok d \<Longrightarrow> keeps us d (snd (heartbeat cfg c i owner p d))"
  by (simp add: heartbeat_def sql_heartbeat_def heartbeat_stmt.keeps_quiet heartbeat_row_def)

lemma keeps_complete: "tables_ok d \<Longrightarrow> keeps us d (snd (complete_job now i owner txt segs path d))"
  by (simp add: complete_job_def sql_complete_def complete_stmt.keeps_update)

lemma complete_job_row:
  assumes "job_by_id i d = Some r"
  shows "job_by_id i (snd (complete_job now i owner t ss path d)) =
    Some (if owned_sel i owner now r then trigger_row now r (complete_row now t ss path r) else r)"
  using assms unfolding complete_job_def sql_complete_def snd_conv
  by (subst job_by_id_update_jobs) (simp_all add: complete_row_def)

lemma fail_job_row:
  assumes "tables_ok d" and "job_by_id i d = Some r"
  shows "if fail_sel i owner (tx_now c) r
    then \<exists>x. job_by_id i (snd (fail_job cfg c m i owner e retry d)) =
      Some ((trigger_row (tx_now c) r (fail_row (tx_now c) retry e r))\<lparr>dispatch_id := x\<rparr>)
    else job_by_id i (snd (fail_job cfg c m i owner e retry d)) = Some r"
proof -
  let ?t = "tx_now c" and ?d = "sql_fail (tx_now c) retry e i owner d"
  let ?r = "trigger_row ?t r (fail_row ?t retry e r)"
  have row: "job_by_id i ?d = Some (if fail_sel i owner ?t r then ?r else r)"
    unfolding sql_fail_def using assms(2) by (subst job_by_id_update_jobs) (simp_all add: fail_row_def Let_def)
  have id: "job_id ?r = i" using job_by_id_Some [OF assms(2)] by (simp add: fail_row_def Let_def)
  have en: "job_by_id i (enqueue clk m i delay ?d) = map_option (\<lambda>x. if by_id i x then dispatch_row m x else x) (job_by_id i ?d)"
    for clk delay
    using job_by_id_update_quiet [of "by_id i" "dispatch_row m" i ?d]
    by (simp add: enqueue_def sql_outbox_insert_def sql_dispatch_def dispatch_row_def job_by_id_def)
  show ?thesis
  proof (cases "fail_sel i owner ?t r")
    case True
    have "?r = ?r\<lparr>dispatch_id := dispatch_id ?r\<rparr>" by simp
    then have "\<exists>x. Some ?r = Some (?r\<lparr>dispatch_id := x\<rparr>)" by metis
    with True row en id show ?thesis
      by (auto simp: fail_job_def Let_def dispatch_row_def by_id_def)
  next
    case False
    have "\<not> one_row (fail_sel i owner ?t) d"
      using one_row_sel [OF assms(1), of "fail_sel i owner ?t" i] assms(2) False by (auto simp: fail_sel_def)
    with False row show ?thesis by (simp add: fail_job_def Let_def)
  qed
qed

end
