(* ===== verification/Json.thy ===== *)
theory Json
  imports PyText "HOL-Library.AList"
begin

text \<open>
  What the code uses of Python's \<open>json\<close> module: \<open>json.loads\<close> on text and on bytes, with
  and without an object hook, and \<open>json.dumps\<close>. Decoding is in two passes, a lexer and a
  stack machine over its tokens. \<open>None\<close> is \<open>ValueError\<close>. Strings are limited to code points
  up to 255 as in \<open>PyText\<close>: a text that escapes a larger one is rejected here, and every use
  of the decoder in the code rejects it too, by a regular expression or a fixed set of keys.
\<close>

section \<open>Values\<close>

datatype json =
  JNull
| JBool bool
| JInt int
| JFloat string
| JStr string
| JList "json list"
| JObj "(string \<times> json) list"

text \<open>\<open>JFloat\<close> keeps the literal; an object is its pairs, in order, also repeated ones.\<close>

datatype token = TOpenList | TCloseList | TOpenObj | TCloseObj | TComma | TColon
  | TStr string | TAtom json

section \<open>Lexing\<close>

definition json_space :: "char \<Rightarrow> bool" where
  "json_space c \<longleftrightarrow> c \<in> {CHR '' '', CHR 0x09, CHR 0x0A, CHR 0x0D}"

definition hex_value :: "char \<Rightarrow> nat option" where
  "hex_value c = (let n = (of_char c :: nat) in
     if is_digit c then Some (n - 48)
     else if 97 \<le> n \<and> n \<le> 102 then Some (n - 87)
     else if 65 \<le> n \<and> n \<le> 70 then Some (n - 55)
     else None)"

text \<open>The characters that may follow a backslash, besides \<open>u\<close>, and what they stand for.\<close>

definition escapes :: "(char \<times> char) list" where
  "escapes = [(CHR 0x22, CHR 0x22), (CHR 0x5C, CHR 0x5C), (CHR ''/'', CHR ''/''),
     (CHR ''b'', CHR 0x08), (CHR ''f'', CHR 0x0C), (CHR ''n'', CHR 0x0A), (CHR ''r'', CHR 0x0D),
     (CHR ''t'', CHR 0x09)]"

definition unicode_escape :: "char \<Rightarrow> char \<Rightarrow> char \<Rightarrow> char \<Rightarrow> char option" where
  "unicode_escape a b c d = (case (hex_value a, hex_value b, hex_value c, hex_value d) of
     (Some w, Some x, Some y, Some z) \<Rightarrow>
       if w = 0 \<and> x = 0 then Some (char_of (16 * y + z)) else None
   | _ \<Rightarrow> None)"

text \<open>The rest of a string literal, after its opening quote.\<close>

fun lex_string :: "string \<Rightarrow> (string \<times> string) option" where
  "lex_string [] = None"
| "lex_string (c # cs) =
     (if c = CHR 0x22 then Some ([], cs)
      else if c = CHR 0x5C then
        (case cs of
           [] \<Rightarrow> None
         | e # es \<Rightarrow>
           if e = CHR ''u'' then
             (case es of
                h1 # h2 # h3 # h4 # rest \<Rightarrow>
                  (case unicode_escape h1 h2 h3 h4 of
                     None \<Rightarrow> None
                   | Some x \<Rightarrow> map_option (\<lambda>(s, r). (x # s, r)) (lex_string rest))
              | _ \<Rightarrow> None)
           else
             (case map_of escapes e of
                None \<Rightarrow> None
              | Some x \<Rightarrow> map_option (\<lambda>(s, r). (x # s, r)) (lex_string es)))
      else if (of_char c :: nat) < 32 then None
      else map_option (\<lambda>(s, r). (c # s, r)) (lex_string cs))"

text \<open>
  A number: an optional sign, an integer part without leading zeros, then a fraction and an
  exponent if their digits are there.
\<close>

definition split_int_part :: "string \<Rightarrow> (string \<times> string) option" where
  "split_int_part s = (case s of
     [] \<Rightarrow> None
   | c # cs \<Rightarrow> if c = CHR ''0'' then Some ([c], cs)
       else if is_digit c then Some (takeWhile is_digit s, dropWhile is_digit s) else None)"

definition split_fraction :: "string \<Rightarrow> string \<times> string" where
  "split_fraction s = (case s of
     c # cs \<Rightarrow> if c = CHR ''.'' \<and> takeWhile is_digit cs \<noteq> []
       then (c # takeWhile is_digit cs, dropWhile is_digit cs) else ([], s)
   | [] \<Rightarrow> ([], s))"

definition split_exponent :: "string \<Rightarrow> string \<times> string" where
  "split_exponent s = (case s of
     c # cs \<Rightarrow> if c \<in> {CHR ''e'', CHR ''E''} then
         (let (sign, ds) = (case cs of d # r \<Rightarrow> if d \<in> {CHR ''+'', CHR ''-''} then ([d], r) else ([], cs)
                            | [] \<Rightarrow> ([], cs))
          in if takeWhile is_digit ds \<noteq> []
             then (c # sign @ takeWhile is_digit ds, dropWhile is_digit ds) else ([], s))
       else ([], s)
   | [] \<Rightarrow> ([], s))"

definition lex_number :: "string \<Rightarrow> (json \<times> string) option" where
  "lex_number s =
     (let (sign, body) = (case s of c # cs \<Rightarrow> if c = CHR ''-'' then ([c], cs) else ([], s) | [] \<Rightarrow> ([], s))
      in case split_int_part body of
           None \<Rightarrow> None
         | Some (ip, r1) \<Rightarrow>
             (let (fr, r2) = split_fraction r1; (ex, r3) = split_exponent r2
              in if fr = [] \<and> ex = [] then map_option (\<lambda>i. (JInt i, r3)) (py_int (sign @ ip))
                 else Some (JFloat (sign @ ip @ fr @ ex), r3)))"

text \<open>The literals, with the three that Python adds.\<close>

definition literals :: "(string \<times> json) list" where
  "literals = [(''null'', JNull), (''true'', JBool True), (''false'', JBool False),
     (''NaN'', JFloat ''NaN''), (''Infinity'', JFloat ''Infinity''), (''-Infinity'', JFloat ''-Infinity'')]"

definition lex_literal :: "string \<Rightarrow> (json \<times> string) option" where
  "lex_literal s = map_option (\<lambda>(l, v). (v, drop (length l) s))
     (find (\<lambda>(l, v). prefix l s) literals)"

definition punctuation :: "(char \<times> token) list" where
  "punctuation = [(CHR ''['', TOpenList), (CHR '']'', TCloseList), (CHR 0x7B, TOpenObj),
     (CHR 0x7D, TCloseObj), (CHR '','', TComma), (CHR '':'', TColon)]"

text \<open>The next token of a text that does not start with white space.\<close>

definition lex_token :: "string \<Rightarrow> (token \<times> string) option" where
  "lex_token s = (case s of
     [] \<Rightarrow> None
   | c # cs \<Rightarrow> (case map_of punctuation c of
        Some t \<Rightarrow> Some (t, cs)
      | None \<Rightarrow>
          if c = CHR 0x22 then map_option (\<lambda>(x, r). (TStr x, r)) (lex_string cs)
          else (case lex_literal s of
                  Some (v, r) \<Rightarrow> Some (TAtom v, r)
                | None \<Rightarrow> map_option (\<lambda>(v, r). (TAtom v, r)) (lex_number s))))"

lemma lex_string_shorter: "lex_string s = Some (x, r) \<Longrightarrow> length r < length s"
proof (induction s arbitrary: x r rule: lex_string.induct)
  case (2 c cs)
  then show ?case
    by (auto split: if_splits list.splits option.splits) fastforce+
qed simp

lemma split_int_part_shorter: "split_int_part s = Some (x, r) \<Longrightarrow> length r < length s"
  using length_dropWhile_le [of is_digit "tl s"]
  by (auto simp: split_int_part_def split: list.splits if_splits)

lemma split_fraction_le: "split_fraction s = (x, r) \<Longrightarrow> length r \<le> length s"
  using length_dropWhile_le [of is_digit "tl s"]
  by (auto simp: split_fraction_def split: list.splits if_splits)

lemma split_exponent_le: "split_exponent s = (x, r) \<Longrightarrow> length r \<le> length s"
  using length_dropWhile_le [of is_digit "tl s"] length_dropWhile_le [of is_digit "tl (tl s)"]
  by (auto simp: split_exponent_def split: list.splits if_splits prod.splits)

lemma lex_number_shorter: "lex_number s = Some (x, r) \<Longrightarrow> length r < length s"
proof -
  assume a: "lex_number s = Some (x, r)"
  define sb where "sb = (case s of c # cs \<Rightarrow> if c = CHR ''-'' then ([c], cs) else ([], s) | [] \<Rightarrow> ([], s))"
  obtain sg body where sb': "sb = (sg, body)" by fastforce
  have body: "length body \<le> length s" using sb' by (auto simp: sb_def split: list.splits if_splits)
  from a obtain ip r1 where ip: "split_int_part body = Some (ip, r1)"
    by (auto simp: lex_number_def sb_def [symmetric] sb' split: option.splits)
  obtain fr r2 where fr: "split_fraction r1 = (fr, r2)" by fastforce
  obtain ex r3 where ex: "split_exponent r2 = (ex, r3)" by fastforce
  have "r = r3" using a
    by (auto simp: lex_number_def sb_def [symmetric] sb' ip fr ex split: if_splits)
  with body split_int_part_shorter [OF ip] split_fraction_le [OF fr] split_exponent_le [OF ex]
  show ?thesis by simp
qed

lemma lex_literal_shorter:
  assumes "lex_literal s = Some (x, r)"
  shows "length r < length s"
proof -
  obtain l v where l: "find (\<lambda>(l, v). prefix l s) literals = Some (l, v)"
    using assms by (auto simp: lex_literal_def)
  then have "prefix l s" and "(l, v) \<in> set literals"
    by (auto simp: find_Some_iff) (metis nth_mem)
  then have "0 < length l" "length l \<le> length s"
    by (auto simp: literals_def dest: prefix_length_le)
  moreover have "r = drop (length l) s" using assms l by (auto simp: lex_literal_def)
  ultimately show ?thesis by (metis diff_less length_drop less_le_trans)
qed

lemma lex_token_shorter: "lex_token s = Some (t, r) \<Longrightarrow> length r < length s"
  by (auto simp: lex_token_def split: list.splits option.splits if_splits
      dest!: lex_string_shorter lex_number_shorter lex_literal_shorter)

function lex_text :: "string \<Rightarrow> token list option" where
  "lex_text s = (let t = dropWhile json_space s in
     if t = [] then Some []
     else (case lex_token t of
             None \<Rightarrow> None
           | Some (k, r) \<Rightarrow> map_option ((#) k) (lex_text r)))"
  by pat_completeness auto
termination
proof (relation "measure length")
  fix s t x k r
  assume "t = dropWhile json_space s" and "lex_token t = Some x" and "(k, r) = x"
  with lex_token_shorter [of t k r] length_dropWhile_le [of json_space s]
  show "(r, s) \<in> measure length" by simp
qed simp

declare lex_text.simps [simp del]

section \<open>Parsing\<close>

text \<open>
  The open lists and objects, innermost first: a list with its elements so far, an object
  waiting for a key, an object waiting for the value of its key. The phase says what may come.
\<close>

datatype frame = FList "json list" | FObj "(string \<times> json) list" | FKey "(string \<times> json) list" string

datatype phase = PValue | PFirst | PKey bool | PColon string | PDone json

type_synonym pstate = "frame list \<times> phase"

definition starts_value :: "frame list \<Rightarrow> token \<Rightarrow> pstate option" where
  "starts_value fs t = (case t of
     TOpenList \<Rightarrow> Some (FList [] # fs, PFirst)
   | TOpenObj \<Rightarrow> Some (FObj [] # fs, PKey True)
   | TStr s \<Rightarrow> Some (fs, PDone (JStr s))
   | TAtom v \<Rightarrow> Some (fs, PDone v)
   | _ \<Rightarrow> None)"

fun pstep :: "pstate \<Rightarrow> token \<Rightarrow> pstate option" where
  "pstep (fs, PValue) t = starts_value fs t"
| "pstep (fs, PFirst) t = (case (t, fs) of
     (TCloseList, FList vs # fs') \<Rightarrow> Some (fs', PDone (JList vs))
   | _ \<Rightarrow> starts_value fs t)"
| "pstep (fs, PKey first) t = (case (t, fs) of
     (TStr k, FObj ps # fs') \<Rightarrow> Some (FKey ps k # fs', PColon k)
   | (TCloseObj, FObj ps # fs') \<Rightarrow> if first then Some (fs', PDone (JObj ps)) else None
   | _ \<Rightarrow> None)"
| "pstep (fs, PColon k) t = (if t = TColon then Some (fs, PValue) else None)"
| "pstep (fs, PDone v) t = (case (t, fs) of
     (TComma, FList vs # fs') \<Rightarrow> Some (FList (vs @ [v]) # fs', PValue)
   | (TCloseList, FList vs # fs') \<Rightarrow> Some (fs', PDone (JList (vs @ [v])))
   | (TComma, FKey ps k # fs') \<Rightarrow> Some (FObj (ps @ [(k, v)]) # fs', PKey False)
   | (TCloseObj, FKey ps k # fs') \<Rightarrow> Some (fs', PDone (JObj (ps @ [(k, v)])))
   | _ \<Rightarrow> None)"

fun prun :: "pstate \<Rightarrow> token list \<Rightarrow> pstate option" where
  "prun st [] = Some st"
| "prun st (t # ts) = (case pstep st t of None \<Rightarrow> None | Some st' \<Rightarrow> prun st' ts)"

text \<open>The document with its objects as written: what \<open>object_pairs_hook\<close> is handed.\<close>

definition json_pairs :: "string \<Rightarrow> json option" where
  "json_pairs s = (case lex_text s of
     None \<Rightarrow> None
   | Some ts \<Rightarrow> (case prun ([], PValue) ts of Some ([], PDone v) \<Rightarrow> Some v | _ \<Rightarrow> None))"

text \<open>A \<open>dict\<close> built from pairs: the last value of a repeated key, at the key's first place.\<close>

definition as_dict :: "(string \<times> 'v) list \<Rightarrow> (string \<times> 'v) list" where
  "as_dict ps = fold (\<lambda>(k, v) d. AList.update k v d) ps []"

fun dicts :: "json \<Rightarrow> json" where
  "dicts (JObj ps) = JObj (as_dict (map (\<lambda>(k, v). (k, dicts v)) ps))"
| "dicts (JList vs) = JList (map dicts vs)"
| "dicts v = v"

definition json_loads :: "string \<Rightarrow> json option" where
  "json_loads s = map_option dicts (json_pairs s)"

text \<open>\<open>json.loads(s, object_pairs_hook=_unique_object)\<close>: a repeated key anywhere is refused.\<close>

fun unique_keys :: "json \<Rightarrow> bool" where
  "unique_keys (JObj ps) \<longleftrightarrow> distinct (map fst ps) \<and> list_all (\<lambda>(k, v). unique_keys v) ps"
| "unique_keys (JList vs) \<longleftrightarrow> list_all unique_keys vs"
| "unique_keys v \<longleftrightarrow> True"

definition json_loads_unique :: "string \<Rightarrow> json option" where
  "json_loads_unique s = (case json_pairs s of
     None \<Rightarrow> None | Some v \<Rightarrow> if unique_keys v then Some v else None)"

section \<open>Bytes\<close>

text \<open>
  \<open>json.loads\<close> on bytes: \<open>json.detect_encoding\<close>, then decoding. A string of HOL stands for
  the bytes; a document with a code point beyond 255 is \<open>None\<close>, as above.
\<close>

fun decode_utf8 :: "string \<Rightarrow> string option" where
  "decode_utf8 [] = Some []"
| "decode_utf8 (c # cs) =
     (if (of_char c :: nat) < 128 then map_option ((#) c) (decode_utf8 cs)
      else (case cs of
         d # ds \<Rightarrow> if c \<in> {CHR 0xC2, CHR 0xC3} \<and> 128 \<le> (of_char d :: nat) \<and> (of_char d :: nat) < 192
           then map_option ((#) (char_of ((of_char c - 192) * 64 + (of_char d - 128) :: nat))) (decode_utf8 ds)
           else None
       | [] \<Rightarrow> None))"

fun decode_utf16 :: "bool \<Rightarrow> string \<Rightarrow> string option" where
  "decode_utf16 big [] = Some []"
| "decode_utf16 big [a] = None"
| "decode_utf16 big (a # b # r) =
     (if (if big then a else b) = CHR 0x00
      then map_option ((#) (if big then b else a)) (decode_utf16 big r) else None)"

fun decode_utf32 :: "bool \<Rightarrow> string \<Rightarrow> string option" where
  "decode_utf32 big [] = Some []"
| "decode_utf32 big (a # b # c # d # r) =
     (if (if big then [a, b, c] else [b, c, d]) = [CHR 0x00, CHR 0x00, CHR 0x00]
      then map_option ((#) (if big then d else a)) (decode_utf32 big r) else None)"
| "decode_utf32 big _ = None"

definition decode_bytes :: "string \<Rightarrow> string option" where
  "decode_bytes b =
     (let z = (\<lambda>i. b ! i = CHR 0x00) in
      if prefix [CHR 0x00, CHR 0x00, CHR 0xFE, CHR 0xFF] b then decode_utf32 True (drop 4 b)
      else if prefix [CHR 0xFF, CHR 0xFE, CHR 0x00, CHR 0x00] b then decode_utf32 False (drop 4 b)
      else if prefix [CHR 0xFE, CHR 0xFF] b then decode_utf16 True (drop 2 b)
      else if prefix [CHR 0xFF, CHR 0xFE] b then decode_utf16 False (drop 2 b)
      else if prefix [CHR 0xEF, CHR 0xBB, CHR 0xBF] b then decode_utf8 (drop 3 b)
      else if 4 \<le> length b \<and> z 0 then (if z 1 then decode_utf32 True b else decode_utf16 True b)
      else if 4 \<le> length b \<and> z 1 then
        (if z 2 \<and> z 3 then decode_utf32 False b else decode_utf16 False b)
      else if length b = 2 \<and> z 0 then decode_utf16 True b
      else if length b = 2 \<and> z 1 then decode_utf16 False b
      else decode_utf8 b)"

definition json_loads_bytes :: "string \<Rightarrow> json option" where
  "json_loads_bytes b = Option.bind (decode_bytes b) json_loads"

definition json_loads_bytes_unique :: "string \<Rightarrow> json option" where
  "json_loads_bytes_unique b = Option.bind (decode_bytes b) json_loads_unique"

definition plain_ascii :: "char \<Rightarrow> bool" where
  "plain_ascii c \<longleftrightarrow> 0 < (of_char c :: nat) \<and> (of_char c :: nat) < 128"

lemma decode_bytes_ascii:
  assumes "list_all plain_ascii b"
  shows "decode_bytes b = Some b"
proof -
  have ne: "c \<noteq> CHR 0x00 \<and> c \<noteq> CHR 0xFE \<and> c \<noteq> CHR 0xFF \<and> c \<noteq> CHR 0xEF" if "c \<in> set b" for c
    using assms that by (auto simp: list_all_iff plain_ascii_def)
  have nth: "b ! i \<noteq> CHR 0x00" if "i < length b" for i using ne [of "b ! i"] that by simp
  have pre: "\<not> prefix (c # cs) b" if "c \<in> {CHR 0x00, CHR 0xFE, CHR 0xFF, CHR 0xEF}" for c cs
    using ne [of c] that by (auto simp: prefix_def)
  have "decode_utf8 b = Some b"
    using assms by (induction b) (auto simp: plain_ascii_def)
  moreover have "\<not> (4 \<le> length b \<and> b ! 0 = CHR 0x00)" "\<not> (4 \<le> length b \<and> b ! Suc 0 = CHR 0x00)"
      "\<not> (length b = 2 \<and> b ! 0 = CHR 0x00)" "\<not> (length b = 2 \<and> b ! Suc 0 = CHR 0x00)"
    using nth [of 0] nth [of 1] by (cases b; force)+
  ultimately show ?thesis using pre by (auto simp: decode_bytes_def Let_def)
qed

section \<open>Encoding\<close>

definition hex_digit :: "nat \<Rightarrow> char" where
  "hex_digit n = (if n < 10 then char_of (48 + n) else char_of (87 + n))"

text \<open>\<open>ensure_ascii\<close>: everything outside the printable ASCII characters is escaped.\<close>

definition dump_char :: "char \<Rightarrow> string" where
  "dump_char c = (let n = (of_char c :: nat) in
     if c = CHR 0x22 then [CHR 0x5C, CHR 0x22]
     else if c = CHR 0x5C then [CHR 0x5C, CHR 0x5C]
     else if n = 8 then [CHR 0x5C, CHR ''b'']
     else if n = 9 then [CHR 0x5C, CHR ''t'']
     else if n = 10 then [CHR 0x5C, CHR ''n'']
     else if n = 12 then [CHR 0x5C, CHR ''f'']
     else if n = 13 then [CHR 0x5C, CHR ''r'']
     else if 32 \<le> n \<and> n \<le> 126 then [c]
     else [CHR 0x5C, CHR ''u'', CHR ''0'', CHR ''0'', hex_digit (n div 16), hex_digit (n mod 16)])"

definition dump_string :: "string \<Rightarrow> string" where
  "dump_string s = CHR 0x22 # concat (map dump_char s) @ [CHR 0x22]"

fun join_with :: "'a list \<Rightarrow> 'a list list \<Rightarrow> 'a list" where
  "join_with sep [] = []"
| "join_with sep [x] = x"
| "join_with sep (x # y # xs) = x @ sep @ join_with sep (y # xs)"

fun json_dumps :: "json \<Rightarrow> string" where
  "json_dumps JNull = ''null''"
| "json_dumps (JBool b) = (if b then ''true'' else ''false'')"
| "json_dumps (JInt i) = py_str_int i"
| "json_dumps (JFloat s) = s"
| "json_dumps (JStr s) = dump_string s"
| "json_dumps (JList vs) = CHR ''['' # join_with '', '' (map json_dumps vs) @ '']''"
| "json_dumps (JObj ps) = CHR 0x7B # join_with '', ''
     (map (\<lambda>(k, v). dump_string k @ '': '' @ json_dumps v) ps) @ [CHR 0x7D]"

text \<open>Values whose text the decoder reads back: no floats, integers of at most 4300 digits.\<close>

fun dumpable :: "json \<Rightarrow> bool" where
  "dumpable (JFloat s) = False"
| "dumpable (JInt i) \<longleftrightarrow> \<bar>i\<bar> < 10 ^ py_max_digits"
| "dumpable (JList vs) = list_all dumpable vs"
| "dumpable (JObj ps) = list_all (\<lambda>(k, v). dumpable v) ps"
| "dumpable v = True"

section \<open>Reading back what was written\<close>

definition delim :: "string \<Rightarrow> bool" where
  "delim r \<longleftrightarrow> (case r of [] \<Rightarrow> True | c # _ \<Rightarrow> c \<in> {CHR '','', CHR '']'', CHR 0x7D, CHR 0x0A})"

lemma hex_value_digit: "n < 16 \<Longrightarrow> hex_value (hex_digit n) = Some n"
  by (auto simp: hex_value_def hex_digit_def Let_def is_digit_def)

lemma unicode_escape_hex:
  "unicode_escape CHR ''0'' CHR ''0'' (hex_digit (of_char c div 16)) (hex_digit (of_char c mod 16)) = Some c"
proof -
  have "of_char c div 16 < (16 :: nat)" using less_mult_imp_div_less [of "of_char c" 16 16] by simp
  moreover have "of_char c mod 16 < (16 :: nat)" by simp
  ultimately have "of_char c div 16 < (16 :: nat)" "of_char c mod 16 < (16 :: nat)" .
  then show ?thesis
    by (simp add: unicode_escape_def hex_value_digit) (simp add: hex_value_def is_digit_def)
qed

lemma lex_string_char: "lex_string (dump_char c @ r) = map_option (\<lambda>(x, q). (c # x, q)) (lex_string r)"
proof -
  consider "c = CHR 0x22" | "c = CHR 0x5C" | "(of_char c :: nat) \<in> {8, 9, 10, 12, 13}"
    | "c \<noteq> CHR 0x22" "c \<noteq> CHR 0x5C" "32 \<le> (of_char c :: nat)" "(of_char c :: nat) \<le> 126"
    | "(of_char c :: nat) \<notin> {8, 9, 10, 12, 13}" "\<not> (32 \<le> (of_char c :: nat) \<and> (of_char c :: nat) \<le> 126)"
      "c \<noteq> CHR 0x22" "c \<noteq> CHR 0x5C" by blast
  then show ?thesis
  proof cases
    case 3
    then have "c \<in> char_of ` {8, 9, 10, 12, 13 :: nat}" by (metis char_of_char imageI)
    then have "c \<in> {CHR 0x08, CHR 0x09, CHR 0x0A, CHR 0x0C, CHR 0x0D}" by (simp add: char_of_def bit_Suc_0_iff)
    then show ?thesis by (auto simp: dump_char_def escapes_def)
  next
    case 5
    then show ?thesis using unicode_escape_hex [of c] by (simp add: dump_char_def Let_def)
  qed (simp_all add: dump_char_def escapes_def Let_def)
qed

lemma lex_string_dump: "lex_string (concat (map dump_char s) @ CHR 0x22 # r) = Some (s, r)"
  by (induction s) (simp_all add: lex_string_char)

lemma lex_space [simp]: "lex_text (CHR '' '' # r) = lex_text r"
  by (subst (1 2) lex_text.simps) (simp add: json_space_def)

lemma lex_punctuation: "map_of punctuation c = Some t \<Longrightarrow> lex_text (c # r) = map_option ((#) t) (lex_text r)"
  by (subst lex_text.simps) (auto simp: punctuation_def json_space_def lex_token_def split: if_splits)

lemma lex_dump_string: "lex_text (dump_string s @ r) = map_option ((#) (TStr s)) (lex_text r)"
  by (subst lex_text.simps)
    (simp add: dump_string_def json_space_def lex_token_def punctuation_def lex_string_dump)

lemma lex_atom:
  assumes "lex_token s = Some (TAtom v, r)" and "\<not> json_space (hd s)"
  shows "lex_text s = map_option ((#) (TAtom v)) (lex_text r)"
proof -
  obtain c cs where s: "s = c # cs" using assms(1) by (cases s) (auto simp: lex_token_def)
  have "dropWhile json_space s = s" using assms(2) s by simp
  then show ?thesis using assms(1) s by (subst lex_text.simps) simp
qed

lemma lex_literals:
  "lex_text (''null'' @ r) = map_option ((#) (TAtom JNull)) (lex_text r)"
  "lex_text (''true'' @ r) = map_option ((#) (TAtom (JBool True))) (lex_text r)"
  "lex_text (''false'' @ r) = map_option ((#) (TAtom (JBool False))) (lex_text r)"
  by (rule lex_atom; simp add: lex_token_def punctuation_def lex_literal_def literals_def json_space_def)+

lemma nat_digits_zero: "nat_digits n = CHR ''0'' # ds \<Longrightarrow> n = 0"
proof (induction n arbitrary: ds rule: nat_digits.induct)
  case (1 n)
  show ?case
  proof (cases "n < 10")
    case True
    with "1.prems" have "digit_char n = CHR ''0''" by (simp add: nat_digits.simps [of n])
    then have "(of_char (digit_char n) :: nat) = 48" by simp
    with True show ?thesis by (simp add: of_digit_char)
  next
    case False
    with "1.prems" obtain es where "nat_digits (n div 10) = CHR ''0'' # es"
      by (cases "nat_digits (n div 10)") (auto simp: nat_digits.simps [of n])
    with "1.IH" False have "n div 10 = 0" by blast
    with False show ?thesis by simp
  qed
qed

lemma delim_not_digit: "delim r \<Longrightarrow> takeWhile is_digit r = [] \<and> dropWhile is_digit r = r"
  by (cases r) (auto simp: delim_def is_digit_def)

lemma split_int_digits: "delim r \<Longrightarrow> split_int_part (nat_digits n @ r) = Some (nat_digits n, r)"
proof -
  assume r: "delim r"
  obtain c cs where c: "nat_digits n = c # cs" by (cases "nat_digits n") auto
  have all: "\<And>x. x \<in> set (nat_digits n) \<Longrightarrow> is_digit x" by (rule nat_digits_all)
  show ?thesis
  proof (cases "c = CHR ''0''")
    case True
    with c nat_digits_zero have "n = 0" by blast
    then have "nat_digits n = ''0''"
      by (simp add: nat_digits.simps [of 0] digit_char_def char_of_def bit_Suc_0_iff)
    then show ?thesis by (simp add: split_int_part_def)
  next
    case False
    have "takeWhile is_digit (nat_digits n @ r) = nat_digits n" "dropWhile is_digit (nat_digits n @ r) = r"
      using all delim_not_digit [OF r] by (simp_all add: takeWhile_append dropWhile_append)
    with False c all show ?thesis by (simp add: split_int_part_def)
  qed
qed

lemma lex_int:
  assumes "delim r" and "\<bar>i\<bar> < 10 ^ py_max_digits"
  shows "lex_text (py_str_int i @ r) = map_option ((#) (TAtom (JInt i))) (lex_text r)"
proof (rule lex_atom)
  define n where "n = nat \<bar>i\<bar>"
  obtain c cs where c: "nat_digits n = c # cs" by (cases "nat_digits n") auto
  have d: "is_digit c" using nat_digits_all [of c n] c by simp
  have str: "py_str_int i = (if i < 0 then CHR ''-'' # nat_digits n else nat_digits n)"
    by (simp add: py_str_int_def n_def)
  have ne: "c \<noteq> x" "x \<noteq> c" if "\<not> is_digit x" for x using d that by blast+
  have cne: "c \<notin> {CHR ''-'', CHR ''I'', CHR ''N'', CHR ''n'', CHR ''t'', CHR ''f'', CHR 0x22}"
    by (simp add: ne is_digit_def)
  have sp: "\<not> json_space c" by (simp add: json_space_def ne is_digit_def)
  have pu: "map_of punctuation c = None" by (simp add: punctuation_def ne is_digit_def)
  note cne = cne sp pu
  show "\<not> json_space (hd (py_str_int i @ r))" using cne by (simp add: str c json_space_def)
  have lit: "lex_literal (py_str_int i @ r) = None"
    by (cases "i < 0") (simp_all add: lex_literal_def literals_def str c ne is_digit_def)
  have fe: "split_fraction r = ([], r)" "split_exponent r = ([], r)"
    using assms(1) by (auto simp: split_fraction_def split_exponent_def delim_def split: list.splits)
  have "lex_number (py_str_int i @ r) = Some (JInt i, r)"
    using py_int_str [OF assms(2)] split_int_digits [OF assms(1), of n]
    by (cases "i < 0") (simp_all add: lex_number_def str fe c ne is_digit_def)
  with lit show "lex_token (py_str_int i @ r) = Some (TAtom (JInt i), r)"
    by (cases "i < 0") (simp_all add: lex_token_def str c punctuation_def ne is_digit_def)
qed

fun tokens_of :: "json \<Rightarrow> token list" where
  "tokens_of (JStr s) = [TStr s]"
| "tokens_of (JList vs) = TOpenList # join_with [TComma] (map tokens_of vs) @ [TCloseList]"
| "tokens_of (JObj ps) = TOpenObj # join_with [TComma]
     (map (\<lambda>(k, v). TStr k # TColon # tokens_of v) ps) @ [TCloseObj]"
| "tokens_of v = [TAtom v]"

lemma map_append_Nil: "map_option ((@) []) x = x"
  by (cases x) auto

lemma lex_joined:
  assumes "\<And>x q. x \<in> set xs \<Longrightarrow> delim q \<Longrightarrow> lex_text (f x @ q) = map_option ((@) (g x)) (lex_text q)" and "delim r"
  shows "lex_text (join_with '', '' (map f xs) @ r) = map_option ((@) (join_with [TComma] (map g xs))) (lex_text r)"
  using assms(1)
proof (induction xs rule: induct_list012)
  case (3 x y zs)
  have "delim (CHR '','' # q)" for q by (simp add: delim_def)
  with 3(2,3) lex_punctuation [of "CHR '',''" TComma] show ?case
    by (simp add: punctuation_def option.map_comp comp_def)
qed (use assms(2) in \<open>simp_all add: map_append_Nil\<close>)

lemma lex_dumps:
  assumes "dumpable v" and "delim r"
  shows "lex_text (json_dumps v @ r) = map_option ((@) (tokens_of v)) (lex_text r)"
  using assms
proof (induction v arbitrary: r)
  case (JList vs)
  have d: "delim (CHR '']'' # r)" by (simp add: delim_def)
  have "lex_text (join_with '', '' (map json_dumps vs) @ CHR '']'' # r) =
      map_option ((@) (join_with [TComma] (map tokens_of vs))) (lex_text (CHR '']'' # r))"
    using JList by (intro lex_joined [OF _ d]) (auto simp: list_all_iff)
  then show ?case
    by (simp add: lex_punctuation punctuation_def option.map_comp comp_def)
next
  case (JObj ps)
  have d: "delim (CHR 0x7D # r)" by (simp add: delim_def)
  have "lex_text (join_with '', '' (map (\<lambda>(k, v). dump_string k @ '': '' @ json_dumps v) ps) @ CHR 0x7D # r) =
      map_option ((@) (join_with [TComma] (map (\<lambda>(k, v). TStr k # TColon # tokens_of v) ps)))
        (lex_text (CHR 0x7D # r))"
  proof (rule lex_joined [OF _ d])
    fix x q
    assume x: "x \<in> set ps" and q: "delim q"
    obtain k v where kv: "x = (k, v)" by fastforce
    with x JObj.prems(1) have "dumpable v" by (auto simp: list_all_iff)
    with JObj.IH [OF x, of v] kv q have "lex_text (json_dumps v @ q) = map_option ((@) (tokens_of v)) (lex_text q)" by simp
    then show "lex_text ((case x of (k, v) \<Rightarrow> dump_string k @ '': '' @ json_dumps v) @ q) =
        map_option ((@) (case x of (k, v) \<Rightarrow> TStr k # TColon # tokens_of v)) (lex_text q)"
      by (cases "lex_text q") (simp_all add: kv lex_dump_string lex_punctuation punctuation_def)
  qed
  then show ?case
    by (simp add: lex_punctuation punctuation_def option.map_comp comp_def)
next
  case (JInt i)
  then show ?case using lex_int [of r i] by (simp cong: option.map_cong)
next
  case (JBool b)
  then show ?case using lex_literals by simp
next
  case JNull
  then show ?case using lex_literals by simp
next
  case (JStr s)
  then show ?case using lex_dump_string by simp
qed simp

lemma prun_elements:
  assumes "\<And>v fs p ts. v \<in> set vs \<Longrightarrow> p \<in> {PValue, PFirst} \<Longrightarrow>
      prun (fs, p) (tokens_of v @ ts) = prun (fs, PDone v) ts"
    and "p = PFirst \<or> (p = PValue \<and> vs \<noteq> [])" and "p = PFirst \<Longrightarrow> us = []"
  shows "prun (FList us # fs, p) (join_with [TComma] (map tokens_of vs) @ TCloseList # ts) =
    prun (fs, PDone (JList (us @ vs))) ts"
  using assms
proof (induction vs arbitrary: us p rule: induct_list012)
  case (3 v w ws)
  have "prun (FList us # fs, p) (tokens_of v @ TComma # join_with [TComma] (map tokens_of (w # ws)) @ TCloseList # ts) =
      prun (FList (us @ [v]) # fs, PValue) (join_with [TComma] (map tokens_of (w # ws)) @ TCloseList # ts)"
    using "3.prems"(1) [of v p] "3.prems"(2) by auto
  also have "\<dots> = prun (fs, PDone (JList ((us @ [v]) @ w # ws))) ts"
    by (rule "3.IH"(2)) (use "3.prems"(1) in auto)
  finally show ?case by simp
next
  case (2 v)
  then show ?case by auto
qed auto

lemma prun_members:
  assumes "\<And>k v fs p ts. (k, v) \<in> set ps \<Longrightarrow> p \<in> {PValue, PFirst} \<Longrightarrow>
      prun (fs, p) (tokens_of v @ ts) = prun (fs, PDone v) ts"
    and "b \<or> ps \<noteq> []" and "b \<Longrightarrow> us = []"
  shows "prun (FObj us # fs, PKey b)
      (join_with [TComma] (map (\<lambda>(k, v). TStr k # TColon # tokens_of v) ps) @ TCloseObj # ts) =
    prun (fs, PDone (JObj (us @ ps))) ts"
  using assms
proof (induction ps arbitrary: us b rule: induct_list012)
  case (3 x y zs)
  obtain k v where x: "x = (k, v)" by fastforce
  let ?rest = "join_with [TComma] (map (\<lambda>(k, v). TStr k # TColon # tokens_of v) (y # zs)) @ TCloseObj # ts"
  have "prun (FObj us # fs, PKey b) (TStr k # TColon # tokens_of v @ TComma # ?rest) =
      prun (FObj (us @ [(k, v)]) # fs, PKey False) ?rest"
    using "3.prems"(1) [of k v PValue] x by simp
  also have "\<dots> = prun (fs, PDone (JObj ((us @ [(k, v)]) @ y # zs))) ts"
  proof (rule "3.IH"(2))
    fix k v fs p ts
    assume "(k, v) \<in> set (y # zs)" and "p \<in> {PValue, PFirst}"
    then show "prun (fs, p) (tokens_of v @ ts) = prun (fs, PDone v) ts"
      by (intro "3.prems"(1) [of k v]) simp_all
  qed simp_all
  finally show ?case by (simp add: x)
next
  case (2 x)
  obtain k v where "x = (k, v)" by fastforce
  with 2 show ?case by simp
qed auto

lemma prun_tokens:
  assumes "p \<in> {PValue, PFirst}"
  shows "prun (fs, p) (tokens_of v @ ts) = prun (fs, PDone v) ts"
  using assms
proof (induction v arbitrary: fs p ts)
  case (JList vs)
  have "prun (FList [] # fs, PFirst) (join_with [TComma] (map tokens_of vs) @ TCloseList # ts) =
      prun (fs, PDone (JList ([] @ vs))) ts"
    by (rule prun_elements) (use JList.IH in auto)
  with JList.prems show ?case by (auto simp: starts_value_def)
next
  case (JObj ps)
  have "prun (FObj [] # fs, PKey True)
      (join_with [TComma] (map (\<lambda>(k, v). TStr k # TColon # tokens_of v) ps) @ TCloseObj # ts) =
      prun (fs, PDone (JObj ([] @ ps))) ts"
    by (rule prun_members) (use JObj.IH in auto)
  with JObj.prems show ?case by (auto simp: starts_value_def)
qed (auto simp: starts_value_def)

lemma lex_text_Nil [simp]: "lex_text [] = Some []"
  by (subst lex_text.simps) simp

lemma json_pairs_dumps: "dumpable v \<Longrightarrow> json_pairs (json_dumps v) = Some v"
  using lex_dumps [of v "[]"] prun_tokens [of PValue "[]" v "[]"]
  by (simp add: json_pairs_def delim_def)

text \<open>A document whose objects repeat no key is read back by both forms of \<open>json.loads\<close>.\<close>

lemma update_new: "k \<notin> fst ` set d \<Longrightarrow> AList.update k v d = d @ [(k, v)]"
  by (induction d) auto

lemma as_dict_append:
  assumes "distinct (map fst ps)" and "fst ` set ps \<inter> fst ` set d = {}"
  shows "fold (\<lambda>(k, v) d. AList.update k v d) ps d = d @ ps"
  using assms
proof (induction ps arbitrary: d)
  case (Cons p ps)
  obtain k v where p: "p = (k, v)" by fastforce
  have "k \<notin> fst ` set d" using Cons.prems(2) p by auto
  with Cons p show ?case by (auto simp: update_new)
qed simp

lemma as_dict_distinct: "distinct (map fst ps) \<Longrightarrow> as_dict ps = ps"
  using as_dict_append [of ps "[]"] by (simp add: as_dict_def)

lemma dicts_unique: "unique_keys v \<Longrightarrow> dicts v = v"
proof (induction v)
  case (JObj ps)
  then have "map (\<lambda>(k, v). (k, dicts v)) ps = ps"
    by (intro map_idI) (auto simp: list_all_iff)
  with JObj.prems show ?case by (simp add: as_dict_distinct)
next
  case (JList vs)
  then show ?case by (auto simp: list_all_iff intro: map_idI)
qed simp_all

lemma json_loads_dumps:
  assumes "dumpable v" and "unique_keys v"
  shows "json_loads (json_dumps v) = Some v" and "json_loads_unique (json_dumps v) = Some v"
  using assms by (simp_all add: json_loads_def json_loads_unique_def json_pairs_dumps dicts_unique)

text \<open>A line of text: the document and a newline.\<close>

lemma json_loads_line:
  assumes "dumpable v" and "unique_keys v"
  shows "json_loads (json_dumps v @ [CHR 0x0A]) = Some v"
proof -
  have "lex_text [CHR 0x0A] = Some []" by (subst lex_text.simps) (simp add: json_space_def)
  then have "lex_text (json_dumps v @ [CHR 0x0A]) = Some (tokens_of v)"
    using lex_dumps [OF assms(1), of "[CHR 0x0A]"] by (simp add: delim_def)
  then show ?thesis using prun_tokens [of PValue "[]" v "[]"] assms(2)
    by (simp add: json_loads_def json_pairs_def dicts_unique)
qed

text \<open>What is written is ASCII, and a string takes at most six characters for each of its own.\<close>

lemma plain_marks: "list_all plain_ascii (''[], :btnfru0'' @ [CHR 0x22, CHR 0x5C, CHR 0x7B, CHR 0x7D])"
  by (simp add: plain_ascii_def)

lemmas plain_mark_simps = plain_marks [simplified]

lemma dump_char_plain: "list_all plain_ascii (dump_char c)" "length (dump_char c) \<le> 6"
proof -
  have hex: "plain_ascii (hex_digit n)" if "n < 16" for n
    using that by (auto simp: hex_digit_def plain_ascii_def)
  have "plain_ascii (hex_digit (of_char c div 16))" "plain_ascii (hex_digit (of_char c mod 16))"
    using less_mult_imp_div_less [of "of_char c" 16 16] by (simp_all add: hex)
  moreover have "32 \<le> (of_char c :: nat) \<Longrightarrow> (of_char c :: nat) \<le> 126 \<Longrightarrow> plain_ascii c" by (simp add: plain_ascii_def)
  ultimately show "list_all plain_ascii (dump_char c)" by (simp add: dump_char_def Let_def plain_mark_simps)
qed (simp add: dump_char_def Let_def)

lemma dump_string_plain: "list_all plain_ascii (dump_string s) \<and> length (dump_string s) \<le> 6 * length s + 2"
proof -
  have "list_all plain_ascii (concat (map dump_char s)) \<and> length (concat (map dump_char s)) \<le> 6 * length s"
    using dump_char_plain by (induction s) (auto intro: order_trans [OF add_mono])
  then show ?thesis by (simp add: dump_string_def plain_mark_simps)
qed

lemma join_with_plain: "list_all P sep \<Longrightarrow> list_all (list_all P) xss \<Longrightarrow> list_all P (join_with sep xss)"
  by (induction sep xss rule: join_with.induct) auto

lemma dumps_plain: "dumpable v \<Longrightarrow> list_all plain_ascii (json_dumps v)"
proof (induction v)
  case (JInt i)
  have "plain_ascii c" if "c \<in> set (nat_digits n)" for c n
    using nat_digits_all [OF that] by (auto simp: is_digit_def plain_ascii_def)
  then show ?case by (auto simp: py_str_int_def list_all_iff plain_ascii_def)
next
  case (JList vs)
  then have "list_all (list_all plain_ascii) (map json_dumps vs)" by (auto simp: list_all_iff)
  from join_with_plain [OF _ this, of "'', ''"] show ?case by (simp add: plain_mark_simps)
next
  case (JObj ps)
  then have "list_all (list_all plain_ascii) (map (\<lambda>(k, v). dump_string k @ '': '' @ json_dumps v) ps)"
    using dump_string_plain by (auto simp: list_all_iff plain_mark_simps)
  from join_with_plain [OF _ this, of "'', ''"] show ?case by (simp add: plain_mark_simps)
qed (use dump_string_plain in \<open>auto simp: plain_ascii_def\<close>)

lemma json_loads_keys: "json_loads s = Some (JObj ps) \<Longrightarrow> distinct (map fst ps)"
proof -
  have d: "distinct (map fst d) \<Longrightarrow> distinct (map fst (fold (\<lambda>(k, v) d. AList.update k v d) qs d))" for qs d
    by (induction qs arbitrary: d) (auto simp: distinct_update)
  assume "json_loads s = Some (JObj ps)"
  then obtain v where "dicts v = JObj ps" by (auto simp: json_loads_def)
  then show ?thesis using d [of "[]"] by (cases v) (auto simp: as_dict_def)
qed

end
