(* ===== verification/Settings.thy ===== *)
theory Settings
  imports JobStore Json
begin

text \<open>
  Configuration from the environment: \<open>scheduling.parse_policies\<close>, \<open>JobStore.__init__\<close>,
  \<open>limits.audio_limit\<close>, \<open>admission.positive_limit\<close> and \<open>UploadLimits.from_env\<close>, and the
  token file of a remote worker. The environment is a function from names to values.
\<close>

section \<open>Pool policies\<close>

text \<open>\<open>type(x) is int\<close>: a bool is not.\<close>

fun json_int :: "json \<Rightarrow> int option" where
  "json_int (JInt i) = Some i"
| "json_int _ = None"

definition policy_of :: "json \<Rightarrow> policy option" where
  "policy_of v = (case v of
     JObj ps \<Rightarrow>
       (if set (map fst ps) \<noteq> {''priority'', ''max_concurrency''} then None
        else (case (Option.bind (map_of ps ''priority'') json_int,
                    Option.bind (map_of ps ''max_concurrency'') json_int) of
            (Some p, Some c) \<Rightarrow>
              if 0 \<le> p \<and> p \<le> 10000 \<and> 0 \<le> c \<and> c \<le> 32
              then Some \<lparr>priority = p, max_concurrency = c\<rparr> else None
          | _ \<Rightarrow> None))
   | _ \<Rightarrow> None)"

definition policy_name_ok :: "string \<Rightarrow> bool" where
  "policy_name_ok w \<longleftrightarrow> w \<notin> {''ingress'', ''other''} \<and> worker_id_ok w"

fun policies_of :: "(string \<times> json) list \<Rightarrow> policies option" where
  "policies_of [] = Some []"
| "policies_of ((w, v) # ps) =
     (if \<not> policy_name_ok w then None
      else (case policy_of v of
         None \<Rightarrow> None
       | Some p \<Rightarrow> map_option ((#) (w, p)) (policies_of ps)))"

definition parse_policies :: "string \<Rightarrow> (config_error, policies) result" where
  "parse_policies value =
     (if py_strip value = [] then Inr []
      else (case json_loads value of
         Some (JObj ps) \<Rightarrow>
           (if 1 \<le> length ps \<and> length ps \<le> 128
            then (case policies_of ps of None \<Rightarrow> Inl InvalidPolicies | Some r \<Rightarrow> Inr r)
            else Inl InvalidPolicies)
       | _ \<Rightarrow> Inl InvalidPolicies))"

definition policy_ok :: "policy \<Rightarrow> bool" where
  "policy_ok p \<longleftrightarrow> 0 \<le> priority p \<and> priority p \<le> 10000 \<and> 0 \<le> max_concurrency p \<and>
     max_concurrency p \<le> 32"

definition policies_valid :: "policies \<Rightarrow> bool" where
  "policies_valid ps \<longleftrightarrow> length ps \<le> 128 \<and> distinct (map fst ps) \<and>
     list_all (\<lambda>(w, p). policy_name_ok w \<and> policy_ok p) ps"

lemma policy_of_ok:
  assumes "policy_of v = Some p"
  shows "policy_ok p"
proof (cases v)
  case (JObj ps)
  let ?p = "Option.bind (map_of ps ''priority'') json_int"
  let ?c = "Option.bind (map_of ps ''max_concurrency'') json_int"
  show ?thesis using assms
    by (cases ?p; cases ?c) (simp_all add: policy_of_def JObj split: if_splits, clarify, simp add: policy_ok_def)
qed (use assms in \<open>simp_all add: policy_of_def\<close>)

lemma policies_of_ok:
  "policies_of ps = Some r \<Longrightarrow> map fst r = map fst ps \<and> list_all (\<lambda>(w, p). policy_name_ok w \<and> policy_ok p) r"
proof (induction ps arbitrary: r rule: policies_of.induct)
  case (2 w v ps)
  from 2(2) obtain p where w: "policy_name_ok w" "policy_of v = Some p"
    by (cases "policy_name_ok w"; cases "policy_of v") simp_all
  with 2(2) obtain r' where r': "policies_of ps = Some r'" "r = (w, p) # r'" by auto
  with 2(1) w policy_of_ok [OF w(2)] show ?case by simp
qed simp

lemma parse_policies_valid: "parse_policies s = Inr ps \<Longrightarrow> policies_valid ps"
proof (cases "py_strip s = []")
  case False
  assume p: "parse_policies s = Inr ps"
  with False obtain qs where qs: "json_loads s = Some (JObj qs)" "length qs \<le> 128" "policies_of qs = Some ps"
    by (auto simp: parse_policies_def split: option.splits json.splits if_splits)
  from json_loads_keys [OF qs(1)] policies_of_ok [OF qs(3)] qs(2) show ?thesis
    by (metis length_map policies_valid_def)
qed (simp add: parse_policies_def policies_valid_def)

text \<open>The setting an operator writes for a set of policies.\<close>

definition policy_json :: "policy \<Rightarrow> json" where
  "policy_json p = JObj [(''priority'', JInt (priority p)), (''max_concurrency'', JInt (max_concurrency p))]"

definition policies_text :: "policies \<Rightarrow> string" where
  "policies_text ps = json_dumps (JObj (map (\<lambda>(w, p). (w, policy_json p)) ps))"

lemma policy_of_json: "policy_ok p \<Longrightarrow> policy_of (policy_json p) = Some p"
  by (auto simp: policy_of_def policy_json_def policy_ok_def)

lemma policies_of_json:
  "list_all (\<lambda>(w, p). policy_name_ok w \<and> policy_ok p) ps \<Longrightarrow>
   policies_of (map (\<lambda>(w, p). (w, policy_json p)) ps) = Some ps"
  by (induction ps) (auto simp: policy_of_json)

lemma small_int_dumpable: "0 \<le> i \<Longrightarrow> i \<le> 10000 \<Longrightarrow> dumpable (JInt i)"
proof -
  assume "0 \<le> i" "i \<le> 10000"
  moreover have "4 < py_max_digits" by (simp add: py_max_digits_def py_digit_limit_def)
  then have "(10 :: int) ^ 4 < 10 ^ py_max_digits" by (rule power_strict_increasing) simp
  ultimately show ?thesis by simp
qed

text \<open>
  The policy setting is read exactly. Whatever text is accepted yields at most 128 pools with
  distinct valid names, a priority within 0..10000 and a concurrency within 0..32; and any
  such set of policies, written as JSON, is read back as it was.
\<close>

theorem policies_read_back:
  "(\<forall>s ps. parse_policies s = Inr ps \<longrightarrow> policies_valid ps) \<and>
   (\<forall>ps. policies_valid ps \<and> ps \<noteq> [] \<longrightarrow> parse_policies (policies_text ps) = Inr ps)"
proof (intro conjI allI impI)
  fix s ps
  assume "parse_policies s = Inr ps"
  then show "policies_valid ps" by (rule parse_policies_valid)
next
  fix ps :: policies
  assume a: "policies_valid ps \<and> ps \<noteq> []"
  let ?ps = "map (\<lambda>(w, p). (w, policy_json p)) ps"
  have "dumpable (policy_json p)" if "policy_ok p" for p
    using that small_int_dumpable by (simp add: policy_json_def policy_ok_def)
  then have "dumpable (JObj ?ps)" using a by (auto simp: policies_valid_def list_all_iff)
  moreover have "map fst ?ps = map fst ps" by (induction ps) auto
  then have "unique_keys (JObj ?ps)" using a
    by (simp del: map_map) (auto simp: policies_valid_def list_all_iff policy_json_def)
  ultimately have l: "json_loads (policies_text ps) = Some (JObj ?ps)"
    unfolding policies_text_def by (rule json_loads_dumps)
  have "py_strip (policies_text ps) \<noteq> []"
  proof -
    have sp: "\<not> py_space CHR 0x7B" by (simp add: py_space_def)
    obtain r where "policies_text ps = CHR 0x7B # r" by (auto simp: policies_text_def)
    then have "dropWhile py_space (policies_text ps) = CHR 0x7B # r" using sp by simp
    then show ?thesis using sp by (auto simp: py_strip_def dropWhile_eq_Nil_conv)
  qed
  with l a policies_of_json [of ps] show "parse_policies (policies_text ps) = Inr ps"
    by (cases ps) (auto simp: parse_policies_def policies_valid_def)
qed

theorem policies_read_back_witness:
  "parse_policies (policies_text [(''gpu'', \<lparr>priority = 10, max_concurrency = 1\<rparr>)]) =
    Inr [(''gpu'', \<lparr>priority = 10, max_concurrency = 1\<rparr>)]"
proof -
  have "policies_valid [(''gpu'', \<lparr>priority = 10, max_concurrency = 1\<rparr>)]" by code_simp
  with policies_read_back show ?thesis by blast
qed

section \<open>The store's settings\<close>

type_synonym env = "string \<Rightarrow> string option"

text \<open>\<open>os.getenv(name, default)\<close>, and \<open>int\<close> of it.\<close>

definition getenv :: "env \<Rightarrow> string \<Rightarrow> string \<Rightarrow> string" where
  "getenv env n d = (case env n of None \<Rightarrow> d | Some v \<Rightarrow> v)"

definition getenv_int :: "env \<Rightarrow> string \<Rightarrow> string \<Rightarrow> (config_error, int) result" where
  "getenv_int env n d = (case py_int (getenv env n d) of None \<Rightarrow> Inl (InvalidInteger n) | Some i \<Rightarrow> Inr i)"

definition backend_of :: "string \<Rightarrow> (config_error, backend) result" where
  "backend_of s = (if s = ''postgres'' then Inr Postgres else if s = ''rabbitmq'' then Inr Rabbitmq
     else Inl (InvalidSetting ''QUEUE_BACKEND''))"

definition guard_setting :: "bool \<Rightarrow> string \<Rightarrow> (config_error, 'a) result \<Rightarrow> (config_error, 'a) result" where
  "guard_setting ok n k = (if ok then k else Inl (InvalidSetting n))"

text \<open>
  \<open>JobStore.__init__\<close>, its checks in the order of the constructor. The root directory it
  creates and the DSN it keeps have no part in the model.
\<close>

definition store_init :: "env \<Rightarrow> (config_error, store_config) result" where
  "store_init env =
     (if env ''DATABASE_URL'' = None then Inl (MissingVariable ''DATABASE_URL'') else
      res_bind (getenv_int env ''JOB_LEASE_SECONDS'' ''900'') (\<lambda>lease.
      res_bind (getenv_int env ''JOB_MAX_ATTEMPTS'' ''3'') (\<lambda>attempts.
      res_bind (parse_policies (getenv env ''WORKER_POLICIES'' [])) (\<lambda>pols.
      res_bind (backend_of (getenv env ''QUEUE_BACKEND'' ''postgres'')) (\<lambda>b.
      guard_setting (b \<noteq> Rabbitmq \<or> pols \<noteq> []) ''WORKER_POLICIES'' (
      res_bind (getenv_int env ''WORKER_DEMAND_TTL_S'' ''10'') (\<lambda>demand.
      guard_setting (5 \<le> demand \<and> demand \<le> 60) ''WORKER_DEMAND_TTL_S'' (
      let preferred = filter (\<lambda>v. v \<noteq> []) (map py_strip
            (py_split CHR '','' (getenv env ''PREFERRED_WORKER_IDS'' []))) in
      res_bind (getenv_int env ''WORKER_AVAILABILITY_TTL_S'' ''90'') (\<lambda>ttl.
      guard_setting (list_all worker_id_ok preferred) ''PREFERRED_WORKER_IDS'' (
      guard_setting (30 \<le> ttl \<and> ttl \<le> 600) ''WORKER_AVAILABILITY_TTL_S'' (
      guard_setting (3 \<le> lease \<and> 1 \<le> attempts) ''JOB_LEASE_SECONDS'' (
      Inr \<lparr>lease_seconds = lease, default_max_attempts = attempts, worker_policies = pols,
        queue_backend = b, demand_ttl_seconds = demand, preferred_workers = preferred,
        availability_ttl_seconds = ttl,
        storage_root = getenv env ''JOB_STORAGE_DIR'' ''/data/jobs''\<rparr>))))))))))))"

lemma guard_setting_Inr: "guard_setting ok n k = Inr x \<longleftrightarrow> ok \<and> k = Inr x"
  by (simp add: guard_setting_def)

lemmas result_simps = res_bind_Inr guard_setting_Inr

lemma store_init_valid:
  assumes "store_init env = Inr cfg"
  shows "3 \<le> lease_seconds cfg" and "0 < default_max_attempts cfg" and "policies_valid (worker_policies cfg)"
    and "queue_backend cfg = Rabbitmq \<Longrightarrow> worker_policies cfg \<noteq> []"
    and "5 \<le> demand_ttl_seconds cfg \<and> demand_ttl_seconds cfg \<le> 60"
    and "30 \<le> availability_ttl_seconds cfg \<and> availability_ttl_seconds cfg \<le> 600"
    and "list_all worker_id_ok (preferred_workers cfg)"
proof -
  define preferred where "preferred = filter (\<lambda>v. v \<noteq> []) (map py_strip
      (py_split CHR '','' (getenv env ''PREFERRED_WORKER_IDS'' [])))"
  obtain lease attempts pols b demand ttl where p: "parse_policies (getenv env ''WORKER_POLICIES'' []) = Inr pols"
    and c: "b \<noteq> Rabbitmq \<or> pols \<noteq> []" "5 \<le> demand \<and> demand \<le> 60" "list_all worker_id_ok preferred"
      "30 \<le> ttl \<and> ttl \<le> 600" "3 \<le> lease \<and> 1 \<le> attempts"
    and cfg: "cfg = \<lparr>lease_seconds = lease, default_max_attempts = attempts, worker_policies = pols,
        queue_backend = b, demand_ttl_seconds = demand, preferred_workers = preferred,
        availability_ttl_seconds = ttl, storage_root = getenv env ''JOB_STORAGE_DIR'' ''/data/jobs''\<rparr>"
    using assms unfolding store_init_def Let_def preferred_def [symmetric]
    by (simp add: result_simps split: if_splits) metis
  show "3 \<le> lease_seconds cfg" "0 < default_max_attempts cfg" "policies_valid (worker_policies cfg)"
    "queue_backend cfg = Rabbitmq \<Longrightarrow> worker_policies cfg \<noteq> []"
    "5 \<le> demand_ttl_seconds cfg \<and> demand_ttl_seconds cfg \<le> 60"
    "30 \<le> availability_ttl_seconds cfg \<and> availability_ttl_seconds cfg \<le> 600"
    "list_all worker_id_ok (preferred_workers cfg)"
    using c parse_policies_valid [OF p] by (simp_all add: cfg)
qed

section \<open>Limits\<close>

text \<open>\<open>MAX_RESULT_BYTES\<close>, \<open>DEFAULT_MAX_AUDIO_BYTES\<close>.\<close>

definition MAX_RESULT_BYTES :: int where
  "MAX_RESULT_BYTES = 4 * 1024 * 1024"

definition DEFAULT_MAX_AUDIO_BYTES :: int where
  "DEFAULT_MAX_AUDIO_BYTES = 256 * 1024 * 1024"

definition positive_limit :: "env \<Rightarrow> string \<Rightarrow> int \<Rightarrow> (config_error, int) result" where
  "positive_limit env n d = (case py_int (getenv env n (py_str_int d)) of
     None \<Rightarrow> Inl (InvalidLimit n)
   | Some v \<Rightarrow> if v \<le> 0 then Inl (InvalidLimit n) else Inr v)"

definition audio_limit :: "env \<Rightarrow> (config_error, int) result" where
  "audio_limit env = (case py_int (getenv env ''MAX_AUDIO_BYTES'' (py_str_int DEFAULT_MAX_AUDIO_BYTES)) of
     None \<Rightarrow> Inl (InvalidLimit ''MAX_AUDIO_BYTES'')
   | Some v \<Rightarrow> if v \<le> 0 then Inl (InvalidLimit ''MAX_AUDIO_BYTES'') else Inr v)"

record upload_limits =
  audio_bytes :: int
  storage_bytes :: int
  min_free_bytes :: int
  concurrent_uploads :: int

definition upload_limits_from_env :: "env \<Rightarrow> (config_error, upload_limits) result" where
  "upload_limits_from_env env =
     res_bind (audio_limit env) (\<lambda>a.
     res_bind (positive_limit env ''MAX_JOB_STORAGE_BYTES'' (8 * 1024 ^ 3)) (\<lambda>s.
     res_bind (positive_limit env ''MIN_JOB_STORAGE_FREE_BYTES'' (1024 ^ 3)) (\<lambda>f.
     res_bind (positive_limit env ''MAX_CONCURRENT_UPLOADS'' 4) (\<lambda>n.
     Inr \<lparr>audio_bytes = a, storage_bytes = s, min_free_bytes = f, concurrent_uploads = n\<rparr>))))"

lemma upload_limits_positive:
  assumes "upload_limits_from_env env = Inr l"
  shows "0 < audio_bytes l \<and> 0 < storage_bytes l \<and> 0 < min_free_bytes l \<and> 0 < concurrent_uploads l"
  using assms
  by (auto simp: upload_limits_from_env_def result_simps audio_limit_def positive_limit_def
      split: option.splits if_splits)

section \<open>A remote worker's token\<close>

definition byte_space :: "char \<Rightarrow> bool" where
  "byte_space c \<longleftrightarrow> (of_char c :: nat) \<in> {9, 10, 11, 12, 13, 32}"

definition bytes_strip :: "string \<Rightarrow> string" where
  "bytes_strip s = rev (dropWhile byte_space (rev (dropWhile byte_space s)))"

definition token_char :: "char \<Rightarrow> bool" where
  "token_char c \<longleftrightarrow> 33 \<le> (of_char c :: nat) \<and> (of_char c :: nat) \<le> 126"

text \<open>The code reads 4097 bytes: more than 4096 are refused, and fewer are the whole file.\<close>

definition read_token :: "string \<Rightarrow> (config_error, string) result" where
  "read_token content =
     (let token = bytes_strip content
      in if 4096 < int (length content) \<or> length token < 32 \<or> 512 < length token \<or>
            \<not> list_all token_char token
         then Inl (InvalidSetting ''REMOTE_WORKER_TOKEN_FILE'') else Inr token)"

end
