(* ===== verification/WorkerAuth.thy ===== *)
theory WorkerAuth
  imports Settings
begin

text \<open>
  \<open>whisper/worker_auth.py\<close>: the registry of worker credentials and the authentication of a
  request. \<open>sha\<close> is the hexadecimal SHA-256 digest of a text, any function here.
\<close>

section \<open>The registry\<close>

type_synonym credentials = "(string \<times> string) list"

definition digest_ok :: "string \<Rightarrow> bool" where
  "digest_ok s \<longleftrightarrow> class_match is_lower_hex 64 64 s"

text \<open>The \<open>workers\<close> object: valid names and digests.\<close>

fun hashes_of :: "(string \<times> json) list \<Rightarrow> credentials option" where
  "hashes_of [] = Some []"
| "hashes_of ((w, v) # ps) = (case v of
     JStr d \<Rightarrow> if worker_id_ok w \<and> digest_ok d then map_option ((#) (w, d)) (hashes_of ps) else None
   | _ \<Rightarrow> None)"

text \<open>
  \<open>from_file\<close>: \<open>content\<close> is the file, \<open>None\<close> when it cannot be read. The code reads 65537 bytes:
  a longer file is refused, and a shorter one is read whole. The one error stands for the one
  message.
\<close>

datatype registry_error = InvalidRegistry

definition registry_of :: "json \<Rightarrow> (registry_error, credentials) result" where
  "registry_of v = (case v of
     JObj ps \<Rightarrow>
       (if set (map fst ps) = {''version'', ''workers''} \<and> map_of ps ''version'' = Some (JInt 1)
        then (case map_of ps ''workers'' of
            Some (JObj ws) \<Rightarrow>
              (if 1 \<le> length ws \<and> length ws \<le> 128
               then (case hashes_of ws of
                   None \<Rightarrow> Inl InvalidRegistry
                 | Some hs \<Rightarrow> if length (remdups (map snd hs)) = length hs then Inr hs
                     else Inl InvalidRegistry)
               else Inl InvalidRegistry)
          | _ \<Rightarrow> Inl InvalidRegistry)
        else Inl InvalidRegistry)
   | _ \<Rightarrow> Inl InvalidRegistry)"

definition from_file :: "string option \<Rightarrow> (registry_error, credentials) result" where
  "from_file content = (case content of
     None \<Rightarrow> Inl InvalidRegistry
   | Some raw \<Rightarrow>
       (if 65536 < int (length raw) then Inl InvalidRegistry
        else (case json_loads_bytes_unique raw of
            None \<Rightarrow> Inl InvalidRegistry
          | Some v \<Rightarrow> registry_of v)))"

section \<open>Authentication\<close>

definition bearer :: string where
  "bearer = ''Bearer ''"

definition bearer_token_ok :: "string \<Rightarrow> bool" where
  "bearer_token_ok t \<longleftrightarrow> 32 \<le> length t \<and> length t \<le> 512 \<and> list_all token_char t"

text \<open>The loop keeps the last worker whose digest matches.\<close>

fun last_match :: "string \<Rightarrow> credentials \<Rightarrow> string option \<Rightarrow> string option" where
  "last_match d [] found = found"
| "last_match d ((w, h) # hs) found = last_match d hs (if d = h then Some w else found)"

definition authenticate :: "(string \<Rightarrow> string) \<Rightarrow> credentials \<Rightarrow> string \<Rightarrow> string option" where
  "authenticate sha creds a =
     (if \<not> prefix bearer a then None
      else (let t = drop 7 a in
        if \<not> bearer_token_ok t then None else last_match (sha t) creds None))"

section \<open>What the registry guarantees\<close>

definition creds_ok :: "credentials \<Rightarrow> bool" where
  "creds_ok cs \<longleftrightarrow> distinct (map fst cs) \<and> distinct (map snd cs) \<and>
     list_all (\<lambda>(w, d). worker_id_ok w \<and> digest_ok d) cs"

lemma hashes_of_ok:
  "hashes_of ps = Some cs \<Longrightarrow> map fst cs = map fst ps \<and> list_all (\<lambda>(w, d). worker_id_ok w \<and> digest_ok d) cs"
proof (induction ps arbitrary: cs rule: hashes_of.induct)
  case (2 w v ps)
  then obtain d where v: "v = JStr d" "worker_id_ok w" "digest_ok d"
    by (cases v) (simp_all split: if_splits)
  with 2(2) obtain cs' where "hashes_of ps = Some cs'" "cs = (w, d) # cs'" by auto
  with 2(1) v show ?case by simp
qed simp

lemma distinct_remdups: "length (remdups xs) = length xs \<Longrightarrow> distinct xs"
  by (simp add: length_remdups_eq)

lemma registry_of_ok:
  assumes "registry_of v = Inr cs" and "unique_keys v"
  shows "creds_ok cs"
proof -
  obtain ps where v: "v = JObj ps" using assms(1) by (cases v) (simp_all add: registry_of_def)
  obtain ws where ws: "map_of ps ''workers'' = Some (JObj ws)" and cs: "hashes_of ws = Some cs"
    and d: "length (remdups (map snd cs)) = length (map snd cs)"
    using assms(1) unfolding registry_of_def v
    by (simp split: if_splits option.splits json.splits)
  have "(''workers'', JObj ws) \<in> set ps" using ws by (rule map_of_SomeD)
  with assms(2) v have "distinct (map fst ws)" by (auto simp: list_all_iff)
  with hashes_of_ok [OF cs] distinct_remdups [OF d] show ?thesis by (simp add: creds_ok_def)
qed

lemma from_file_ok: "from_file content = Inr cs \<Longrightarrow> creds_ok cs"
  by (auto simp: from_file_def json_loads_bytes_unique_def json_loads_unique_def bind_eq_Some_conv
      split: option.splits if_splits intro: registry_of_ok)

lemma last_match_Some:
  "last_match d cs found = Some w \<Longrightarrow> found = Some w \<or> (w, d) \<in> set cs"
proof (induction cs arbitrary: found)
  case (Cons c cs)
  obtain v h where c: "c = (v, h)" by fastforce
  with Cons.prems have "last_match d cs (if d = h then Some v else found) = Some w" by simp
  from Cons.IH [OF this] c show ?case by (auto split: if_splits)
qed simp

lemma last_match_absent: "d \<notin> snd ` set cs \<Longrightarrow> last_match d cs found = found"
  by (induction cs arbitrary: found) auto

lemma last_match_unique:
  "distinct (map snd cs) \<Longrightarrow> (w, d) \<in> set cs \<Longrightarrow> last_match d cs found = Some w"
proof (induction cs arbitrary: found)
  case (Cons c cs)
  obtain v h where c: "c = (v, h)" by fastforce
  show ?case
  proof (cases "(v, h) = (w, d)")
    case True
    with Cons.prems c have "d \<notin> snd ` set cs" by auto
    with True c show ?thesis by (simp add: last_match_absent)
  next
    case False
    with Cons c show ?thesis by auto
  qed
qed simp

lemma authenticate_iff:
  assumes "creds_ok cs"
  shows "authenticate sha cs a = Some w \<longleftrightarrow>
    (\<exists>t. a = bearer @ t \<and> bearer_token_ok t \<and> map_of cs w = Some (sha t))"
proof -
  have m: "last_match d cs None = Some w \<longleftrightarrow> map_of cs w = Some d" for d
    using last_match_Some [of d cs None w] last_match_unique [of cs w d None] assms
    by (auto simp: creds_ok_def map_of_eq_Some_iff)
  have seven: "length bearer = 7" by (simp add: bearer_def)
  show ?thesis
  proof (cases "prefix bearer a")
    case True
    then obtain t where "a = bearer @ t" by (auto simp: prefix_def)
    with seven True m [of "sha t"] show ?thesis by (simp add: authenticate_def)
  next
    case False
    then show ?thesis by (auto simp: authenticate_def)
  qed
qed

section \<open>The interface of authentication\<close>

text \<open>
  What the worker endpoint relies on: an identity, when one is found, is a valid worker name.
  Then a lease token names one worker: no two identities are the part before a slash of it.
\<close>

locale authenticator =
  fixes valid :: "'c \<Rightarrow> bool"
    and auth :: "'c \<Rightarrow> string \<Rightarrow> string option"
  assumes identity_ok: "valid c \<Longrightarrow> auth c a = Some w \<Longrightarrow> worker_id_ok w"
begin

lemma identity_no_slash: "valid c \<Longrightarrow> auth c a = Some w \<Longrightarrow> CHR ''/'' \<notin> set w"
  using identity_ok class_match_slash by blast

text \<open>Two identities that both may present a token are the same.\<close>

lemma one_owner:
  assumes "valid c" and "auth c a = Some v" and "auth c b = Some w"
    and "prefix (v @ ''/'') token" and "prefix (w @ ''/'') token"
  shows "v = w"
proof -
  obtain r where "token = w @ ''/'' @ r" using assms(5) by (auto simp: prefix_def)
  with assms(4) slash_prefix_unique [OF identity_no_slash [OF assms(1,2)] identity_no_slash [OF assms(1,3)]]
  show ?thesis by simp
qed

end

interpretation registry: authenticator creds_ok "authenticate sha" for sha
proof
  fix cs a w
  assume ok: "creds_ok cs" and a: "authenticate sha cs a = Some w"
  then obtain d where "map_of cs w = Some d" using authenticate_iff [OF ok] by blast
  then have "(w, d) \<in> set cs" by (rule map_of_SomeD)
  with ok show "worker_id_ok w" by (auto simp: creds_ok_def list_all_iff)
qed

text \<open>
  C21: a worker authenticates exactly with its own token. With a registry the loader accepts, a
  request is given the identity of a worker if and only if its header is the bearer prefix
  followed by 32 to 512 printable characters whose digest is the one on file for that worker;
  so no header has two identities, and a worker the registry does not name never has one.
\<close>

theorem authentication_is_exact:
  assumes "from_file content = Inr cs"
  shows "(authenticate sha cs a = Some w \<longleftrightarrow>
      (\<exists>t. a = bearer @ t \<and> bearer_token_ok t \<and> map_of cs w = Some (sha t))) \<and>
    (\<forall>v w. map_of cs v = map_of cs w \<and> map_of cs v \<noteq> None \<longrightarrow> v = w)"
proof
  have ok: "creds_ok cs" using assms by (rule from_file_ok)
  then show "authenticate sha cs a = Some w \<longleftrightarrow>
      (\<exists>t. a = bearer @ t \<and> bearer_token_ok t \<and> map_of cs w = Some (sha t))"
    by (rule authenticate_iff)
  show "\<forall>v w. map_of cs v = map_of cs w \<and> map_of cs v \<noteq> None \<longrightarrow> v = w"
  proof (intro allI impI)
    fix v w
    assume a: "map_of cs v = map_of cs w \<and> map_of cs v \<noteq> None"
    then obtain d where "(v, d) \<in> set cs" "(w, d) \<in> set cs" by (metis map_of_SomeD not_None_eq)
    with ok distinct_key_eq [of snd cs "(v, d)" "(w, d)"] show "v = w" by (auto simp: creds_ok_def)
  qed
qed

definition demo_digest :: "string \<Rightarrow> string" where
  "demo_digest t = replicate 64 CHR ''a''"

definition demo_registry :: string where
  "demo_registry = json_dumps (JObj [(''version'', JInt 1),
     (''workers'', JObj [(''gpu'', JStr (demo_digest []))])])"

theorem authentication_is_exact_witness:
  "authenticate demo_digest [(''gpu'', demo_digest [])] (bearer @ replicate 32 CHR ''x'') = Some ''gpu''"
proof -
  have "from_file (Some demo_registry) = Inr [(''gpu'', demo_digest [])]" by code_simp
  moreover have "bearer_token_ok (replicate 32 CHR ''x'')" by code_simp
  ultimately show ?thesis
    using authentication_is_exact [of "Some demo_registry" "[(''gpu'', demo_digest [])]" demo_digest
        "bearer @ replicate 32 CHR ''x''" "''gpu''"] by (simp add: demo_digest_def)
qed

end
