(* ===== verification/WorkerApi.thy ===== *)
theory WorkerApi
  imports WorkerAuth Delivery
begin

text \<open>
  \<open>whisper/worker_api.py\<close>: the endpoint for remote workers. A request either aborts with a
  status or returns its response; the tables follow the store transactions it ran. What a
  handler reads from outside (the clocks and fresh UUIDs of its transactions, the rows locked by
  others, the job volume) is in \<open>api_env\<close>.
\<close>

section \<open>Requests and responses\<close>

datatype status_code = UNAUTHENTICATED | PERMISSION_DENIED | INVALID_ARGUMENT | FAILED_PRECONDITION
  | NOT_FOUND | RESOURCE_EXHAUSTED | ABORTED | CANCELLED | INTERNAL | UNKNOWN

datatype api_error = Abort status_code string

text \<open>A wire \<open>float\<close>: finite, or an infinity or NaN.\<close>

datatype wire_float = Finite rat | NonFinite

record wire_segment =
  ws_start :: wire_float
  ws_end :: wire_float
  ws_text :: string

record claim_response =
  cr_job_id :: string
  cr_lease_token :: string
  cr_lease_seconds :: int
  cr_format :: string
  cr_preset :: string
  cr_language :: string
  cr_initial_prompt :: string
  cr_input_size :: int
  cr_traceparent :: string
  cr_tracestate :: string

datatype worker_request =
  Claim string string
| RegisterConsumer string string
| BeginAttempt string string string string string
| ReportAvailability string string bool
| Heartbeat string string wire_float
| Complete string string string "wire_segment list"
| Fail string string string bool

datatype worker_response =
  ClaimResponse "claim_response option"
| ConsumerResponse bool int
| BeginResponse string "claim_response option"
| AvailabilityResponse bool int
| WorkerAck bool

record api_env =
  api_cfg :: store_config
  api_sha :: "string \<Rightarrow> string"
  api_creds :: credentials
  api_locked :: "string \<Rightarrow> bool"
  api_clock :: clock
  api_uuid :: string
  api_clock2 :: clock
  api_uuid2 :: string
  api_files :: files

type_synonym reply = "(api_error, worker_response) result \<times> db"

section \<open>Handlers\<close>

definition identity_of :: "api_env \<Rightarrow> string list \<Rightarrow> string option" where
  "identity_of e vals = (case vals of [a] \<Rightarrow> authenticate (api_sha e) (api_creds e) a | _ \<Rightarrow> None)"

text \<open>\<open>_authenticate\<close>; \<open>vals\<close> are the values of the request's authorization metadata.\<close>

definition auth_call ::
  "api_env \<Rightarrow> string list \<Rightarrow> string option \<Rightarrow> string option \<Rightarrow> (api_error, string) result" where
  "auth_call e vals worker token = (case identity_of e vals of
     None \<Rightarrow> Inl (Abort UNAUTHENTICATED ''Worker authentication required'')
   | Some w \<Rightarrow>
       if (worker \<noteq> None \<and> worker \<noteq> Some w) \<or>
          (case token of None \<Rightarrow> False | Some t \<Rightarrow> \<not> prefix (w @ ''/'') t)
       then Inl (Abort PERMISSION_DENIED ''Worker identity mismatch'') else Inr w)"

definition abort :: "status_code \<Rightarrow> string \<Rightarrow> db \<Rightarrow> reply" where
  "abort code msg d = (Inl (Abort code msg), d)"

text \<open>\<open>_claim_response\<close>\<close>

definition claim_reply ::
  "api_env \<Rightarrow> ClaimedJob \<Rightarrow> db \<Rightarrow> (api_error, claim_response) result \<times> db" where
  "claim_reply e claimed d =
     (let j = claimed_job claimed in
      case fs_read (api_files e) (JobRecord.input_path j) of
        None \<Rightarrow> (Inl (Abort FAILED_PRECONDITION ''Input is unavailable''),
          snd (fail_job (api_cfg e) (api_clock2 e) (api_uuid2 e) (JobRecord.job_id j) (claimed_owner claimed)
                 ''input_missing'' False d))
      | Some content \<Rightarrow> (Inr \<lparr>cr_job_id = JobRecord.job_id j, cr_lease_token = claimed_owner claimed,
          cr_lease_seconds = lease_seconds (api_cfg e), cr_format = JobRecord.job_format j,
          cr_preset = JobRecord.preset j, cr_language = JobRecord.language_override j,
          cr_initial_prompt = JobRecord.initial_prompt_override j, cr_input_size = int (length content),
          cr_traceparent = JobRecord.traceparent j, cr_tracestate = JobRecord.tracestate j\<rparr>, d))"

definition api_claim :: "api_env \<Rightarrow> string list \<Rightarrow> string \<Rightarrow> string \<Rightarrow> db \<Rightarrow> reply" where
  "api_claim e vals w inst d = (case auth_call e vals (Some w) None of
     Inl x \<Rightarrow> (Inl x, d)
   | Inr _ \<Rightarrow>
       if queue_backend (api_cfg e) = Rabbitmq
       then abort FAILED_PRECONDITION ''Use RabbitMQ delivery and BeginAttempt'' d
       else if \<not> worker_id_ok w then abort INVALID_ARGUMENT ''Invalid worker ID'' d
       else if inst \<noteq> [] \<and> \<not> canonical_uuid inst
       then abort INVALID_ARGUMENT ''Invalid worker instance ID'' d
       else (case claim_next_job (api_cfg e) (api_locked e) (api_clock e) (api_uuid e) w False inst d of
           (Inl _, d') \<Rightarrow> abort UNKNOWN ''Exception calling application'' d'
         | (Inr None, d') \<Rightarrow> (Inr (ClaimResponse None), d')
         | (Inr (Some j), d') \<Rightarrow>
             (case claim_reply e j d' of
                (Inl x, d'') \<Rightarrow> (Inl x, d'')
              | (Inr r, d'') \<Rightarrow> (Inr (ClaimResponse (Some r)), d''))))"

text \<open>\<open>_consumer_identity\<close>, in the two handlers of broker mode.\<close>

definition consumer_identity ::
  "api_env \<Rightarrow> string list \<Rightarrow> string \<Rightarrow> string \<Rightarrow> (api_error, string) result" where
  "consumer_identity e vals w inst = res_bind (auth_call e vals (Some w) None) (\<lambda>i.
     if \<not> canonical_uuid inst then Inl (Abort INVALID_ARGUMENT ''Invalid worker instance ID'')
     else if queue_backend (api_cfg e) \<noteq> Rabbitmq
     then Inl (Abort FAILED_PRECONDITION ''RabbitMQ is not enabled'') else Inr i)"

definition api_register :: "api_env \<Rightarrow> string list \<Rightarrow> string \<Rightarrow> string \<Rightarrow> db \<Rightarrow> reply" where
  "api_register e vals w inst d = (case consumer_identity e vals w inst of
     Inl x \<Rightarrow> (Inl x, d)
   | Inr _ \<Rightarrow> (case register_consumer (api_cfg e) (api_clock e) w inst d of
       (p, d') \<Rightarrow> (Inr (ConsumerResponse (p \<noteq> None) (case p of None \<Rightarrow> 0 | Some n \<Rightarrow> n)), d')))"

fun disposition_text :: "disposition \<Rightarrow> string" where
  "disposition_text Discard = ''discard''"
| "disposition_text Busy = ''busy''"
| "disposition_text Started = ''started''"

definition api_begin ::
  "api_env \<Rightarrow> string list \<Rightarrow> string \<Rightarrow> string \<Rightarrow> string \<Rightarrow> string \<Rightarrow> string \<Rightarrow> db \<Rightarrow> reply" where
  "api_begin e vals w inst i m delivery d = (case consumer_identity e vals w inst of
     Inl x \<Rightarrow> (Inl x, d)
   | Inr _ \<Rightarrow>
       if \<not> list_all canonical_uuid [i, m, delivery]
       then abort INVALID_ARGUMENT ''Invalid delivery identity'' d
       else (case begin_attempt (api_cfg e) (api_clock e) (api_uuid e) w inst i m delivery d of
           ((disp, None), d') \<Rightarrow> (Inr (BeginResponse (disposition_text disp) None), d')
         | ((disp, Some j), d') \<Rightarrow>
             (case claim_reply e j d' of
                (Inl x, d'') \<Rightarrow> (Inl x, d'')
              | (Inr r, d'') \<Rightarrow> (Inr (BeginResponse (disposition_text disp) (Some r)), d''))))"

definition api_report :: "api_env \<Rightarrow> string list \<Rightarrow> string \<Rightarrow> string \<Rightarrow> bool \<Rightarrow> db \<Rightarrow> reply" where
  "api_report e vals w inst ready d = (case auth_call e vals (Some w) None of
     Inl x \<Rightarrow> (Inl x, d)
   | Inr _ \<Rightarrow>
       if \<not> worker_id_ok w then abort INVALID_ARGUMENT ''Invalid worker ID'' d
       else if \<not> canonical_uuid inst then abort INVALID_ARGUMENT ''Invalid worker instance ID'' d
       else (case report_availability (api_cfg e) (tx_now (api_clock e)) w inst ready d of
           (ok, d') \<Rightarrow> (Inr (AvailabilityResponse ok (availability_ttl_seconds (api_cfg e))), d')))"

definition api_heartbeat :: "api_env \<Rightarrow> string list \<Rightarrow> string \<Rightarrow> string \<Rightarrow> wire_float \<Rightarrow> db \<Rightarrow> reply" where
  "api_heartbeat e vals i token prog d = (case auth_call e vals None (Some token) of
     Inl x \<Rightarrow> (Inl x, d)
   | Inr _ \<Rightarrow> (case prog of
       Finite p \<Rightarrow>
         if 0 \<le> p \<and> p \<le> 99
         then (case heartbeat (api_cfg e) (api_clock e) i token p d of (ok, d') \<Rightarrow> (Inr (WorkerAck ok), d'))
         else abort INVALID_ARGUMENT ''Progress must be within 0..99'' d
     | NonFinite \<Rightarrow> abort INVALID_ARGUMENT ''Progress must be within 0..99'' d))"

text \<open>The segments stored, or \<open>None\<close> when the timestamps of one are invalid.\<close>

fun stored_segments :: "wire_segment list \<Rightarrow> segment list option" where
  "stored_segments [] = Some []"
| "stored_segments (s # ss) = (case (ws_start s, ws_end s) of
     (Finite a, Finite b) \<Rightarrow>
       if 0 \<le> a \<and> a \<le> b
       then map_option ((#) \<lparr>seg_start = a, seg_end = b, seg_text = ws_text s\<rparr>) (stored_segments ss)
       else None
   | _ \<Rightarrow> None)"

text \<open>\<open>bsize\<close> is \<open>ByteSize()\<close> of the request message, by its fields.\<close>

definition api_complete ::
  "(string \<Rightarrow> string \<Rightarrow> string \<Rightarrow> wire_segment list \<Rightarrow> int) \<Rightarrow> api_env \<Rightarrow> string list \<Rightarrow> string \<Rightarrow> string
   \<Rightarrow> string \<Rightarrow> wire_segment list \<Rightarrow> db \<Rightarrow> reply" where
  "api_complete bsize e vals i token txt segs d = (case auth_call e vals None (Some token) of
     Inl x \<Rightarrow> (Inl x, d)
   | Inr _ \<Rightarrow>
       if MAX_RESULT_BYTES < bsize i token txt segs
       then abort RESOURCE_EXHAUSTED ''Result is too large'' d
       else (case stored_segments segs of
           None \<Rightarrow> abort INVALID_ARGUMENT ''Invalid segment timestamps'' d
         | Some ss \<Rightarrow> (case complete_job (tx_now (api_clock e)) i token txt ss [] d of
             (ok, d') \<Rightarrow> (Inr (WorkerAck ok), d'))))"

definition api_fail :: "api_env \<Rightarrow> string list \<Rightarrow> string \<Rightarrow> string \<Rightarrow> string \<Rightarrow> bool \<Rightarrow> db \<Rightarrow> reply" where
  "api_fail e vals i token code retryable d = (case auth_call e vals None (Some token) of
     Inl x \<Rightarrow> (Inl x, d)
   | Inr _ \<Rightarrow>
       if code \<notin> {''invalid_input'', ''inference_failed'', ''worker_stopping''}
       then abort INVALID_ARGUMENT ''Unknown worker error code'' d
       else (case fail_job (api_cfg e) (api_clock e) (api_uuid e) i token code retryable d of
           (ok, d') \<Rightarrow> (Inr (WorkerAck ok), d')))"

fun handle ::
  "(string \<Rightarrow> string \<Rightarrow> string \<Rightarrow> wire_segment list \<Rightarrow> int) \<Rightarrow> api_env \<Rightarrow> string list \<Rightarrow> worker_request
   \<Rightarrow> db \<Rightarrow> reply" where
  "handle bsize e vals (Claim w inst) d = api_claim e vals w inst d"
| "handle bsize e vals (RegisterConsumer w inst) d = api_register e vals w inst d"
| "handle bsize e vals (BeginAttempt w inst i m delivery) d = api_begin e vals w inst i m delivery d"
| "handle bsize e vals (ReportAvailability w inst ready) d = api_report e vals w inst ready d"
| "handle bsize e vals (Heartbeat i token prog) d = api_heartbeat e vals i token prog d"
| "handle bsize e vals (Complete i token txt segs) d = api_complete bsize e vals i token txt segs d"
| "handle bsize e vals (Fail i token code retryable) d = api_fail e vals i token code retryable d"

section \<open>Downloading\<close>

text \<open>
  \<open>_owned\<close>, and the stream of \<open>Download\<close>. Before each chunk the handler looks at the
  connection and at the lease again, so the tables of each look are a list of their own: the
  connection's state, the transaction's time and the tables. The list ending is the stream
  being abandoned there. The last component says how the stream ended.
\<close>

definition owned :: "api_env \<Rightarrow> string list \<Rightarrow> string \<Rightarrow> string \<Rightarrow> time \<Rightarrow> db \<Rightarrow> (api_error, JobRecord) result" where
  "owned e vals i token now d = res_bind (auth_call e vals None (Some token)) (\<lambda>_.
     if i = [] \<or> token = [] then Inl (Abort INVALID_ARGUMENT ''Job and lease token required'')
     else (case get_owned_job now i token d of
         None \<Rightarrow> Inl (Abort FAILED_PRECONDITION ''Lease is no longer owned'')
       | Some j \<Rightarrow> Inr j))"

fun stream_chunks ::
  "nat \<Rightarrow> string \<Rightarrow> string \<Rightarrow> (bool \<times> time \<times> db) list \<Rightarrow> string \<Rightarrow> string list \<times> (api_error, bool) result" where
  "stream_chunks n i token [] content = ([], Inr False)"
| "stream_chunks n i token ((active, now, d) # looks) content =
     (if \<not> active then ([], Inr False)
      else if get_owned_job now i token d = None
      then ([], Inl (Abort FAILED_PRECONDITION ''Lease is no longer owned''))
      else if content = [] then ([], Inr True)
      else (case stream_chunks n i token looks (drop n content) of
          (cs, end) \<Rightarrow> (take n content # cs, end)))"

definition chunk_bytes :: nat where
  "chunk_bytes = 1024 * 1024"

definition api_download ::
  "api_env \<Rightarrow> string list \<Rightarrow> string \<Rightarrow> string \<Rightarrow> time \<Rightarrow> db \<Rightarrow> (bool \<times> time \<times> db) list
   \<Rightarrow> string list \<times> (api_error, bool) result" where
  "api_download e vals i token now d looks = (case owned e vals i token now d of
     Inl x \<Rightarrow> ([], Inl x)
   | Inr j \<Rightarrow> (case fs_read (api_files e) (JobRecord.input_path j) of
       None \<Rightarrow> ([], Inl (Abort FAILED_PRECONDITION ''Input is unavailable''))
     | Some content \<Rightarrow> stream_chunks chunk_bytes i token looks content))"

section \<open>Strangers and other workers\<close>

text \<open>
  The row of a job, live to the end of the request, that a call leaves alone.
\<close>

definition spares :: "job \<Rightarrow> db \<Rightarrow> bool" where
  "spares r d \<longleftrightarrow> job_by_id (job_id r) d = Some r"

lemma spares_update:
  assumes "spares r d" and "\<And>x. P x \<Longrightarrow> job_id (f x) = job_id x" and "\<not> P r"
  shows "spares r (update_jobs now P f d)" and "spares r (update_jobs_quiet P f d)"
  using assms by (simp_all add: spares_def job_by_id_update_jobs job_by_id_update_quiet)

lemma spares_frame: "spares r d \<Longrightarrow> jobs d' = jobs d \<Longrightarrow> spares r d'"
  by (simp add: spares_def job_by_id_def)

lemma spares_heartbeat:
  "spares r d \<Longrightarrow> lease_owner r \<noteq> owner \<Longrightarrow> spares r (snd (heartbeat cfg c i owner p d))"
  unfolding heartbeat_def sql_heartbeat_def
  by (simp, rule spares_update(2)) (simp_all add: heartbeat_sel_def heartbeat_row_def)

lemma spares_complete:
  "spares r d \<Longrightarrow> lease_owner r \<noteq> owner \<Longrightarrow> spares r (snd (complete_job now i owner txt segs path d))"
  unfolding complete_job_def sql_complete_def
  by (simp, rule spares_update(1)) (simp_all add: owned_sel_def complete_row_def)

lemma spares_fail:
  assumes "tables_ok d" and "spares r d" and "lease_owner r \<noteq> owner"
  shows "spares r (snd (fail_job cfg c m i owner e retryable d))"
proof -
  let ?d = "sql_fail (tx_now c) retryable e i owner d"
  have 1: "spares r ?d" unfolding sql_fail_def
    by (rule spares_update(1) [OF assms(2)]) (simp_all add: fail_sel_def fail_row_def Let_def assms(3))
  have "spares r (enqueue clk m i delay ?d)" if acc: "one_row (fail_sel i owner (tx_now c)) d" for clk delay
  proof -
    have "job_id r \<noteq> i"
    proof
      assume i: "job_id r = i"
      from acc obtain x where "job_by_id i d = Some x" "fail_sel i owner (tx_now c) x"
        using one_row_sel [OF assms(1), of "fail_sel i owner (tx_now c)" i] by (auto simp: fail_sel_def)
      with assms(2,3) i show False by (simp add: spares_def fail_sel_def)
    qed
    then have "\<not> by_id i r" by (simp add: by_id_def)
    have "spares r (update_jobs_quiet (by_id i) (dispatch_row m) ?d)"
      by (rule spares_update(2) [OF 1]) (simp_all add: dispatch_row_def \<open>\<not> by_id i r\<close>)
    then show ?thesis
      by (rule spares_frame) (simp add: enqueue_def sql_outbox_insert_def sql_dispatch_def)
  qed
  with 1 show ?thesis by (auto simp: fail_job_def Let_def split: option.split)
qed

lemma live_not_startable: "live t r \<Longrightarrow> s \<le> t \<Longrightarrow> \<not> startable s r \<and> \<not> reap_sel s r"
  by (cases "lease_expires_at r") (auto simp: live_def startable_def reap_sel_def)

lemma spares_reap:
  assumes "spares r d" and "live t r" and "now \<le> t"
  shows "spares r (sql_reap now d)"
  unfolding sql_reap_def
  by (rule spares_update(1) [OF assms(1)])
    (simp_all add: exhausted_row_def live_not_startable [OF assms(2,3)])

lemma spares_start_candidate:
  assumes "tables_ok d" and "spares r d" and "live t r" and "s \<le> t"
    and "\<And>x. cand = Some x \<Longrightarrow> x \<in> set (jobs d) \<and> startable s x"
  shows "spares r (snd (start_candidate now (claim_row now clk owner lease w inst) cand d))"
proof (cases cand)
  case None
  then show ?thesis using assms(2) by (simp add: start_candidate_def)
next
  case (Some x)
  with assms(5) have x: "x \<in> set (jobs d)" "startable s x" by auto
  have "\<not> by_id (job_id x) r"
  proof
    assume "by_id (job_id x) r"
    with job_by_id_mem [OF tables_okD(1) [OF assms(1)] x(1)] assms(2) have "x = r"
      by (simp add: spares_def by_id_def)
    with x(2) live_not_startable [OF assms(3,4)] show False by simp
  qed
  then have "spares r (update_jobs now (by_id (job_id x)) (claim_row now clk owner lease w inst) d)"
    by (intro spares_update(1) [OF assms(2)]) (simp_all add: claim_row_def)
  with Some show ?thesis by (simp add: start_candidate_def Let_def)
qed

definition clock_before :: "clock \<Rightarrow> time \<Rightarrow> bool" where
  "clock_before c t \<longleftrightarrow> tx_now c \<le> t \<and> reading c 0 \<le> t \<and> reading c 1 \<le> t \<and> reading c 2 \<le> t"

lemma spares_claim:
  assumes "tables_ok d" and "spares r d" and "live t r" and "clock_before c t"
  shows "spares r (snd (claim_next_job cfg lk c u w fb inst d))"
proof -
  let ?d1 = "sql_reap (tx_now c) d"
  let ?d2 = "sql_request_work (reading c 0) (demand_ttl_seconds cfg) w inst ?d1"
  have le: "tx_now c \<le> t" "reading c 2 \<le> t" using assms(4) by (simp_all add: clock_before_def)
  have ok1: "tables_ok ?d1" by (rule keeps_ok [OF keeps_reap [OF assms(1)]])
  have ok2: "tables_ok ?d2" by (rule keeps_ok [OF keeps_request_work [OF ok1]])
  have s1: "spares r ?d1" by (rule spares_reap [OF assms(2,3) le(1)])
  have s2: "spares r ?d2" by (rule spares_frame [OF s1]) (simp add: sql_request_work_def)
  have slot: "spares r (snd (sql_claim_slot lk now (reading c 2) owner lease w inst ?d2))" for now owner lease
    unfolding sql_claim_slot_def
    by (rule spares_start_candidate [OF ok2 s2 assms(3) le(2)]) (auto dest: slot_candidate_Some)
  have legacy: "spares r (snd (sql_claim lk (tx_now c) fb' pref w inst owner lease ?d1))" for fb' pref owner lease
    unfolding sql_claim_def
    by (rule spares_start_candidate [OF ok1 s1 assms(3) le(1)]) (auto dest: legacy_candidate_Some)
  consider "queue_backend cfg = Rabbitmq" | "queue_backend cfg \<noteq> Rabbitmq" "worker_policies cfg \<noteq> []"
    | "queue_backend cfg \<noteq> Rabbitmq" "worker_policies cfg = []" by blast
  then show ?thesis
  proof cases
    case 1
    then show ?thesis using assms(2) by (simp add: claim_next_job_def)
  next
    case 2
    then show ?thesis using slot s2
      by (simp add: claim_next_job_def claim_by_policy_def Let_def split_beta split: option.split)
  next
    case 3
    then show ?thesis using legacy by (simp add: claim_next_job_def Let_def split_beta)
  qed
qed

lemma spares_begin:
  assumes "tables_ok d" and "spares r d" and "live t r" and "clock_before c t"
  shows "spares r (snd (begin_attempt cfg c u w inst i m delivery d))"
proof (cases "job_id r = i")
  case True
  then have "job_by_id i d = Some r" using assms(2) by (simp add: spares_def)
  moreover have "live (reading c 0) r" using live_antimono [OF assms(3)] assms(4) by (simp add: clock_before_def)
  ultimately have "snd (begin_attempt cfg c u w inst i m delivery d) = d"
    by (simp add: begin_attempt_def)
  with assms(2) show ?thesis by simp
next
  case False
  have up: "spares r (update_jobs now (by_id i) f d)" if "\<And>x. job_id (f x) = job_id x" for now f
    by (rule spares_update(1) [OF assms(2)]) (use that False in \<open>simp_all add: by_id_def\<close>)
  have ex: "spares r (sql_broker_exhausted now i d)" for now
    unfolding sql_broker_exhausted_def by (rule up) (simp add: exhausted_row_def)
  have st: "spares r (sql_broker_start now clk owner lease w inst delivery i d)" for now clk owner lease
    unfolding sql_broker_start_def by (rule up) (simp add: broker_start_row_def)
  show ?thesis
  proof (cases "job_by_id i d")
    case (Some x)
    with job_by_id_Some have "job_id x = i" by auto
    with Some ex st assms(2) show ?thesis
      by (auto simp: begin_attempt_def start_delivery_def Let_def split: option.split)
  qed (use assms(2) in \<open>simp add: begin_attempt_def\<close>)
qed

lemma new_lease_prefix: "prefix (w @ ''/'') (new_lease w u)"
  by (simp add: new_lease_def)

lemma claimed_owner_new:
  "claim_next_job cfg lk c u w fb inst d = (Inr (Some j), d') \<Longrightarrow> claimed_owner j = new_lease w u"
  by (auto simp: claim_next_job_def claim_by_policy_def Let_def claimed_of_def
      split: if_splits option.splits prod.splits)

lemma begun_owner_prefix:
  assumes "tables_ok d" and "begin_attempt cfg c u w inst i m delivery d = ((disp, Some j), d')"
  shows "prefix (w @ ''/'') (claimed_owner j)"
proof -
  have "disp = Started" using assms(2)
    by (auto simp: begin_attempt_def start_delivery_def Let_def split: option.splits if_splits)
  with assms(2) started_attempt obtain r where r: "job_by_id i d' = Some r" "j = claimed_of (lease_owner r) r"
    "attempt_of w inst m delivery r" by blast
  have "tables_ok d'" using keeps_ok [OF keeps_begin [OF assms(1)]] assms(2) by (metis snd_conv)
  then have "job_ok r" using r(1) job_by_id_Some tables_okD(2) by blast
  with r show ?thesis by (simp add: job_ok_def attempt_of_def claimed_of_def)
qed

lemma spares_claim_reply:
  assumes "tables_ok d" and "spares r d" and "lease_owner r \<noteq> claimed_owner j"
  shows "spares r (snd (claim_reply e j d))"
  using spares_fail [OF assms] assms(2) by (simp add: claim_reply_def Let_def split: option.split)

lemma abort_snd [simp]: "snd (abort code msg d) = d"
  by (simp add: abort_def)

text \<open>
  C23: the worker endpoint does nothing for strangers. A request without exactly one authorization
  value, or whose value authenticates no worker, is answered UNAUTHENTICATED, whatever it asks,
  and no table changes; one that names another worker than the authenticated one, or presents a
  lease token of another worker, is answered PERMISSION_DENIED and changes nothing either.
\<close>

theorem strangers_change_nothing:
  "(identity_of e vals = None \<longrightarrow> handle bsize e vals q d =
     (Inl (Abort UNAUTHENTICATED ''Worker authentication required''), d)) \<and>
   (\<forall>w. identity_of e vals = Some w \<and>
      (case q of Claim v inst \<Rightarrow> v \<noteq> w | RegisterConsumer v inst \<Rightarrow> v \<noteq> w
       | BeginAttempt v inst i m delivery \<Rightarrow> v \<noteq> w | ReportAvailability v inst ready \<Rightarrow> v \<noteq> w
       | Heartbeat i token p \<Rightarrow> \<not> prefix (w @ ''/'') token
       | Complete i token txt segs \<Rightarrow> \<not> prefix (w @ ''/'') token
       | Fail i token code retryable \<Rightarrow> \<not> prefix (w @ ''/'') token) \<longrightarrow>
      handle bsize e vals q d = (Inl (Abort PERMISSION_DENIED ''Worker identity mismatch''), d))"
  by (cases q)
    (simp_all add: api_claim_def api_register_def api_begin_def api_report_def api_heartbeat_def
      api_complete_def api_fail_def consumer_identity_def auth_call_def)

definition demo_env :: api_env where
  "demo_env = \<lparr>api_cfg = demo_cfg Postgres, api_sha = demo_digest, api_creds = [(''gpu'', demo_digest [])],
     api_locked = \<lambda>_. False, api_clock = at_time 3, api_uuid = demo_uuid CHR ''3'',
     api_clock2 = at_time 4, api_uuid2 = demo_uuid CHR ''4'', api_files = []\<rparr>"

theorem strangers_change_nothing_witness:
  "handle (\<lambda>_ _ _ _. 0) demo_env [''Bearer short''] (Claim ''gpu'' (demo_uuid CHR ''5'')) (sdb ready_sys) =
    (Inl (Abort UNAUTHENTICATED ''Worker authentication required''), sdb ready_sys)"
proof -
  have "identity_of demo_env [''Bearer short''] = None" by code_simp
  with strangers_change_nothing show ?thesis by blast
qed

lemma auth_call_identity:
  assumes "identity_of e vals = Some w"
  shows "auth_call e vals (Some v) None = Inr i \<Longrightarrow> v = w"
    and "auth_call e vals None (Some token) = Inr i \<Longrightarrow> prefix (w @ ''/'') token"
    and "consumer_identity e vals v inst = Inr i \<Longrightarrow> v = w"
  using assms by (auto simp: auth_call_def consumer_identity_def res_bind_Inr split: if_splits)

text \<open>Claims and deliveries leave what lives under the token of another worker.\<close>

lemma spares_api_claim:
  assumes "tables_ok d" and "identity_of e vals = Some w" and "spares r d" and "live t r"
    and "clock_before (api_clock e) t" and "\<not> prefix (w @ ''/'') (lease_owner r)"
  shows "spares r (snd (api_claim e vals v inst d))"
proof -
  define out where "out = claim_next_job (api_cfg e) (api_locked e) (api_clock e) (api_uuid e) v False inst d"
  obtain x d' where x: "out = (x, d')" by fastforce
  have "spares r (snd out)" "tables_ok (snd out)"
    unfolding out_def using spares_claim [OF assms(1,3-5)] keeps_ok [OF keeps_claim_next [OF assms(1)]] by blast+
  then have d': "spares r d'" "tables_ok d'" by (simp_all add: x)
  have "spares r (snd (claim_reply e j d'))" if "x = Inr (Some j)" "v = w" for j
  proof (rule spares_claim_reply [OF d'(2,1)])
    have "claimed_owner j = new_lease w (api_uuid e)"
      using claimed_owner_new x that unfolding out_def by blast
    with assms(6) new_lease_prefix show "lease_owner r \<noteq> claimed_owner j" by metis
  qed
  with d'(1) assms(3) auth_call_identity(1) [OF assms(2)] show ?thesis
    unfolding api_claim_def x [unfolded out_def] by (auto simp: split_beta split: sum.split option.split)
qed

lemma spares_api_begin:
  assumes "tables_ok d" and "identity_of e vals = Some w" and "spares r d" and "live t r"
    and "clock_before (api_clock e) t" and "\<not> prefix (w @ ''/'') (lease_owner r)"
  shows "spares r (snd (api_begin e vals v inst i m delivery d))"
proof -
  define out where "out = begin_attempt (api_cfg e) (api_clock e) (api_uuid e) v inst i m delivery d"
  obtain disp x d' where x: "out = ((disp, x), d')" by (metis prod.collapse)
  have "spares r (snd out)" "tables_ok (snd out)"
    unfolding out_def using spares_begin [OF assms(1,3-5)] keeps_ok [OF keeps_begin [OF assms(1)]] by blast+
  then have d': "spares r d'" "tables_ok d'" by (simp_all add: x)
  have "spares r (snd (claim_reply e j d'))" if "x = Some j" "v = w" for j
  proof (rule spares_claim_reply [OF d'(2,1)])
    have "prefix (w @ ''/'') (claimed_owner j)"
      using begun_owner_prefix [OF assms(1)] x that unfolding out_def by blast
    with assms(6) show "lease_owner r \<noteq> claimed_owner j" by metis
  qed
  with d'(1) assms(3) auth_call_identity(3) [OF assms(2)] show ?thesis
    unfolding api_begin_def x [unfolded out_def] by (auto simp: split_beta split: sum.split option.split)
qed

lemma spares_availability:
  assumes "spares r d"
  shows "spares r (snd (api_register e vals v inst d))" "spares r (snd (api_report e vals v inst ready d))"
proof -
  have "spares r (snd (register_consumer (api_cfg e) (api_clock e) v inst d))"
    by (rule spares_frame [OF assms]) (simp add: register_consumer_def sql_broker_admit_def Let_def
        split: option.split prod.split bool.split)
  with assms show "spares r (snd (api_register e vals v inst d))"
    by (simp add: api_register_def split_beta split: sum.split)
  have "spares r (snd (report_availability (api_cfg e) (tx_now (api_clock e)) v inst ready d))"
    by (rule spares_frame [OF assms]) (simp add: report_availability_def sql_report_availability_def
        sql_cleanup_availability_def Let_def)
  with assms show "spares r (snd (api_report e vals v inst ready d))"
    by (simp add: api_report_def split_beta split: sum.split)
qed

text \<open>
  C14: workers are isolated from each other. Whatever request a worker sends and whatever the
  answer, a job running under a lease that outlasts the request and whose token was not issued
  to that worker is exactly as it was.
\<close>

theorem workers_are_isolated:
  assumes "tables_ok d" and "identity_of e vals = Some w"
    and "r \<in> set (jobs d)" and "live t r" and "clock_before (api_clock e) t"
    and "\<not> prefix (w @ ''/'') (lease_owner r)"
  shows "job_by_id (job_id r) (snd (handle bsize e vals q d)) = Some r"
proof -
  have s: "spares r d" using job_by_id_mem [OF tables_okD(1) [OF assms(1)] assms(3)] by (simp add: spares_def)
  have token: "lease_owner r \<noteq> token" if "auth_call e vals None (Some token) = Inr i" for token i
    using auth_call_identity(2) [OF assms(2) that] assms(6) by blast
  have "spares r (snd (handle bsize e vals q d))"
  proof (cases q)
    case (Heartbeat i token p)
    with s token spares_heartbeat [OF s] show ?thesis
      by (auto simp: api_heartbeat_def split_beta split: sum.split wire_float.split)
  next
    case (Complete i token tx segs)
    with s token spares_complete [OF s] show ?thesis
      by (auto simp: api_complete_def split_beta split: sum.split option.split)
  next
    case (Fail i token code retryable)
    with s token spares_fail [OF assms(1) s] show ?thesis
      by (auto simp: api_fail_def split_beta split: sum.split)
  qed (simp_all add: spares_api_claim [OF assms(1,2) s assms(4-6)] spares_api_begin [OF assms(1,2) s assms(4-6)]
      spares_availability [OF s])
  then show ?thesis by (simp add: spares_def)
qed

definition rival_env :: api_env where
  "rival_env = demo_env\<lparr>api_creds := [(''cpu'', demo_digest [])]\<rparr>"

theorem workers_are_isolated_witness:
  "\<exists>r. job_by_id (demo_uuid CHR ''1'') (snd (handle (\<lambda>_ _ _ _. 0) rival_env
      [bearer @ replicate 32 CHR ''x''] (Fail (demo_uuid CHR ''1'') ''cpu/z'' ''invalid_input'' False) (sdb claimed_sys))) =
    Some r \<and> status r = Running"
proof -
  have ok: "tables_ok (sdb claimed_sys)"
    using reachable_sys_ok [OF claimed_sys_reachable demo_budget] by (simp add: sys_ok_def)
  have id: "identity_of rival_env [bearer @ replicate 32 CHR ''x''] = Some ''cpu''" by code_simp
  have cl: "clock_before (api_clock rival_env) 10" by code_simp
  have "map_option (\<lambda>r. (live 10 r, status r, prefix (''cpu'' @ ''/'') (lease_owner r)))
      (job_by_id (demo_uuid CHR ''1'') (sdb claimed_sys)) = Some (True, Running, False)" by code_simp
  then obtain r where r: "job_by_id (demo_uuid CHR ''1'') (sdb claimed_sys) = Some r" "live 10 r"
    "status r = Running" "\<not> prefix (''cpu'' @ ''/'') (lease_owner r)" by auto
  then have m: "r \<in> set (jobs (sdb claimed_sys))" "job_id r = demo_uuid CHR ''1''"
    using job_by_id_Some [OF r(1)] by auto
  from workers_are_isolated [OF ok id m(1) r(2) cl r(4), unfolded m(2)] r(3) show ?thesis by blast
qed

section \<open>The stream of a download\<close>

lemma stream_prefix: "prefix (concat (fst (stream_chunks n i token looks content))) content"
  by (induction n i token looks content rule: stream_chunks.induct)
    (auto simp: split_beta prefix_def, metis append.assoc append_take_drop_id)

lemma stream_whole:
  "snd (stream_chunks n i token looks content) = Inr True \<Longrightarrow>
   concat (fst (stream_chunks n i token looks content)) = content"
  by (induction n i token looks content rule: stream_chunks.induct) (auto simp: split_beta split: if_splits)

lemma stream_length: "length (fst (stream_chunks n i token looks content)) \<le> length looks"
  by (induction n i token looks content rule: stream_chunks.induct) (auto simp: split_beta)

definition held :: "string \<Rightarrow> string \<Rightarrow> bool \<times> time \<times> db \<Rightarrow> bool" where
  "held i token look = (case look of (active, now, d) \<Rightarrow> get_owned_job now i token d \<noteq> None)"

lemma stream_held:
  "list_all (held i token) (take (length (fst (stream_chunks n i token looks content))) looks)"
  by (induction n i token looks content rule: stream_chunks.induct) (auto simp: split_beta held_def)

lemma stream_lost:
  "snd (stream_chunks n i token looks content) = Inl x \<Longrightarrow>
   \<exists>look rest. looks = take (length (fst (stream_chunks n i token looks content))) looks @ look # rest \<and>
     \<not> held i token look"
  by (induction n i token looks content rule: stream_chunks.induct)
    (auto simp: split_beta held_def split: if_splits)

lemma stream_ends:
  assumes "0 < n" and "length content + n \<le> n * length looks" and "list_all (held i token) looks"
    and "list_all fst looks"
  shows "snd (stream_chunks n i token looks content) = Inr True"
  using assms
proof (induction n i token looks content rule: stream_chunks.induct)
  case (2 n i token active now d looks content)
  show ?case
  proof (cases "content = []")
    case True
    with "2.prems" show ?thesis by (simp add: held_def)
  next
    case False
    with "2.prems"(1,2) have "looks \<noteq> []" by (cases looks) auto
    with "2.prems"(1) have "n \<le> n * length looks" by (cases looks) auto
    moreover from "2.prems"(2) have "length content \<le> n * length looks" by simp
    ultimately have "length (drop n content) + n \<le> n * length looks" by (cases "n \<le> length content") simp_all
    with "2.IH" "2.prems" False show ?thesis by (auto simp: split_beta held_def)
  qed
qed simp

text \<open>
  C22: a download is the recording, and only for the owner of the lease. The chunks sent are a
  prefix of the recording; a stream that ends normally sent all of it; every chunk was sent just
  after a look that found the lease held; a stream that aborts met a look that found it lost;
  and a client that stays connected and keeps its lease for one look per chunk and one more gets
  the whole recording.
\<close>

theorem download_is_the_recording:
  assumes "api_download e vals i token now d looks = (chunks, end)" and "chunks \<noteq> [] \<or> end = Inr True"
  shows "\<exists>j content. get_owned_job now i token d = Some j \<and> fs_read (api_files e) (JobRecord.input_path j) = Some content \<and>
    prefix (concat chunks) content \<and>
    (end = Inr True \<longrightarrow> concat chunks = content) \<and>
    list_all (held i token) (take (length chunks) looks) \<and>
    (end \<noteq> Inr True \<and> end \<noteq> Inr False \<longrightarrow>
      (\<exists>look rest. looks = take (length chunks) looks @ look # rest \<and> \<not> held i token look)) \<and>
    (length content + chunk_bytes \<le> chunk_bytes * length looks \<and> list_all (held i token) looks \<and> list_all fst looks
      \<longrightarrow> end = Inr True)"
proof -
  have n: "0 < chunk_bytes" by (simp add: chunk_bytes_def)
  from assms obtain j content where j: "get_owned_job now i token d = Some j"
    "fs_read (api_files e) (JobRecord.input_path j) = Some content"
    "stream_chunks chunk_bytes i token looks content = (chunks, end)"
    by (auto simp: api_download_def owned_def res_bind_Inr split: sum.splits option.splits if_splits)
  have lost: "end \<noteq> Inr True \<and> end \<noteq> Inr False \<longrightarrow> (\<exists>x. end = Inl x)" by (cases "end") auto
  note facts = stream_prefix [of chunk_bytes i token looks content] stream_whole [of chunk_bytes i token looks content]
    stream_held [of i token chunk_bytes looks content] stream_lost [of chunk_bytes i token looks content]
    stream_ends [OF n, of content looks i token]
  show ?thesis using j(1,2) facts [unfolded j(3) fst_conv snd_conv] lost by blast
qed

definition download_env :: api_env where
  "download_env = demo_env\<lparr>api_files := [(''/data/jobs/'' @ demo_uuid CHR ''1'' @ ''/input.mp3'', ''abc'')]\<rparr>"

definition demo_looks :: "(bool \<times> time \<times> db) list" where
  "demo_looks = [(True, 5, sdb claimed_sys), (True, 6, sdb claimed_sys)]"

theorem download_is_the_recording_witness:
  "\<exists>j. get_owned_job 4 (demo_uuid CHR ''1'') (new_lease ''gpu'' (demo_uuid CHR ''3'')) (sdb claimed_sys) = Some j \<and>
     fs_read (api_files download_env) (JobRecord.input_path j) = Some ''abc''"
proof -
  let ?i = "demo_uuid CHR ''1''" and ?t = "new_lease ''gpu'' (demo_uuid CHR ''3'')"
    and ?vals = "[bearer @ replicate 32 CHR ''x'']"
  have c: "take chunk_bytes ''abc'' = ''abc''" "drop chunk_bytes ''abc'' = []" by (simp_all add: chunk_bytes_def)
  have "case owned download_env ?vals ?i ?t 4 (sdb claimed_sys) of
      Inr j \<Rightarrow> fs_read (api_files download_env) (JobRecord.input_path j) = Some ''abc'' | _ \<Rightarrow> False" by code_simp
  moreover have "get_owned_job 5 ?i ?t (sdb claimed_sys) \<noteq> None" "get_owned_job 6 ?i ?t (sdb claimed_sys) \<noteq> None"
    by code_simp+
  ultimately have "api_download download_env ?vals ?i ?t 4 (sdb claimed_sys) demo_looks = ([''abc''], Inr True)"
    by (auto simp: api_download_def demo_looks_def c split: sum.splits)
  from download_is_the_recording [OF this] show ?thesis by auto
qed

end
