(* ===== verification/Admission.thy ===== *)
theory Admission
  imports Settings Files
begin

text \<open>
  \<open>whisper/admission.py\<close>: the ingress writers of one job volume. Each operation runs under
  the volume's lock file, so it is one step here. What the file system does with the space is
  outside the program: \<open>alloc\<close> gives the bytes of the blocks a file of a size occupies,
  \<open>avail\<close> the free bytes \<open>shutil.disk_usage\<close> reports, \<open>blk\<close> the fragment size
  of \<open>statvfs\<close>; what the code relies on is the locale \<open>block_volume\<close>.
\<close>

section \<open>The volume\<close>

record volume =
  vol_files :: files
  vol_slots :: "(string \<times> bool) list"

text \<open>
  A slot is a token file of the control directory and whether a live process holds its lock.
  Files counted against the quota are those under the root, outside the control directory.
\<close>

datatype capacity_error =
  TooManyUploads
| BudgetExhausted
| ReserveReached
| IncompleteWrite
| WriteFailed int

datatype os_write = Wrote nat | Raised int

definition counted :: "string \<Rightarrow> string \<Rightarrow> bool" where
  "counted jroot p \<longleftrightarrow> prefix (path_join jroot []) p \<and> \<not> prefix (path_join jroot ''.admission/'') p"

fun stored_bytes :: "(int \<Rightarrow> int) \<Rightarrow> string \<Rightarrow> files \<Rightarrow> int" where
  "stored_bytes alloc jroot [] = 0"
| "stored_bytes alloc jroot ((p, c) # f) =
     (if counted jroot p then max (int (length c)) (alloc (int (length c))) else 0) + stored_bytes alloc jroot f"

definition round_up :: "int \<Rightarrow> int \<Rightarrow> int" where
  "round_up blk n = ((n + blk - 1) div blk) * blk"

definition check_capacity ::
  "(int \<Rightarrow> int) \<Rightarrow> (files \<Rightarrow> int) \<Rightarrow> int \<Rightarrow> upload_limits \<Rightarrow> string \<Rightarrow> int \<Rightarrow> files \<Rightarrow> (capacity_error, unit) result"
  where
  "check_capacity alloc avail blk lims jroot extra f =
     (let allocation = round_up blk extra in
      if storage_bytes lims < stored_bytes alloc jroot f + allocation then Inl BudgetExhausted
      else if avail f - allocation < min_free_bytes lims then Inl ReserveReached else Inr ())"

section \<open>Operations\<close>

text \<open>\<open>_active_uploads\<close> counts the held slots and unlinks the tokens whose owner is gone.\<close>

definition active_uploads :: "volume \<Rightarrow> int \<times> volume" where
  "active_uploads v = (int (length (filter snd (vol_slots v))), v\<lparr>vol_slots := filter snd (vol_slots v)\<rparr>)"

text \<open>The entry and the exit of \<open>upload\<close>; \<open>name\<close> is the fresh token.\<close>

definition upload_enter ::
  "(int \<Rightarrow> int) \<Rightarrow> (files \<Rightarrow> int) \<Rightarrow> int \<Rightarrow> upload_limits \<Rightarrow> string \<Rightarrow> string \<Rightarrow> volume
   \<Rightarrow> (capacity_error, unit) result \<times> volume" where
  "upload_enter alloc avail blk lims jroot name v = (case active_uploads v of (active, v1) \<Rightarrow>
     if concurrent_uploads lims \<le> active then (Inl TooManyUploads, v1)
     else (case check_capacity alloc avail blk lims jroot 0 (vol_files v1) of
         Inl e \<Rightarrow> (Inl e, v1)
       | Inr _ \<Rightarrow> (Inr (), v1\<lparr>vol_slots := (name, True) # vol_slots v1\<rparr>)))"

definition upload_leave :: "string \<Rightarrow> volume \<Rightarrow> volume" where
  "upload_leave name v = v\<lparr>vol_slots := filter (\<lambda>s. fst s \<noteq> name) (vol_slots v)\<rparr>"

text \<open>An unbuffered write: the bytes the system call took, or its error.\<close>

definition fs_append :: "string \<Rightarrow> string \<Rightarrow> files \<Rightarrow> files" where
  "fs_append p data f = fs_write p (case fs_read f p of None \<Rightarrow> data | Some c \<Rightarrow> c @ data) f"

definition write_chunk ::
  "(int \<Rightarrow> int) \<Rightarrow> (files \<Rightarrow> int) \<Rightarrow> int \<Rightarrow> upload_limits \<Rightarrow> string \<Rightarrow> string \<Rightarrow> string \<Rightarrow> os_write \<Rightarrow> volume
   \<Rightarrow> (capacity_error, unit) result \<times> volume" where
  "write_chunk alloc avail blk lims jroot p data wr v =
     (if data = [] then (Inr (), v)
      else (case check_capacity alloc avail blk lims jroot (int (length data)) (vol_files v) of
          Inl e \<Rightarrow> (Inl e, v)
        | Inr _ \<Rightarrow> (case wr of
            Raised n \<Rightarrow> (Inl (WriteFailed n), v)
          | Wrote k \<Rightarrow> (let v' = v\<lparr>vol_files := fs_append p (take k data) (vol_files v)\<rparr> in
              if k = length data then (Inr (), v') else (Inl IncompleteWrite, v')))))"

section \<open>Sizes\<close>

definition footprint :: "(int \<Rightarrow> int) \<Rightarrow> string \<Rightarrow> int" where
  "footprint alloc c = max (int (length c)) (alloc (int (length c)))"

lemma footprint_nonneg [simp]: "0 \<le> footprint alloc c"
  by (simp add: footprint_def)

lemma stored_Cons [simp]:
  "stored_bytes alloc jroot ((p, c) # f) = (if counted jroot p then footprint alloc c else 0) + stored_bytes alloc jroot f"
  by (simp add: footprint_def)

declare stored_bytes.simps(2) [simp del]

lemma stored_write:
  "stored_bytes alloc jroot (fs_write p c f) = stored_bytes alloc jroot f +
     (if counted jroot p then footprint alloc c - (case fs_read f p of None \<Rightarrow> 0 | Some b \<Rightarrow> footprint alloc b) else 0)"
  by (induction f) (auto simp: fs_write_def fs_read_def split: option.split)

lemma stored_unlink:
  "stored_bytes alloc jroot (fs_unlink p f) +
     (if counted jroot p then (case fs_read f p of None \<Rightarrow> 0 | Some b \<Rightarrow> footprint alloc b) else 0)
   \<le> stored_bytes alloc jroot f"
  unfolding fs_read_def fs_unlink_def
proof (induction f)
  case (Cons x f)
  have "0 \<le> (case map_of f p of None \<Rightarrow> 0 | Some b \<Rightarrow> footprint alloc b)"
    by (simp split: option.split)
  with Cons show ?case by (cases x) (auto split: if_splits)
qed simp

lemma stored_unlink_le: "stored_bytes alloc jroot (fs_unlink p f) \<le> stored_bytes alloc jroot f"
proof -
  have "0 \<le> (if counted jroot p then (case fs_read f p of None \<Rightarrow> 0 | Some b \<Rightarrow> footprint alloc b) else 0)"
    by (simp split: option.split)
  with stored_unlink [of alloc jroot p f] show ?thesis by linarith
qed

lemma stored_replace:
  assumes "fs_replace src dst f = Some f'" and "counted jroot src"
  shows "stored_bytes alloc jroot f' \<le> stored_bytes alloc jroot f"
proof -
  from assms(1) obtain c where c: "fs_read f src = Some c" "f' = fs_write dst c (fs_unlink src f)"
    by (auto simp: fs_replace_def)
  have "stored_bytes alloc jroot f' \<le> stored_bytes alloc jroot (fs_unlink src f) + footprint alloc c"
    unfolding c(2) stored_write by (simp split: option.split)
  with stored_unlink [of alloc jroot src f] c(1) assms(2) show ?thesis by simp
qed

lemma round_up_ge: "0 < blk \<Longrightarrow> n \<le> round_up blk n"
proof -
  assume b: "0 < blk"
  have "n + blk - 1 = (n + blk - 1) div blk * blk + (n + blk - 1) mod blk" by simp
  moreover from b have "(n + blk - 1) mod blk < blk" by simp
  ultimately show ?thesis unfolding round_up_def by linarith
qed

lemma round_up_mono: "0 < blk \<Longrightarrow> m \<le> n \<Longrightarrow> round_up blk m \<le> round_up blk n"
  unfolding round_up_def by (intro mult_right_mono zdiv_mono1) auto

lemma round_up_0 [simp]: "0 < blk \<Longrightarrow> round_up blk 0 = 0"
  by (simp add: round_up_def)

section \<open>The volume's promise\<close>

definition in_budget ::
  "(int \<Rightarrow> int) \<Rightarrow> (files \<Rightarrow> int) \<Rightarrow> upload_limits \<Rightarrow> string \<Rightarrow> files \<Rightarrow> bool" where
  "in_budget alloc avail lims jroot f \<longleftrightarrow>
     stored_bytes alloc jroot f \<le> storage_bytes lims \<and> min_free_bytes lims \<le> avail f"

text \<open>
  What the code relies on of the file system: an empty file occupies no blocks, growing a file
  by \<open>n\<close> bytes allocates at most \<open>n\<close> rounded up to whole fragments and takes no more than
  that from the free space, and neither unlinking nor renaming takes any.
\<close>

locale block_volume =
  fixes alloc :: "int \<Rightarrow> int" and avail :: "files \<Rightarrow> int" and blk :: int
  assumes blk_pos: "0 < blk"
    and alloc_empty: "alloc 0 = 0"
    and alloc_grow: "0 \<le> s \<Longrightarrow> 0 \<le> n \<Longrightarrow> alloc (s + n) \<le> alloc s + round_up blk n"
    and avail_append: "avail f - round_up blk (int (length c)) \<le> avail (fs_append p c f)"
    and avail_unlink: "avail f \<le> avail (fs_unlink p f)"
    and avail_replace: "fs_replace p q f = Some f' \<Longrightarrow> avail f \<le> avail f'"
begin

lemma stored_append:
  "stored_bytes alloc jroot (fs_append p c f) \<le> stored_bytes alloc jroot f + round_up blk (int (length c))"
proof (cases "fs_read f p")
  case None
  have "footprint alloc c \<le> round_up blk (int (length c))"
    using alloc_grow [of 0 "int (length c)"] round_up_ge [OF blk_pos, of "int (length c)"]
    by (simp add: footprint_def alloc_empty)
  moreover have "0 \<le> round_up blk (int (length c))" using round_up_ge [OF blk_pos, of "int (length c)"] by linarith
  ultimately show ?thesis using None by (simp add: fs_append_def stored_write)
next
  case (Some b)
  have "footprint alloc (b @ c) \<le> footprint alloc b + round_up blk (int (length c))"
    using alloc_grow [of "int (length b)" "int (length c)"] round_up_ge [OF blk_pos, of "int (length c)"]
    by (simp add: footprint_def max_def)
  moreover have "0 \<le> round_up blk (int (length c))" using round_up_ge [OF blk_pos, of "int (length c)"] by linarith
  ultimately show ?thesis using Some by (simp add: fs_append_def stored_write)
qed

lemma append_within:
  assumes "check_capacity alloc avail blk lims jroot n f = Inr ()" and "int (length c) \<le> n"
  shows "in_budget alloc avail lims jroot (fs_append p c f)"
  using assms stored_append [of jroot p c f] avail_append [of f c p] round_up_mono [OF blk_pos assms(2)]
  by (auto simp: check_capacity_def in_budget_def Let_def split: if_splits)

lemma unlink_within: "in_budget alloc avail lims jroot f \<Longrightarrow> in_budget alloc avail lims jroot (fs_unlink p f)"
  using stored_unlink_le [of alloc jroot p f] avail_unlink [of f p] by (auto simp: in_budget_def)

lemma replace_within:
  "in_budget alloc avail lims jroot f \<Longrightarrow> fs_replace p q f = Some f' \<Longrightarrow> counted jroot p \<Longrightarrow> in_budget alloc avail lims jroot f'"
  using stored_replace [of p q f f' jroot alloc] avail_replace [of p q f f'] by (auto simp: in_budget_def)

lemma create_within:
  assumes "in_budget alloc avail lims jroot f" and "fs_read f p = None"
  shows "in_budget alloc avail lims jroot (fs_write p [] f)"
proof -
  have "fs_write p [] f = fs_append p [] f" by (simp add: fs_append_def assms(2))
  with assms(1) stored_append [of jroot p "[]" f] avail_append [of f "[]" p] round_up_0 [OF blk_pos]
  show ?thesis by (simp add: in_budget_def)
qed

end

text \<open>The volume of a file system that allocates whole fragments out of \<open>volsize\<close> bytes.\<close>

fun used_blocks :: "int \<Rightarrow> files \<Rightarrow> int" where
  "used_blocks b [] = 0"
| "used_blocks b ((p, c) # f) = round_up b (int (length c)) + used_blocks b f"

definition free_blocks :: "int \<Rightarrow> int \<Rightarrow> files \<Rightarrow> int" where
  "free_blocks b volsize f = volsize - used_blocks b f"

lemma round_up_add: "0 < b \<Longrightarrow> round_up b (m + n) \<le> round_up b m + round_up b n"
proof -
  assume b: "0 < b"
  obtain x where x: "round_up b m = x * b" using round_up_def by blast
  obtain y where y: "round_up b n = y * b" using round_up_def by blast
  have "m + n \<le> (x + y) * b"
    using round_up_ge [OF b, of m] round_up_ge [OF b, of n] x y by (simp add: distrib_right)
  then have "round_up b (m + n) \<le> round_up b ((x + y) * b)" by (rule round_up_mono [OF b])
  also have "((x + y) * b + b - 1) div b = (x + y) + (b - 1) div b" using b
    by (metis add.commute add_diff_eq div_mult_self3 less_irrefl)
  then have "round_up b ((x + y) * b) = (x + y) * b" using b by (simp add: round_up_def)
  finally show ?thesis using x y by (simp add: distrib_right)
qed

lemma used_write:
  "used_blocks b (fs_write p c f) = used_blocks b f + round_up b (int (length c)) -
     (case fs_read f p of None \<Rightarrow> 0 | Some x \<Rightarrow> round_up b (int (length x)))"
  by (induction f) (auto simp: fs_write_def fs_read_def split: option.split)

lemma used_unlink:
  assumes "0 < b"
  shows "used_blocks b (fs_unlink p f) + (case fs_read f p of None \<Rightarrow> 0 | Some x \<Rightarrow> round_up b (int (length x)))
    \<le> used_blocks b f"
  unfolding fs_read_def fs_unlink_def
proof (induction f)
  case (Cons x f)
  have "0 \<le> round_up b (int (length c))" for c :: string
    using round_up_ge [OF assms, of "int (length c)"] by linarith
  then have "0 \<le> (case map_of f p of None \<Rightarrow> 0 | Some x \<Rightarrow> round_up b (int (length x)))"
    by (simp split: option.split)
  with Cons show ?case by (cases x) auto
qed simp

interpretation blocks: block_volume "round_up 4096" "free_blocks 4096 volsize" 4096
proof
  fix s n :: int and f f' :: files and p q c :: string
  show "round_up 4096 (s + n) \<le> round_up 4096 s + round_up 4096 n" by (rule round_up_add) simp
  have "round_up 4096 (int (length x) + int (length c)) \<le> round_up 4096 (int (length x)) + round_up 4096 (int (length c))"
    for x :: string by (rule round_up_add) simp
  note sub = this
  show "free_blocks 4096 volsize f - round_up 4096 (int (length c)) \<le> free_blocks 4096 volsize (fs_append p c f)"
    using sub [of "the (fs_read f p)"]
    by (cases "fs_read f p") (simp_all add: free_blocks_def fs_append_def used_write)
  have ge: "0 \<le> round_up 4096 (int (length x))" for x :: string
    using round_up_ge [of 4096 "int (length x)"] by linarith
  note unl = used_unlink [of 4096 p f]
  show "free_blocks 4096 volsize f \<le> free_blocks 4096 volsize (fs_unlink p f)"
    using unl ge by (force simp: free_blocks_def split: option.splits intro: order_trans [rotated])
  assume "fs_replace p q f = Some f'"
  then obtain x where x: "fs_read f p = Some x" "f' = fs_write q x (fs_unlink p f)"
    by (auto simp: fs_replace_def)
  have "used_blocks 4096 f' \<le> used_blocks 4096 (fs_unlink p f) + round_up 4096 (int (length x))"
    unfolding x(2) used_write using ge by (simp split: option.split)
  with unl x(1) show "free_blocks 4096 volsize f \<le> free_blocks 4096 volsize f'" by (simp add: free_blocks_def)
qed (simp_all add: round_up_def)

section \<open>Every interleaving of ingress processes\<close>

text \<open>
  One step of one process: an upload enters, writes, leaves or dies with its process (the system
  drops its locks), a file is created, unlinked or renamed into place.
\<close>

inductive volume_step ::
  "(int \<Rightarrow> int) \<Rightarrow> (files \<Rightarrow> int) \<Rightarrow> int \<Rightarrow> upload_limits \<Rightarrow> string \<Rightarrow> volume \<Rightarrow> volume \<Rightarrow> bool"
  for alloc avail blk lims jroot where
  enter: "name \<notin> fst ` set (vol_slots v) \<Longrightarrow> upload_enter alloc avail blk lims jroot name v = (r, v') \<Longrightarrow>
    volume_step alloc avail blk lims jroot v v'"
| leave: "volume_step alloc avail blk lims jroot v (upload_leave name v)"
| crash: "volume_step alloc avail blk lims jroot v
    (v\<lparr>vol_slots := map (\<lambda>(name, held). (name, held \<and> \<not> dead name)) (vol_slots v)\<rparr>)"
| chunk: "write_chunk alloc avail blk lims jroot p data wr v = (r, v') \<Longrightarrow>
    volume_step alloc avail blk lims jroot v v'"
| create: "fs_read (vol_files v) p = None \<Longrightarrow>
    volume_step alloc avail blk lims jroot v (v\<lparr>vol_files := fs_write p [] (vol_files v)\<rparr>)"
| unlink: "volume_step alloc avail blk lims jroot v (v\<lparr>vol_files := fs_unlink p (vol_files v)\<rparr>)"
| publish: "counted jroot p \<Longrightarrow> fs_replace p q (vol_files v) = Some f \<Longrightarrow>
    volume_step alloc avail blk lims jroot v (v\<lparr>vol_files := f\<rparr>)"

inductive_cases volume_step_cases: "volume_step alloc avail blk lims jroot v v'"

definition held_slots :: "volume \<Rightarrow> int" where
  "held_slots v = int (count_where snd (vol_slots v))"

definition volume_ok ::
  "(int \<Rightarrow> int) \<Rightarrow> (files \<Rightarrow> int) \<Rightarrow> upload_limits \<Rightarrow> string \<Rightarrow> volume \<Rightarrow> bool" where
  "volume_ok alloc avail lims jroot v \<longleftrightarrow> in_budget alloc avail lims jroot (vol_files v) \<and>
     distinct (map fst (vol_slots v)) \<and> held_slots v \<le> concurrent_uploads lims"

lemma count_filter_le: "count_where P (filter Q xs) \<le> count_where P xs"
  by (induction xs) auto

lemma distinct_filter_fst: "distinct (map fst xs) \<Longrightarrow> distinct (map fst (filter Q xs))"
  by (rule distinct_map_filter)

lemma enter_slots:
  assumes "upload_enter alloc avail blk lims jroot name v = (r, v')"
  shows "vol_files v' = vol_files v \<and>
    (v' = v\<lparr>vol_slots := filter snd (vol_slots v)\<rparr> \<or>
     v' = v\<lparr>vol_slots := (name, True) # filter snd (vol_slots v)\<rparr> \<and> held_slots v < concurrent_uploads lims)"
  using assms by (auto simp: upload_enter_def active_uploads_def held_slots_def count_where_def
      split: if_splits sum.splits)

lemma enter_files: "upload_enter alloc avail blk lims jroot name v = (r, v') \<Longrightarrow> vol_files v' = vol_files v"
  using enter_slots by blast

lemma enter_slots_of:
  "upload_enter alloc avail blk lims jroot name v = (Inr x, v') \<Longrightarrow>
   vol_slots v' = (name, True) # filter snd (vol_slots v)"
  by (auto simp: upload_enter_def active_uploads_def split: if_splits sum.splits)

lemma enter_refused:
  "upload_enter alloc avail blk lims jroot name v = (Inl x, v') \<Longrightarrow> vol_slots v' = filter snd (vol_slots v)"
  by (auto simp: upload_enter_def active_uploads_def split: if_splits sum.splits)

context block_volume
begin

lemma write_in_budget:
  assumes "write_chunk alloc avail blk lims jroot p data wr v = (r, v')"
    and "in_budget alloc avail lims jroot (vol_files v)"
  shows "in_budget alloc avail lims jroot (vol_files v') \<and> vol_slots v' = vol_slots v"
proof -
  have "int (length (take k data)) \<le> int (length data)" for k by simp
  with assms append_within [of lims jroot "int (length data)" "vol_files v"] show ?thesis
    by (auto simp: write_chunk_def Let_def split: if_splits sum.splits os_write.splits)
qed

lemma volume_step_ok:
  assumes "volume_step alloc avail blk lims jroot v v'" and "volume_ok alloc avail lims jroot v"
  shows "volume_ok alloc avail lims jroot v'"
  using assms(1)
proof (cases rule: volume_step.cases)
  case (enter name r)
  have le: "held_slots v \<le> concurrent_uploads lims" using assms(2) by (simp add: volume_ok_def)
  have 1: "count_where snd (filter snd (vol_slots v)) = count_where snd (vol_slots v)"
    by (simp add: count_where_filter)
  have 2: "distinct (map fst (filter snd (vol_slots v)))" "name \<notin> fst ` set (filter snd (vol_slots v))"
    using assms(2) enter(1) by (auto simp: volume_ok_def distinct_filter_fst)
  from enter_slots [OF enter(2)] assms(2) le 1 2 show ?thesis
    by (auto simp: volume_ok_def held_slots_def)
next
  case (leave name)
  have "count_where snd (filter (\<lambda>s. fst s \<noteq> name) (vol_slots v)) \<le> count_where snd (vol_slots v)"
    by (rule count_filter_le)
  with leave assms(2) distinct_filter_fst show ?thesis
    by (auto simp: volume_ok_def held_slots_def upload_leave_def)
next
  case (crash dead)
  have "count_where snd (map (\<lambda>(name, held). (name, held \<and> \<not> dead name)) xs) \<le> count_where snd xs" for xs
    by (induction xs) auto
  moreover have "map fst (map (\<lambda>(name, held). (name, held \<and> \<not> dead name)) xs) = map fst xs" for xs
    by (induction xs) auto
  moreover have "int (count_where snd (vol_slots v)) \<le> concurrent_uploads lims"
    using assms(2) by (simp add: volume_ok_def held_slots_def)
  ultimately show ?thesis using crash assms(2)
    by (auto simp: volume_ok_def held_slots_def simp del: map_map
        intro: order_trans [of _ "int (count_where snd (vol_slots v))"])
next
  case (chunk p data wr r)
  with write_in_budget [OF chunk] assms(2) show ?thesis by (simp add: volume_ok_def held_slots_def)
next
  case (create p)
  with create_within assms(2) show ?thesis by (simp add: volume_ok_def held_slots_def)
next
  case (unlink p)
  with unlink_within assms(2) show ?thesis by (simp add: volume_ok_def held_slots_def)
next
  case (publish p q f)
  with replace_within [OF _ publish(3,2)] assms(2) show ?thesis by (simp add: volume_ok_def held_slots_def)
qed

lemma volume_steps_ok:
  "(volume_step alloc avail blk lims jroot)\<^sup>*\<^sup>* v v' \<Longrightarrow> volume_ok alloc avail lims jroot v \<Longrightarrow>
   volume_ok alloc avail lims jroot v'"
  by (induction rule: rtranclp_induct) (auto intro: volume_step_ok)

end

text \<open>
  C18: the job volume stays within its limits. On a file system that keeps the promises of
  \<open>block_volume\<close>, from a volume within its byte budget and free-space reserve, whatever the
  ingress processes do in whatever order, crashes and short writes included, the stored bytes
  never exceed the budget, the reserve stays free, and no more uploads than allowed hold a slot.
\<close>

theorem volume_stays_within_limits:
  assumes "block_volume alloc avail blk"
    and "(volume_step alloc avail blk lims jroot)\<^sup>*\<^sup>* \<lparr>vol_files = f, vol_slots = []\<rparr> v"
    and "in_budget alloc avail lims jroot f" and "0 \<le> concurrent_uploads lims"
  shows "stored_bytes alloc jroot (vol_files v) \<le> storage_bytes lims \<and>
    min_free_bytes lims \<le> avail (vol_files v) \<and>
    int (count_where snd (vol_slots v)) \<le> concurrent_uploads lims"
proof -
  have "volume_ok alloc avail lims jroot v"
    by (rule block_volume.volume_steps_ok [OF assms(1,2)])
      (use assms(3,4) in \<open>simp add: volume_ok_def held_slots_def\<close>)
  then show ?thesis by (simp add: volume_ok_def in_budget_def held_slots_def)
qed

definition demo_limits :: upload_limits where
  "demo_limits = \<lparr>audio_bytes = 10, storage_bytes = 10000, min_free_bytes = 4096, concurrent_uploads = 1\<rparr>"

lemma demo_concurrent: "0 \<le> concurrent_uploads demo_limits"
  by (simp add: demo_limits_def)

definition demo_volume :: volume where
  "demo_volume = \<lparr>vol_files = [(''/data/jobs/a/input.mp3'', ''abc'')], vol_slots = []\<rparr>"

theorem volume_stays_within_limits_witness:
  "case upload_enter (round_up 4096) (free_blocks 4096 20000) 4096 demo_limits ''/data/jobs'' ''a.slot'' demo_volume of
    (r, v) \<Rightarrow> r = Inr () \<and> held_slots v \<le> 1"
proof -
  obtain r v where v: "upload_enter (round_up 4096) (free_blocks 4096 20000) 4096 demo_limits ''/data/jobs''
      ''a.slot'' demo_volume = (r, v)" by fastforce
  have "fst (upload_enter (round_up 4096) (free_blocks 4096 20000) 4096 demo_limits ''/data/jobs''
      ''a.slot'' demo_volume) = Inr ()" by code_simp
  with v have r: "r = Inr ()" by simp
  have "volume_step (round_up 4096) (free_blocks 4096 20000) 4096 demo_limits ''/data/jobs'' demo_volume v"
    by (rule volume_step.enter [OF _ v]) (simp add: demo_volume_def)
  moreover have "in_budget (round_up 4096) (free_blocks 4096 20000) demo_limits ''/data/jobs'' (vol_files demo_volume)"
    by code_simp
  moreover have "block_volume (round_up 4096) (free_blocks 4096 20000) 4096" by (rule blocks.block_volume_axioms)
  moreover have "demo_volume = \<lparr>vol_files = vol_files demo_volume, vol_slots = []\<rparr>" by (simp add: demo_volume_def)
  ultimately have "int (count_where snd (vol_slots v)) \<le> concurrent_uploads demo_limits"
    using volume_stays_within_limits [of "round_up 4096" "free_blocks 4096 20000" 4096 demo_limits
        "''/data/jobs''" "vol_files demo_volume" v] r_into_rtranclp demo_concurrent by metis
  with v r show ?thesis by (simp add: held_slots_def demo_limits_def)
qed

text \<open>
  Admission recovers from crashes and refuses only for cause. An upload is admitted exactly
  when fewer live uploads than allowed hold a slot and the volume is within its budget and
  reserve; the tokens of dead processes are gone afterwards either way, and the admitted upload
  holds one more slot, which leaving gives back.
\<close>

theorem upload_admitted_iff:
  assumes "0 < blk" and "name \<notin> fst ` set (vol_slots v)"
    and "upload_enter alloc avail blk lims jroot name v = (r, v')"
  shows "(r = Inr () \<longleftrightarrow> held_slots v < concurrent_uploads lims \<and> in_budget alloc avail lims jroot (vol_files v)) \<and>
    vol_files v' = vol_files v \<and>
    (if r = Inr () then vol_slots v' = (name, True) # filter snd (vol_slots v)
     else vol_slots v' = filter snd (vol_slots v)) \<and>
    vol_slots (upload_leave name v') = filter snd (vol_slots v)"
proof -
  have "filter (\<lambda>s. fst s \<noteq> name) (filter snd (vol_slots v)) = filter snd (vol_slots v)"
    using assms(2) by (induction "vol_slots v") (auto intro!: filter_cong simp: rev_image_eqI)
  with assms(1,3) show ?thesis
    by (auto simp: upload_enter_def active_uploads_def check_capacity_def in_budget_def held_slots_def
        upload_leave_def count_where_def Let_def split: if_splits)
qed

theorem upload_admitted_iff_witness:
  "upload_enter (round_up 4096) (free_blocks 4096 20000) 4096 demo_limits ''/data/jobs'' ''b.slot''
     (demo_volume\<lparr>vol_slots := [(''a.slot'', False)]\<rparr>) =
   (Inr (), demo_volume\<lparr>vol_slots := [(''b.slot'', True)]\<rparr>)"
proof -
  let ?v = "demo_volume\<lparr>vol_slots := [(''a.slot'', False)]\<rparr>"
  obtain r v where v: "upload_enter (round_up 4096) (free_blocks 4096 20000) 4096 demo_limits ''/data/jobs''
      ''b.slot'' ?v = (r, v)" by fastforce
  have "held_slots ?v < concurrent_uploads demo_limits \<and>
    in_budget (round_up 4096) (free_blocks 4096 20000) demo_limits ''/data/jobs'' (vol_files ?v)" by code_simp
  with upload_admitted_iff [OF _ _ v] have "r = Inr ()" "vol_files v = vol_files ?v"
    "vol_slots v = [(''b.slot'', True)]" by auto
  with v show ?thesis by simp
qed

end
