(* ===== verification/Ingress.thy ===== *)
theory Ingress
  imports Admission WorkerApi StoreOps
begin

text \<open>
  \<open>whisper/server.py\<close>, the public endpoint: uploading a recording, asking for its status,
  cancelling, acknowledging, and the synchronous call built on them.
\<close>

section \<open>Requests\<close>

record upload_chunk =
  ck_format :: string
  ck_request_id :: string
  ck_retain :: bool
  ck_options :: "(string \<times> string \<times> string) option"
  ck_data :: string

text \<open>
  What a submission meets outside: the settings and clocks of its transactions, the trace
  carrier, fresh names, the results of its writes (complete when the list is exhausted), the
  errors of \<open>fsync\<close>, of \<open>rename\<close> and of syncing the directory, whether the call is still active at the end of the
  stream and whether the stream raises there, and what other processes do to the tables while
  the recording streams in.
\<close>

record submit_env =
  se_cfg :: store_config
  se_hash :: "string \<Rightarrow> int"
  se_settings :: env
  se_trace :: "string \<times> string"
  se_job :: string
  se_messages :: "string \<times> string"
  se_part :: string
  se_slot :: string
  se_times :: "nat \<Rightarrow> clock"
  se_alloc :: "int \<Rightarrow> int"
  se_avail :: "files \<Rightarrow> int"
  se_blk :: int
  se_writes :: "os_write list"
  se_sync :: "int option"
  se_rename :: "int option"
  se_dirsync :: "int option"
  se_active :: bool
  se_broken :: bool
  se_meanwhile :: "db \<Rightarrow> db"

record ingress =
  in_db :: db
  in_vol :: volume

datatype submit_reply =
  Submitted string nat
| CodeSet status_code string
| Aborted status_code string
| Uncaught

datatype upload_failure =
  TooLarge
| Capacity capacity_error
| OsError int
| StreamBroken
| Interrupted

definition ENOSPC :: int where "ENOSPC = 28"
definition EDQUOT :: int where "EDQUOT = 122"
definition EEXIST :: int where "EEXIST = 17"
definition ENOENT :: int where "ENOENT = 2"

text \<open>\<open>exhausted\<close>: a \<open>CapacityExceeded\<close>, or an \<open>OSError\<close> of a full disk.\<close>

fun exhausted :: "upload_failure \<Rightarrow> bool" where
  "exhausted (Capacity (WriteFailed n)) = (n = ENOSPC \<or> n = EDQUOT)"
| "exhausted (Capacity IncompleteWrite) = False"
| "exhausted (Capacity TooManyUploads) = True"
| "exhausted (Capacity BudgetExhausted) = True"
| "exhausted (Capacity ReserveReached) = True"
| "exhausted (OsError n) = (n = ENOSPC \<or> n = EDQUOT)"
| "exhausted TooLarge = False"
| "exhausted StreamBroken = False"
| "exhausted Interrupted = False"

section \<open>Receiving the recording\<close>

text \<open>The loop over the chunks; \<open>n\<close> is \<open>total\<close>.\<close>

fun receive_chunks ::
  "submit_env \<Rightarrow> upload_limits \<Rightarrow> string \<Rightarrow> int \<Rightarrow> string list \<Rightarrow> os_write list \<Rightarrow> volume
   \<Rightarrow> (upload_failure, unit) result \<times> volume" where
  "receive_chunks e lims part n [] ws v = (if se_broken e then Inl StreamBroken else Inr (), v)"
| "receive_chunks e lims part n (c # cs) ws v =
     (let n' = n + int (length c) in
      if audio_bytes lims < n' then (Inl TooLarge, v)
      else if c = [] then receive_chunks e lims part n' cs ws v
      else (case write_chunk (se_alloc e) (se_avail e) (se_blk e) lims (storage_root (se_cfg e)) part c
                   (case ws of [] \<Rightarrow> Wrote (length c) | w # _ \<Rightarrow> w) v of
          (Inl x, v') \<Rightarrow> (Inl (Capacity x), v')
        | (Inr _, v') \<Rightarrow> receive_chunks e lims part n' cs (drop 1 ws) v'))"

text \<open>The \<open>with admission.upload(), temporary.open("xb")\<close> block.\<close>

definition receive_upload ::
  "submit_env \<Rightarrow> upload_limits \<Rightarrow> string \<Rightarrow> string list \<Rightarrow> volume
   \<Rightarrow> (upload_failure, unit) result \<times> volume" where
  "receive_upload e lims part cs v =
     (case upload_enter (se_alloc e) (se_avail e) (se_blk e) lims (storage_root (se_cfg e)) (se_slot e) v of
        (Inl x, v1) \<Rightarrow> (Inl (Capacity x), v1)
      | (Inr _, v1) \<Rightarrow>
          if fs_read (vol_files v1) part \<noteq> None then (Inl (OsError EEXIST), upload_leave (se_slot e) v1)
          else (case receive_chunks e lims part 0 cs (se_writes e)
                       (v1\<lparr>vol_files := fs_write part [] (vol_files v1)\<rparr>) of
              (Inl x, v2) \<Rightarrow> (Inl x, upload_leave (se_slot e) v2)
            | (Inr _, v2) \<Rightarrow>
                ((if \<not> se_active e then Inl Interrupted
                  else (case se_sync e of Some n \<Rightarrow> Inl (OsError n) | None \<Rightarrow> Inr ())),
                 upload_leave (se_slot e) v2)))"

text \<open>
  The rename into place under the admission lock, then the directory's \<open>fsync\<close>: when that
  fails the recording is in place all the same.
\<close>

definition publish_upload :: "submit_env \<Rightarrow> string \<Rightarrow> string \<Rightarrow> volume \<Rightarrow> (upload_failure, unit) result \<times> volume" where
  "publish_upload e part input v = (case se_rename e of
     Some n \<Rightarrow> (Inl (OsError n), v)
   | None \<Rightarrow> (case fs_replace part input (vol_files v) of
       None \<Rightarrow> (Inl (OsError ENOENT), v)
     | Some f \<Rightarrow>
         (case se_dirsync e of Some n \<Rightarrow> Inl (OsError n) | None \<Rightarrow> Inr (), v\<lparr>vol_files := f\<rparr>)))"

definition store_upload ::
  "submit_env \<Rightarrow> upload_limits \<Rightarrow> string \<Rightarrow> string \<Rightarrow> string list \<Rightarrow> volume
   \<Rightarrow> (upload_failure, unit) result \<times> volume" where
  "store_upload e lims part input cs v = (case receive_upload e lims part cs v of
     (Inl x, v') \<Rightarrow> (Inl x, v')
   | (Inr _, v') \<Rightarrow> publish_upload e part input v')"

section \<open>Submitting\<close>

fun failure_code :: "upload_failure \<Rightarrow> string" where
  "failure_code x = (if x = TooLarge then ''input_too_large''
     else if exhausted x then ''storage_capacity'' else ''upload_failed'')"

fun failure_reply :: "upload_failure \<Rightarrow> submit_reply" where
  "failure_reply x =
     (if x = TooLarge then Aborted RESOURCE_EXHAUSTED ''Audio upload exceeds the configured limit''
      else if exhausted x
      then Aborted RESOURCE_EXHAUSTED ''Upload capacity exhausted; retry the same request ID''
      else Aborted INTERNAL ''Upload interrupted; retry the same request ID'')"

text \<open>What the \<open>except\<close> clause does to the job.\<close>

definition settle_failure :: "submit_env \<Rightarrow> JobRecord \<Rightarrow> upload_failure \<Rightarrow> db \<Rightarrow> db" where
  "settle_failure e j x d =
     (if JobRecord.request_id j \<noteq> [] \<and> x \<noteq> TooLarge
      then mark_upload_interrupted (tx_now (se_times e 2)) (JobRecord.job_id j) d
      else snd (fail_job (se_cfg e) (se_times e 2) (fst (se_messages e)) (JobRecord.job_id j) []
             (failure_code x) False d))"

definition part_path :: "submit_env \<Rightarrow> string \<Rightarrow> string" where
  "part_path e input = path_with_name input (''upload-'' @ se_part e @ ''.part'')"

text \<open>\<open>_submit_reserved\<close>; \<open>cs\<close> is the data of the chunks, the first included.\<close>

definition submit_reserved ::
  "submit_env \<Rightarrow> upload_limits \<Rightarrow> UploadReservation \<Rightarrow> string list \<Rightarrow> ingress \<Rightarrow> submit_reply \<times> ingress" where
  "submit_reserved e lims u cs s =
     (let j = up_job u; i = JobRecord.job_id j; d = in_db s in
      if \<not> needs_upload u
      then (Submitted i (if in_queue (JobRecord.status j) then queue_position i d else 0), s)
      else (let d1 = se_meanwhile e (mark_downloading (tx_now (se_times e 1)) i d);
                input = up_input_path u;
                part = part_path e input;
                v0 = (in_vol s)\<lparr>vol_files := unlink_partials (path_parent input) (vol_files (in_vol s))\<rparr>
            in case store_upload e lims part input cs v0 of
                 (Inl x, v1) \<Rightarrow> (failure_reply x,
                    \<lparr>in_db = settle_failure e j x d1, in_vol = v1\<lparr>vol_files := fs_unlink part (vol_files v1)\<rparr>\<rparr>)
               | (Inr _, v1) \<Rightarrow>
                   (case mark_queued (se_cfg e) (se_times e 3) (snd (se_messages e)) i d1 of
                      (None, d2) \<Rightarrow> (Aborted CANCELLED ''Upload was cancelled'', \<lparr>in_db = d2, in_vol = v1\<rparr>)
                    | (Some _, d2) \<Rightarrow> (Submitted i (queue_position i d2), \<lparr>in_db = d2, in_vol = v1\<rparr>))))"

definition format_ok :: "string \<Rightarrow> bool" where
  "format_ok f = class_match is_alnum 1 12 f"

definition request_id_ok :: "string \<Rightarrow> bool" where
  "request_id_ok r = class_match (\<lambda>c. is_alnum c \<or> c \<in> {CHR ''_'', CHR ''.'', CHR '':'', CHR ''-''}) 1 200 r"

definition upload_request_of :: "submit_env \<Rightarrow> upload_chunk \<Rightarrow> upload_request" where
  "upload_request_of e c = (case (case ck_options c of None \<Rightarrow> (''auto'', [], [])
       | Some (p, l, t) \<Rightarrow> (if p = [] then ''auto'' else p, l, t)) of (p, l, t) \<Rightarrow>
     \<lparr>rq_request_id = ck_request_id c, rq_retain = ck_retain c, rq_format = ck_format c,
      rq_preset = p, rq_language = l, rq_prompt = t,
      rq_traceparent = fst (se_trace e), rq_tracestate = snd (se_trace e)\<rparr>)"

text \<open>The reserved part of \<open>Submit\<close>: the exit of \<open>reserve_upload\<close> releases the lock on every path.\<close>

definition submit_request ::
  "submit_env \<Rightarrow> upload_limits \<Rightarrow> upload_chunk \<Rightarrow> string list \<Rightarrow> ingress \<Rightarrow> submit_reply \<times> ingress" where
  "submit_request e lims first cs s =
     (case reserve_upload (se_hash e) (se_cfg e) (tx_now (se_times e 0)) (se_job e)
             (upload_request_of e first) (in_db s) of
        (Inl UploadBusy, d) \<Rightarrow>
          (Aborted ABORTED ''Upload already in progress; retry the same request ID'', s\<lparr>in_db := d\<rparr>)
      | (Inl UploadConflict, d) \<Rightarrow>
          (Aborted INVALID_ARGUMENT ''Request ID was reused with different upload options'', s\<lparr>in_db := d\<rparr>)
      | (Inl _, d) \<Rightarrow> (Uncaught, s\<lparr>in_db := d\<rparr>)
      | (Inr u, d) \<Rightarrow>
          (case submit_reserved e lims u cs (s\<lparr>in_db := d\<rparr>) of
             (r, s') \<Rightarrow> (r, s'\<lparr>in_db := release_upload (se_hash e) (ck_request_id first) (in_db s')\<rparr>)))"

text \<open>\<open>Submit\<close>\<close>

definition submit :: "submit_env \<Rightarrow> upload_chunk list \<Rightarrow> ingress \<Rightarrow> submit_reply \<times> ingress" where
  "submit e chunks s = (case chunks of
     [] \<Rightarrow> (if se_broken e then Uncaught
            else CodeSet INVALID_ARGUMENT ''First chunk must contain a non-empty format field'', s)
   | first # _ \<Rightarrow>
       if ck_format first = []
       then (CodeSet INVALID_ARGUMENT ''First chunk must contain a non-empty format field'', s)
       else if \<not> format_ok (ck_format first) then (Aborted INVALID_ARGUMENT ''Invalid audio format'', s)
       else (case upload_limits_from_env (se_settings e) of
           Inl _ \<Rightarrow> (Uncaught, s)
         | Inr lims \<Rightarrow>
             if ck_request_id first \<noteq> [] \<and> \<not> request_id_ok (ck_request_id first)
             then (Aborted INVALID_ARGUMENT ''Invalid upload request ID'', s)
             else submit_request e lims first (map ck_data chunks) s))"

section \<open>What an upload does to the volume\<close>

lemma append_read: "fs_read f p = Some c \<Longrightarrow> fs_append p d f = fs_write p (c @ d) f"
  by (simp add: fs_append_def)

lemma write_chunk_frame:
  assumes "write_chunk alloc avail blk lims jroot p data wr v = (r, v')"
  shows "vol_slots v' = vol_slots v \<and> (\<forall>q. q \<noteq> p \<longrightarrow> fs_read (vol_files v') q = fs_read (vol_files v) q)"
  using assms by (auto simp: write_chunk_def Let_def fs_append_def split: if_splits sum.splits os_write.splits)

lemma write_chunk_ok:
  assumes "write_chunk alloc avail blk lims jroot p data wr v = (Inr x, v')" and "fs_read (vol_files v) p = Some c"
  shows "fs_read (vol_files v') p = Some (c @ data)"
  using assms by (auto simp: write_chunk_def Let_def fs_append_def split: if_splits sum.splits os_write.splits)

lemma receive_chunks_frame:
  assumes "receive_chunks e lims part n cs ws v = (r, v')"
  shows "vol_slots v' = vol_slots v \<and> (\<forall>q. q \<noteq> part \<longrightarrow> fs_read (vol_files v') q = fs_read (vol_files v) q)"
  using assms
proof (induction cs arbitrary: n ws v)
  case (Cons c cs)
  then show ?case
    by (force simp: Let_def dest: write_chunk_frame split: if_splits prod.splits sum.splits)
qed simp

lemma receive_chunks_ok:
  assumes "receive_chunks e lims part n cs ws v = (Inr x, v')" and "fs_read (vol_files v) part = Some c"
    and "n \<le> audio_bytes lims"
  shows "fs_read (vol_files v') part = Some (c @ concat cs) \<and> n + int (length (concat cs)) \<le> audio_bytes lims \<and>
    \<not> se_broken e"
  using assms
proof (induction cs arbitrary: n ws v c)
  case Nil
  then show ?case by (auto split: if_splits)
next
  case (Cons b cs)
  show ?case
  proof (cases "b = []")
    case True
    with Cons show ?thesis by (auto split: if_splits)
  next
    case False
    let ?w = "case ws of [] \<Rightarrow> Wrote (length b) | w # _ \<Rightarrow> w"
    have fits: "n + int (length b) \<le> audio_bytes lims"
      using Cons.prems(1) by (auto simp: Let_def split: if_splits)
    obtain y v1 where w: "write_chunk (se_alloc e) (se_avail e) (se_blk e) lims (storage_root (se_cfg e)) part b ?w v = (y, v1)"
      by fastforce
    with Cons.prems(1) False fits obtain z where z: "y = Inr z"
      "receive_chunks e lims part (n + int (length b)) cs (drop 1 ws) v1 = (Inr x, v')"
      by (cases y) (auto simp: Let_def)
    from w have "fs_read (vol_files v1) part = Some (c @ b)"
      unfolding z(1) using Cons.prems(2) by (rule write_chunk_ok)
    from Cons.IH [OF z(2) this fits] show ?thesis by simp
  qed
qed

text \<open>The slots after an upload are those of the live uploads before it.\<close>

lemma leave_enter:
  assumes "vol_slots v' = vol_slots v1" and "name \<notin> fst ` set (vol_slots v)"
    and "upload_enter alloc avail blk lims jroot name v = (Inr x, v1)"
  shows "vol_slots (upload_leave name v') = filter snd (vol_slots v)"
proof -
  have "filter (\<lambda>s. fst s \<noteq> name) (filter snd xs) = filter snd xs" if "name \<notin> fst ` set xs" for xs
    using that by (induction xs) auto
  with assms enter_slots_of [OF assms(3)] show ?thesis by (simp add: upload_leave_def)
qed

lemma receive_upload_frame:
  assumes "receive_upload e lims part cs v = (r, v')" and "se_slot e \<notin> fst ` set (vol_slots v)"
  shows "vol_slots v' = filter snd (vol_slots v) \<and>
    (\<forall>q. q \<noteq> part \<longrightarrow> fs_read (vol_files v') q = fs_read (vol_files v) q)"
proof -
  obtain y v1 where en: "upload_enter (se_alloc e) (se_avail e) (se_blk e) lims (storage_root (se_cfg e)) (se_slot e) v = (y, v1)"
    by fastforce
  have f1: "vol_files v1 = vol_files v" using enter_files [OF en] .
  show ?thesis
  proof (cases y)
    case (Inl a)
    with en enter_refused [of "se_alloc e" "se_avail e"] assms(1) f1 show ?thesis by (auto simp: receive_upload_def)
  next
    case (Inr b)
    note en' = en [unfolded Inr]
    show ?thesis
    proof (cases "fs_read (vol_files v1) part")
      case (Some c)
      with assms(1) en' f1 leave_enter [OF refl assms(2) en'] show ?thesis
        by (auto simp: receive_upload_def upload_leave_def)
    next
      case None
      obtain z v2 where rc: "receive_chunks e lims part 0 cs (se_writes e)
          (v1\<lparr>vol_files := fs_write part [] (vol_files v1)\<rparr>) = (z, v2)" by fastforce
      note fr = receive_chunks_frame [OF rc]
      have "v' = upload_leave (se_slot e) v2"
        using assms(1) en' None rc by (cases z) (auto simp: receive_upload_def)
      with fr f1 leave_enter [of v2 v1, OF _ assms(2) en'] show ?thesis by (auto simp: upload_leave_def)
    qed
  qed
qed

lemma receive_upload_ok:
  assumes "receive_upload e lims part cs v = (Inr x, v')" and "0 \<le> audio_bytes lims"
  shows "fs_read (vol_files v') part = Some (concat cs) \<and> int (length (concat cs)) \<le> audio_bytes lims \<and>
    se_active e \<and> \<not> se_broken e"
proof -
  obtain y v1 where en: "upload_enter (se_alloc e) (se_avail e) (se_blk e) lims (storage_root (se_cfg e)) (se_slot e) v = (y, v1)"
    by fastforce
  obtain z v2 where rc: "receive_chunks e lims part 0 cs (se_writes e)
      (v1\<lparr>vol_files := fs_write part [] (vol_files v1)\<rparr>) = (z, v2)" by fastforce
  from assms(1) en rc have "\<exists>u. z = Inr u" "v' = upload_leave (se_slot e) v2" "se_active e"
    by (auto simp: receive_upload_def split: sum.splits if_splits)
  then show ?thesis using receive_chunks_ok [of e lims part 0 cs "se_writes e" _ _ v2 "[]"] rc assms(2)
    by (auto simp: upload_leave_def)
qed

lemma store_upload_ok:
  assumes "store_upload e lims part input cs v = (Inr x, v')" and "0 \<le> audio_bytes lims"
    and "se_slot e \<notin> fst ` set (vol_slots v)"
  shows "fs_read (vol_files v') input = Some (concat cs)"
    and "int (length (concat cs)) \<le> audio_bytes lims \<and> se_active e \<and> \<not> se_broken e"
    and "vol_slots v' = filter snd (vol_slots v)"
    and "\<And>q. q \<noteq> input \<Longrightarrow> fs_read (vol_files v') q = (if q = part then None else fs_read (vol_files v) q)"
proof -
  obtain y v1 where rc: "receive_upload e lims part cs v = (Inr y, v1)" and p: "publish_upload e part input v1 = (Inr x, v')"
    using assms(1) by (auto simp: store_upload_def split: prod.splits sum.splits)
  from p obtain f where f: "fs_replace part input (vol_files v1) = Some f" "v' = v1\<lparr>vol_files := f\<rparr>"
    by (auto simp: publish_upload_def split: option.splits)
  note ok = receive_upload_ok [OF rc assms(2)] and fr = receive_upload_frame [OF rc assms(3)]
  show "fs_read (vol_files v') input = Some (concat cs)"
    using f ok by (auto simp: fs_replace_def)
  show "int (length (concat cs)) \<le> audio_bytes lims \<and> se_active e \<and> \<not> se_broken e" using ok by simp
  show "vol_slots v' = filter snd (vol_slots v)" using f fr by simp
  show "fs_read (vol_files v') q = (if q = part then None else fs_read (vol_files v) q)" if "q \<noteq> input" for q
    using f fr that by (auto simp: fs_replace_def)
qed

lemma store_upload_err:
  assumes "store_upload e lims part input cs v = (Inl x, v')" and "0 \<le> audio_bytes lims"
    and "se_slot e \<notin> fst ` set (vol_slots v)"
  shows "vol_slots v' = filter snd (vol_slots v)"
    and "\<And>q. q \<noteq> part \<Longrightarrow> fs_read (vol_files v') q = fs_read (vol_files v) q \<or>
      q = input \<and> fs_read (vol_files v') q = Some (concat cs) \<and>
      int (length (concat cs)) \<le> audio_bytes lims \<and> se_active e \<and> \<not> se_broken e"
proof -
  obtain y v1 where rc: "receive_upload e lims part cs v = (y, v1)" by fastforce
  note fr = receive_upload_frame [OF rc assms(3)]
  have "v' = v1 \<or> (\<exists>z f. y = Inr z \<and> fs_replace part input (vol_files v1) = Some f \<and> v' = v1\<lparr>vol_files := f\<rparr>)"
    using assms(1) rc by (cases y) (auto simp: store_upload_def publish_upload_def split: option.splits)
  then consider "v' = v1" | z f where "y = Inr z" "fs_replace part input (vol_files v1) = Some f" "v' = v1\<lparr>vol_files := f\<rparr>"
    by blast
  then have "vol_slots v' = filter snd (vol_slots v) \<and> (\<forall>q. q \<noteq> part \<longrightarrow> fs_read (vol_files v') q = fs_read (vol_files v) q \<or>
      q = input \<and> fs_read (vol_files v') q = Some (concat cs) \<and>
      int (length (concat cs)) \<le> audio_bytes lims \<and> se_active e \<and> \<not> se_broken e)"
  proof cases
    case 1
    with fr show ?thesis by simp
  next
    case 2
    with fr receive_upload_ok [OF rc [unfolded 2(1)] assms(2)] show ?thesis
      by (auto simp: fs_replace_def split: if_splits)
  qed
  then show "vol_slots v' = filter snd (vol_slots v)"
    and "\<And>q. q \<noteq> part \<Longrightarrow> fs_read (vol_files v') q = fs_read (vol_files v) q \<or>
      q = input \<and> fs_read (vol_files v') q = Some (concat cs) \<and>
      int (length (concat cs)) \<le> audio_bytes lims \<and> se_active e \<and> \<not> se_broken e" by blast+
qed

section \<open>What a submission leaves behind\<close>

text \<open>The files and slots after the upload part of a submission.\<close>

definition clean_after :: "submit_env \<Rightarrow> int \<Rightarrow> string list \<Rightarrow> volume \<Rightarrow> volume \<Rightarrow> bool" where
  "clean_after e bound cs v v' \<longleftrightarrow>
     (vol_slots v' = vol_slots v \<or> vol_slots v' = filter snd (vol_slots v)) \<and>
     (\<forall>p c. fs_read (vol_files v') p = Some c \<longrightarrow> fs_read (vol_files v) p = Some c \<or>
        c = concat cs \<and> int (length c) \<le> bound \<and> se_active e \<and> \<not> se_broken e)"

lemma submit_reserved_clean:
  assumes "submit_reserved e lims u cs s = (r, s')" and "0 \<le> audio_bytes lims"
    and "se_slot e \<notin> fst ` set (vol_slots (in_vol s))"
  shows "clean_after e (audio_bytes lims) cs (in_vol s) (in_vol s')"
proof (cases "needs_upload u")
  case False
  with assms(1) show ?thesis by (auto simp: submit_reserved_def Let_def clean_after_def)
next
  case True
  let ?input = "up_input_path u" and ?part = "part_path e (up_input_path u)"
  define v0 where "v0 = (in_vol s)\<lparr>vol_files := unlink_partials (path_parent ?input) (vol_files (in_vol s))\<rparr>"
  have v0: "vol_slots v0 = vol_slots (in_vol s)" "fs_read (vol_files v0) p = Some c \<Longrightarrow> fs_read (vol_files (in_vol s)) p = Some c"
    for p c by (auto simp: v0_def fs_read_unlink_partials split: if_splits)
  have fresh: "se_slot e \<notin> fst ` set (vol_slots v0)" using assms(3) v0(1) by simp
  obtain y v1 where st: "store_upload e lims ?part ?input cs v0 = (y, v1)" by fastforce
  show ?thesis
  proof (cases y)
    case (Inl x)
    with assms(1) True st have s': "in_vol s' = v1\<lparr>vol_files := fs_unlink ?part (vol_files v1)\<rparr>"
      by (auto simp: submit_reserved_def Let_def v0_def [symmetric])
    note err = store_upload_err [OF st [unfolded Inl] assms(2) fresh]
    show ?thesis unfolding clean_after_def
    proof (intro conjI allI impI)
      show "vol_slots (in_vol s') = vol_slots (in_vol s) \<or> vol_slots (in_vol s') = filter snd (vol_slots (in_vol s))"
        using s' err(1) v0(1) by simp
      fix p c assume "fs_read (vol_files (in_vol s')) p = Some c"
      with s' have "p \<noteq> ?part" "fs_read (vol_files v1) p = Some c" by (auto split: if_splits)
      with err(2) [of p] v0(2) [of p c] show "fs_read (vol_files (in_vol s)) p = Some c \<or>
          c = concat cs \<and> int (length c) \<le> audio_bytes lims \<and> se_active e \<and> \<not> se_broken e" by auto
    qed
  next
    case (Inr x)
    with assms(1) True st have s': "in_vol s' = v1"
      by (auto simp: submit_reserved_def Let_def v0_def [symmetric] split: option.splits prod.splits)
    note ok = store_upload_ok [OF st [unfolded Inr] assms(2) fresh]
    show ?thesis unfolding clean_after_def
    proof (intro conjI allI impI)
      show "vol_slots (in_vol s') = vol_slots (in_vol s) \<or> vol_slots (in_vol s') = filter snd (vol_slots (in_vol s))"
        using s' ok(3) v0(1) by simp
      fix p c assume "fs_read (vol_files (in_vol s')) p = Some c"
      with s' ok(1,2) ok(4) [of p] v0(2) show "fs_read (vol_files (in_vol s)) p = Some c \<or>
          c = concat cs \<and> int (length c) \<le> audio_bytes lims \<and> se_active e \<and> \<not> se_broken e"
        by (cases "p = ?input") (auto split: if_splits)
    qed
  qed
qed

lemma settle_failure_locks: "upload_locks (settle_failure e j x d) = upload_locks d"
  by (simp add: settle_failure_def mark_upload_interrupted_def sql_upload_interrupted_def fail_job_def Let_def
      sql_fail_def enqueue_def sql_outbox_insert_def sql_dispatch_def split: option.split)

lemma mark_queued_locks: "upload_locks (snd (mark_queued cfg c m i d)) = upload_locks d"
  by (simp add: mark_queued_def Let_def enqueue_def sql_outbox_insert_def sql_dispatch_def split: list.split)

lemma submit_reserved_locks:
  assumes "submit_reserved e lims u cs s = (r, s')" and "\<And>d. upload_locks (se_meanwhile e d) = upload_locks d"
  shows "upload_locks (in_db s') = upload_locks (in_db s)"
proof -
  have "upload_locks (mark_downloading now i d) = upload_locks d" for now i d
    by (simp add: mark_downloading_def update_status_def)
  moreover have "mark_queued cfg c m i d = (x, d') \<Longrightarrow> upload_locks d' = upload_locks d" for cfg c m i d x d'
    using mark_queued_locks [of cfg c m i d] by simp
  ultimately show ?thesis using assms
    by (fastforce simp: submit_reserved_def Let_def settle_failure_locks split: if_splits prod.splits sum.splits option.splits)
qed

lemma reserve_upload_locks:
  "reserve_upload h cfg now i q d = (Inl x, d') \<Longrightarrow> upload_locks d' = upload_locks d"
  "reserve_upload h cfg now i q d = (Inr u, d') \<Longrightarrow>
   upload_locks (release_upload h (rq_request_id q) d') = upload_locks d"
  by (auto simp: reserve_upload_def reserve_row_def create_job_def release_upload_def Let_def
      split: if_splits option.splits prod.splits sum.splits)

text \<open>
  C16: a submission leaves nothing partial behind, whatever its answer: wherever the stream
  ends, a write falls short or the disk is full, every file of the volume afterwards is a file
  it had, unchanged, or the whole recording, no larger than the limit, of a call that was still
  active at the end of its stream; the live upload slots are given back and no dead one is left
  over from an admission; and the session lock of the request is released.
\<close>

theorem submit_leaves_nothing_partial:
  assumes "submit e chunks s = (r, s')" and "se_slot e \<notin> fst ` set (vol_slots (in_vol s))"
    and "\<And>d. upload_locks (se_meanwhile e d) = upload_locks d"
  shows "(\<forall>p c. fs_read (vol_files (in_vol s')) p = Some c \<longrightarrow> fs_read (vol_files (in_vol s)) p = Some c \<or>
      c = concat (map ck_data chunks) \<and> se_active e \<and> \<not> se_broken e \<and>
      (\<exists>lims. upload_limits_from_env (se_settings e) = Inr lims \<and> int (length c) \<le> audio_bytes lims)) \<and>
    (vol_slots (in_vol s') = vol_slots (in_vol s) \<or> vol_slots (in_vol s') = filter snd (vol_slots (in_vol s))) \<and>
    upload_locks (in_db s') = upload_locks (in_db s)"
proof -
  consider "in_vol s' = in_vol s" "upload_locks (in_db s') = upload_locks (in_db s)"
    | lims u d t first where "upload_limits_from_env (se_settings e) = Inr lims"
      "reserve_upload (se_hash e) (se_cfg e) (tx_now (se_times e 0)) (se_job e) (upload_request_of e first) (in_db s) = (Inr u, d)"
      "submit_reserved e lims u (map ck_data chunks) (s\<lparr>in_db := d\<rparr>) = (r, t)"
      "s' = t\<lparr>in_db := release_upload (se_hash e) (ck_request_id first) (in_db t)\<rparr>"
    using assms(1) reserve_upload_locks(1)
    by (fastforce simp: submit_def submit_request_def split: list.splits if_splits sum.splits prod.splits store_error.splits)
  then show ?thesis
  proof cases
    case 1
    then show ?thesis by simp
  next
    case 2
    have "0 \<le> audio_bytes lims" using upload_limits_positive [OF 2(1)] by simp
    from submit_reserved_clean [OF 2(3) this] assms(2)
    have c: "clean_after e (audio_bytes lims) (map ck_data chunks) (in_vol s) (in_vol s')" by (simp add: 2(4))
    have rid: "rq_request_id (upload_request_of e first) = ck_request_id first"
      by (simp add: upload_request_of_def split: option.split prod.split)
    have "upload_locks (in_db s') = upload_locks (release_upload (se_hash e) (ck_request_id first) d)"
      using submit_reserved_locks [OF 2(3) assms(3)] by (simp add: 2(4) release_upload_def)
    with reserve_upload_locks(2) [OF 2(2)] rid have "upload_locks (in_db s') = upload_locks (in_db s)" by simp
    with c 2(1) show ?thesis unfolding clean_after_def by auto
  qed
qed

definition demo_settings :: env where
  "demo_settings n = Some ''16384''"

lemma demo_settings_limits: "upload_limits_from_env demo_settings =
    Inr \<lparr>audio_bytes = 16384, storage_bytes = 16384, min_free_bytes = 16384, concurrent_uploads = 16384\<rparr>"
proof -
  have "py_int ''16384'' = Some 16384" by code_simp
  then show ?thesis
    by (simp add: upload_limits_from_env_def audio_limit_def positive_limit_def getenv_def demo_settings_def)
qed

definition demo_submit :: "os_write list \<Rightarrow> submit_env" where
  "demo_submit ws = \<lparr>se_cfg = demo_cfg Postgres, se_hash = demo_hash, se_settings = demo_settings, se_trace = ([], []),
     se_job = demo_uuid CHR ''1'', se_messages = (demo_uuid CHR ''2'', demo_uuid CHR ''3''),
     se_part = ''0a'', se_slot = ''s.slot'', se_times = (\<lambda>n. at_time (int n)), se_alloc = round_up 4096,
     se_avail = free_blocks 4096 1099511627776, se_blk = 4096, se_writes = ws, se_sync = None, se_rename = None,
     se_dirsync = None, se_active = True, se_broken = False, se_meanwhile = (\<lambda>d. d)\<rparr>"

definition demo_chunks :: "upload_chunk list" where
  "demo_chunks = [\<lparr>ck_format = ''mp3'', ck_request_id = ''r1'', ck_retain = True, ck_options = None, ck_data = ''ab''\<rparr>,
     \<lparr>ck_format = [], ck_request_id = [], ck_retain = False, ck_options = None, ck_data = ''cd''\<rparr>]"

definition demo_ingress :: ingress where
  "demo_ingress = \<lparr>in_db = empty_db, in_vol = \<lparr>vol_files = [], vol_slots = []\<rparr>\<rparr>"

theorem submit_leaves_nothing_partial_witness:
  "case submit (demo_submit [Wrote 2, Wrote 1]) demo_chunks demo_ingress of (r, s) \<Rightarrow>
     r = Aborted INTERNAL ''Upload interrupted; retry the same request ID'' \<and>
     (\<forall>p c. fs_read (vol_files (in_vol s)) p = Some c \<longrightarrow> c = ''abcd'') \<and> vol_slots (in_vol s) = []"
proof -
  let ?e = "demo_submit [Wrote 2, Wrote 1]"
  obtain r s where s: "submit ?e demo_chunks demo_ingress = (r, s)" by fastforce
  have "fst (submit_request ?e \<lparr>audio_bytes = 16384, storage_bytes = 16384, min_free_bytes = 16384,
      concurrent_uploads = 16384\<rparr> (hd demo_chunks) (map ck_data demo_chunks) demo_ingress) =
    Aborted INTERNAL ''Upload interrupted; retry the same request ID''" by code_simp
  moreover have "format_ok (ck_format (hd demo_chunks)) \<and> request_id_ok (ck_request_id (hd demo_chunks))" by code_simp
  moreover have "se_settings ?e = demo_settings" by (simp add: demo_submit_def)
  ultimately have "fst (submit ?e demo_chunks demo_ingress) =
      Aborted INTERNAL ''Upload interrupted; retry the same request ID''"
    by (simp add: submit_def demo_settings_limits demo_chunks_def)
  with s have r: "r = Aborted INTERNAL ''Upload interrupted; retry the same request ID''" by simp
  have "se_slot ?e \<notin> fst ` set (vol_slots (in_vol demo_ingress))" "concat (map ck_data demo_chunks) = ''abcd''"
    by (simp_all add: demo_submit_def demo_ingress_def demo_chunks_def)
  moreover have "upload_locks (se_meanwhile ?e d) = upload_locks d" for d by (simp add: demo_submit_def)
  ultimately show ?thesis using submit_leaves_nothing_partial [OF s] r s
    by (auto simp: demo_ingress_def fs_read_def)
qed

end
