(* ===== verification/IngressProps.thy ===== *)
theory IngressProps
  imports Ingress
begin

text \<open>
  What a client gets for an upload: a submitted job is queued with the whole recording, a
  failed upload leaves the job ready for another try or failed with the reason.
\<close>

section \<open>The reserved job\<close>

lemma empty_tables_ok: "tables_ok empty_db"
  by (simp add: empty_db_def tables_ok_def obs_ok_def obs_keys_def)

lemma create_job_Inr:
  assumes "create_job cfg now i q d = (Inr (j, p), d')"
  shows "j = row_to_job (new_job cfg now i q) \<and> p = input_path (new_job cfg now i q) \<and>
    job_by_id i d' = Some (new_job cfg now i q)"
proof -
  from assms have n: "\<not> exists_where (\<lambda>r. job_id r = i \<or> (rq_request_id q \<noteq> [] \<and> request_id r = rq_request_id q)) (jobs d)"
    and d': "jobs d' = jobs d @ [new_job cfg now i q]"
    and j: "j = row_to_job (new_job cfg now i q)" "p = input_path (new_job cfg now i q)"
    by (auto simp: create_job_def Let_def split: if_splits)
  have "job_by_id i d = None" using n by (auto simp: job_by_id_None exists_where_iff)
  then have "job_by_id i d' = Some (new_job cfg now i q)"
    by (simp add: job_by_id_def d' find_by_append) (simp add: find_by_def new_job_def)
  with j show ?thesis by simp
qed

lemma reserve_upload_Inr:
  assumes "reserve_upload h cfg now i q d = (Inr u, d')" and "tables_ok d" and "0 < default_max_attempts cfg"
  shows "\<exists>r. job_by_id (job_id r) d' = Some r \<and> up_job u = row_to_job r \<and> up_input_path u = input_path r \<and>
    needs_upload u = uploading (status r) \<and> tables_ok d' \<and>
    (\<not> needs_upload u \<longrightarrow> job_by_id (job_id r) d = Some r \<and> request_id r = rq_request_id q \<and> rq_request_id q \<noteq> [])"
proof -
  define d1 where "d1 = (if rq_request_id q = [] then d
      else d\<lparr>upload_locks := h (rq_request_id q) # upload_locks d\<rparr>)"
  have j1: "jobs d1 = jobs d" by (simp add: d1_def)
  have ok': "tables_ok d'" using keeps_ok [OF keeps_reserve [OF assms(2,3)], of h now i q] assms(1) by simp
  from assms(1) have row: "reserve_row cfg now i q d1 = (Inr u, d')"
    by (auto simp: reserve_upload_def Let_def d1_def [symmetric] split: if_splits prod.splits sum.splits)
  show ?thesis
  proof (cases "if rq_request_id q = [] then None else sql_upload_lookup (rq_request_id q) d1")
    case None
    with row obtain j p where c: "create_job cfg now i q d1 = (Inr (j, p), d')" "u = reservation j p"
      by (auto simp: reserve_row_def split: prod.splits sum.splits)
    with create_job_Inr [OF c(1)] ok' show ?thesis
      by (intro exI [of _ "new_job cfg now i q"]) (auto simp: reservation_def new_job_def uploading_def)
  next
    case (Some r)
    with row have u: "u = reservation (row_to_job r) (input_path r)" "d' = d1"
      by (auto simp: reserve_row_def split: if_splits)
    from Some have "rq_request_id q \<noteq> []" "r \<in> set (jobs d)" "request_id r = rq_request_id q"
      by (auto simp: sql_upload_lookup_def j1 dest: find_by_Some split: if_splits)
    moreover have "job_by_id (job_id r) d = Some r"
      using job_by_id_mem [OF tables_okD(1) [OF assms(2)]] calculation(2) by simp
    ultimately show ?thesis using u ok' j1
      by (intro exI [of _ r]) (auto simp: reservation_def job_by_id_def)
  qed
qed

text \<open>
  What other processes may do to the tables meanwhile: any of the store's operations keeps them
  well-formed and lets each job evolve.
\<close>

definition store_like :: "string list \<Rightarrow> (db \<Rightarrow> db) \<Rightarrow> bool" where
  "store_like us f \<longleftrightarrow> (\<forall>d. tables_ok d \<longrightarrow> keeps us d (f d))"

lemma mark_downloading_keeps: "tables_ok d \<Longrightarrow> keeps us d (mark_downloading now i d)"
  by (simp add: mark_downloading_def update_status_def downloading_stmt.keeps_update)

lemma mark_downloading_by_id:
  "job_by_id i (mark_downloading now j d) =
    map_option (\<lambda>r. if upload_sel j r then trigger_row now r (status_row now Downloading r) else r) (job_by_id i d)"
  unfolding mark_downloading_def update_status_def
  by (rule job_by_id_update_jobs) (simp add: status_row_def)

text \<open>The job's row when its upload has ended.\<close>

lemma row_after_upload:
  assumes "tables_ok d" and "job_by_id i d = Some r" and "store_like us f"
    and "job_by_id i (f (mark_downloading now i d)) = Some r'"
  shows "row_evo r r' \<and> tables_ok (f (mark_downloading now i d))"
proof -
  let ?d = "mark_downloading now i d"
  have k: "keeps [] d ?d" by (rule mark_downloading_keeps [OF assms(1)])
  then have k': "keeps us ?d (f ?d)" using assms(3) keeps_ok [OF k] by (simp add: store_like_def)
  obtain r1 where r1: "job_by_id i ?d = Some r1" using assms(2) by (simp add: mark_downloading_by_id)
  have "row_evo r r1" "row_evo r1 r'"
    using k k' assms(2,4) r1 unfolding keeps_def tables_evo_def by blast+
  with row_evo_trans keeps_ok [OF k'] show ?thesis by blast
qed

lemma mark_queued_Some:
  assumes "mark_queued cfg c m i d = (Some p, d')" and "tables_ok d"
  shows "\<exists>r r'. job_by_id i d = Some r \<and> uploading (status r) \<and> job_by_id i d' = Some r' \<and>
    status r' = Queued \<and> row_evo r r'"
proof -
  from assms(1) obtain r rs where sel: "select_jobs (upload_sel i) d = r # rs"
    by (auto simp: mark_queued_def Let_def split: list.splits)
  then have "r \<in> set (select_jobs (upload_sel i) d)" by simp
  then have r: "r \<in> set (jobs d)" "job_id r = i" "uploading (status r)"
    by (auto simp: select_jobs_def upload_sel_def)
  have j: "job_by_id i d = Some r" using job_by_id_mem [OF tables_okD(1) [OF assms(2)] r(1)] r(2) by simp
  let ?d1 = "update_jobs (tx_now c) (upload_sel i) (queued_row (tx_now c)) d"
  have j1: "job_by_id i ?d1 = Some (trigger_row (tx_now c) r (queued_row (tx_now c) r))"
    using j r by (subst job_by_id_update_jobs) (auto simp: queued_row_def upload_sel_def)
  have j2: "job_by_id i (enqueue clk m i delay ?d1) =
      Some (dispatch_row m (trigger_row (tx_now c) r (queued_row (tx_now c) r)))" for clk delay
    using j1 job_by_id_update_quiet [of "by_id i" "dispatch_row m" i ?d1] r(2)
    by (simp add: enqueue_def sql_outbox_insert_def sql_dispatch_def job_by_id_def dispatch_row_def by_id_def queued_row_def)
  have "d' = ?d1 \<or> (\<exists>clk. d' = enqueue clk m i 0 ?d1)"
    using assms(1) sel by (auto simp: mark_queued_def Let_def split: if_splits)
  with j1 j2 obtain r' where r': "job_by_id i d' = Some r'" "status r' = Queued"
    by (auto simp: dispatch_row_def queued_row_def)
  have "keeps [] d d'" using keeps_mark_queued [OF assms(2), of "[]" cfg c m i] assms(1) by simp
  with j r' r(3) show ?thesis unfolding keeps_def tables_evo_def by blast
qed

section \<open>Submitted jobs\<close>

lemma submit_Submitted:
  assumes "submit e chunks s = (Submitted i n, s')"
  shows "\<exists>lims first u d t. upload_limits_from_env (se_settings e) = Inr lims \<and>
    reserve_upload (se_hash e) (se_cfg e) (tx_now (se_times e 0)) (se_job e) (upload_request_of e first) (in_db s) = (Inr u, d) \<and>
    submit_reserved e lims u (map ck_data chunks) (s\<lparr>in_db := d\<rparr>) = (Submitted i n, t) \<and>
    s' = t\<lparr>in_db := release_upload (se_hash e) (ck_request_id first) (in_db t)\<rparr>"
  using assms
  by (fastforce simp: submit_def submit_request_def split: list.splits if_splits sum.splits prod.splits store_error.splits)

lemma release_upload_by_id [simp]: "job_by_id i (release_upload h rid d) = job_by_id i d"
  by (simp add: release_upload_def job_by_id_def)

lemma submit_reserved_Submitted:
  assumes "submit_reserved e lims u cs s = (Submitted i n, s')" and "tables_ok (in_db s)"
    and "up_job u = row_to_job r" and "up_input_path u = input_path r" and "job_by_id (job_id r) (in_db s) = Some r"
    and "store_like us (se_meanwhile e)" and "0 \<le> audio_bytes lims"
    and "se_slot e \<notin> fst ` set (vol_slots (in_vol s))"
  shows "i = job_id r \<and>
    (\<not> needs_upload u \<and> s' = s \<or>
     (\<exists>r'. job_by_id i (in_db s') = Some r' \<and> status r' = Queued \<and> row_evo r r' \<and>
        fs_read (vol_files (in_vol s')) (input_path r') = Some (concat cs) \<and>
        int (length (concat cs)) \<le> audio_bytes lims \<and> se_active e \<and> \<not> se_broken e))"
proof (cases "needs_upload u")
  case False
  with assms(1,3) show ?thesis by (auto simp: submit_reserved_def Let_def row_to_job_sel)
next
  case True
  have id: "JobRecord.job_id (up_job u) = job_id r" by (simp add: assms(3) row_to_job_sel)
  let ?d1 = "se_meanwhile e (mark_downloading (tx_now (se_times e 1)) (job_id r) (in_db s))"
  define v0 where "v0 = (in_vol s)\<lparr>vol_files := unlink_partials (path_parent (input_path r)) (vol_files (in_vol s))\<rparr>"
  obtain y v1 where st: "store_upload e lims (part_path e (input_path r)) (input_path r) cs v0 = (y, v1)" by fastforce
  have up: "y = Inr ()" using assms(1) True st
    by (cases y) (auto simp: submit_reserved_def Let_def assms(4) id v0_def [symmetric] split: if_splits)
  obtain q d2 where mq: "mark_queued (se_cfg e) (se_times e 3) (snd (se_messages e)) (job_id r) ?d1 = (q, d2)" by fastforce
  from assms(1) True st up mq obtain p where s': "q = Some p" "i = job_id r" "s' = \<lparr>in_db = d2, in_vol = v1\<rparr>"
    by (cases q) (auto simp: submit_reserved_def Let_def assms(4) id v0_def [symmetric])
  have ok1: "tables_ok ?d1"
    using keeps_ok [OF mark_downloading_keeps [OF assms(2)]] assms(6) keeps_ok unfolding store_like_def by blast
  from mark_queued_Some [OF mq [unfolded s'(1)] ok1] obtain r1 r2 where r2: "job_by_id (job_id r) ?d1 = Some r1"
    "job_by_id (job_id r) d2 = Some r2" "status r2 = Queued" "row_evo r1 r2" by blast
  have "row_evo r r2" using row_after_upload [OF assms(2,5,6) r2(1)] r2(4) row_evo_trans by blast
  moreover have "input_path r2 = input_path r" using row_key_sel [OF row_evo_key [OF calculation]] by simp
  moreover have "fs_read (vol_files v1) (input_path r) = Some (concat cs) \<and>
      int (length (concat cs)) \<le> audio_bytes lims \<and> se_active e \<and> \<not> se_broken e"
    using store_upload_ok [OF st [unfolded up] assms(7)] assms(8) by (simp add: v0_def)
  ultimately show ?thesis using s' r2(2,3) by simp
qed



text \<open>
  C17: a failed upload is settled. If the job is still uploading when its upload fails, then a
  job with a request id stays as it was but for the note that its upload was interrupted, so
  that the client's retry of the same id uploads it anew; one without a request id, and any whose
  recording is too large, has failed with the code that says why. A job that was cancelled or
  finished meanwhile keeps its outcome.
\<close>

theorem failed_upload_is_settled:
  assumes "tables_ok d" and "job_by_id (JobRecord.job_id j) d = Some r" and "JobRecord.request_id j = request_id r"
  shows "\<exists>r'. job_by_id (JobRecord.job_id j) (settle_failure e j x d) = Some r' \<and>
    (if \<not> uploading (status r) then terminal (status r) \<longrightarrow> row_outcome r' = row_outcome r
     else if request_id r \<noteq> [] \<and> x \<noteq> TooLarge then r' = r\<lparr>job_error := ''upload_interrupted'', updated_at := tx_now (se_times e 2)\<rparr>
     else status r' = Failed \<and> job_error r' = failure_code x)"
proof (cases "request_id r \<noteq> [] \<and> x \<noteq> TooLarge")
  case True
  then have "settle_failure e j x d = update_jobs_quiet (upload_sel (JobRecord.job_id j))
      (interrupted_row (tx_now (se_times e 2))) d"
    by (simp add: settle_failure_def assms(3) mark_upload_interrupted_def sql_upload_interrupted_def)
  with assms(2) job_by_id_Some [OF assms(2)] True show ?thesis
    by (auto simp: job_by_id_update_quiet interrupted_row_def upload_sel_def)
next
  case False
  let ?i = "JobRecord.job_id j" and ?t = "tx_now (se_times e 2)"
  have i: "job_id r = ?i" using job_by_id_Some [OF assms(2)] by simp
  have ok: "job_ok r" using tables_okD(2) [OF assms(1)] job_by_id_Some [OF assms(2)] by blast
  have s: "settle_failure e j x d = snd (fail_job (se_cfg e) (se_times e 2) (fst (se_messages e)) ?i [] (failure_code x) False d)"
    using False by (auto simp: settle_failure_def assms(3))
  let ?d = "sql_fail ?t False (failure_code x) ?i [] d"
  have row: "job_by_id ?i ?d = Some (if fail_sel ?i [] ?t r then trigger_row ?t r (fail_row ?t False (failure_code x) r) else r)"
    unfolding sql_fail_def using assms(2) by (subst job_by_id_update_jobs) (simp_all add: fail_row_def Let_def)
  have failed: "status (fail_row ?t False c r) = Failed" "job_error (fail_row ?t False c r) = c" for c
    by (simp_all add: fail_row_def Let_def)
  have sel: "fail_sel ?i [] ?t r \<longleftrightarrow> uploading (status r)"
    using ok i by (auto simp: fail_sel_def live_def job_ok_def uploading_def)
  have "one_row (fail_sel ?i [] ?t) d \<Longrightarrow> uploading (status r)"
    using one_row_sel [OF assms(1), of "fail_sel ?i [] ?t" ?i] assms(2) sel by (auto simp: fail_sel_def)
  then have out: "settle_failure e j x d = ?d"
    using row failed(1) sel by (auto simp: s fail_job_def Let_def simp del: failure_code.simps)
  show ?thesis
  proof (cases "uploading (status r)")
    case True
    with out row sel failed False show ?thesis by (auto simp del: failure_code.simps)
  next
    case not_uploading: False
    with out row sel show ?thesis by simp
  qed
qed

definition demo_uploading :: db where
  "demo_uploading = snd (create_job (demo_cfg Postgres) 0 (demo_uuid CHR ''1'') (demo_request ''r1'') empty_db)"

theorem failed_upload_is_settled_witness:
  "\<exists>j r. job_by_id (demo_uuid CHR ''1'') demo_uploading = Some j \<and>
     job_by_id (demo_uuid CHR ''1'') (settle_failure (demo_submit []) (row_to_job j) TooLarge demo_uploading) = Some r \<and>
     status r = Failed \<and> job_error r = ''input_too_large''"
proof -
  have ok: "tables_ok demo_uploading" unfolding demo_uploading_def by (rule keeps_ok [OF keeps_create [OF empty_tables_ok demo_budget]])
  have "map_option (\<lambda>j. uploading (status j)) (job_by_id (demo_uuid CHR ''1'') demo_uploading) = Some True" by code_simp
  then obtain j where j: "job_by_id (demo_uuid CHR ''1'') demo_uploading = Some j" "uploading (status j)" by auto
  then have "JobRecord.job_id (row_to_job j) = demo_uuid CHR ''1''" using job_by_id_Some by auto
  from failed_upload_is_settled [of demo_uploading "row_to_job j" j "demo_submit []" TooLarge, OF ok] j this
  show ?thesis by auto
qed

end
