(* ===== verification/Service.thy ===== *)
theory Service
  imports IngressProps
begin

text \<open>
  The rest of the public endpoint of \<open>whisper/server.py\<close> (status, cancellation,
  acknowledgement and the synchronous call) and the local worker: one attempt of a claimed job,
  and the background jobs around it.
\<close>

section \<open>Status\<close>

datatype wire_status = ACCEPTED | DOWNLOADING | QUEUED | RUNNING | DONE | FAILED

fun status_map :: "status \<Rightarrow> wire_status" where
  "status_map Accepted = ACCEPTED"
| "status_map Downloading = DOWNLOADING"
| "status_map Queued = QUEUED"
| "status_map Running = RUNNING"
| "status_map Done = DONE"
| "status_map Failed = FAILED"

record status_response =
  sr_job_id :: string
  sr_status :: wire_status
  sr_stage :: string
  sr_text :: string
  sr_error :: string
  sr_segments :: "segment list"
  sr_progress :: rat
  sr_attempts :: int
  sr_max_attempts :: int

text \<open>A protobuf message without fields reads as the first value of its enums.\<close>

definition empty_status :: status_response where
  "empty_status = \<lparr>sr_job_id = [], sr_status = ACCEPTED, sr_stage = [], sr_text = [], sr_error = [],
     sr_segments = [], sr_progress = 0, sr_attempts = 0, sr_max_attempts = 0\<rparr>"

text \<open>\<open>GetStatus\<close>: the response, and the code it sets on the call.\<close>

definition get_status :: "string \<Rightarrow> db \<Rightarrow> (status_code \<times> string) option \<times> status_response" where
  "get_status i d = (case get_job i d of
     None \<Rightarrow> (Some (NOT_FOUND, ''Job not found: '' @ i), empty_status)
   | Some j \<Rightarrow> (None, \<lparr>sr_job_id = JobRecord.job_id j, sr_status = status_map (JobRecord.status j),
        sr_stage = status_text (JobRecord.status j), sr_text = JobRecord.job_text j,
        sr_error = JobRecord.job_error j, sr_segments = JobRecord.segments_json j,
        sr_progress = JobRecord.progress_percent j, sr_attempts = JobRecord.attempts j,
        sr_max_attempts = JobRecord.max_attempts j\<rparr>))"

section \<open>Cancel and acknowledge\<close>

definition cancel :: "time \<Rightarrow> string \<Rightarrow> db \<Rightarrow> bool \<times> db" where
  "cancel now i d = cancel_job now i d"

text \<open>\<open>after\<close> are the tables the second query of a refused acknowledgement reads.\<close>

definition ack :: "time \<Rightarrow> (db \<Rightarrow> db) \<Rightarrow> string \<Rightarrow> db \<Rightarrow> (api_error, bool) result \<times> db" where
  "ack now after i d =
     (if i = [] then (Inl (Abort INVALID_ARGUMENT ''Job ID required''), d)
      else (case acknowledge_job now i d of
          (True, d') \<Rightarrow> (Inr True, d')
        | (False, d') \<Rightarrow>
            (Inl (if get_job i (after d') = None then Abort NOT_FOUND ''Job not found''
                  else Abort FAILED_PRECONDITION ''Only terminal jobs can be acknowledged''), after d')))"

section \<open>The synchronous call\<close>

text \<open>
  \<open>Transcribe\<close> after a successful \<open>Submit\<close>: each look is whether the call is active, and the
  tables when the job's status is asked for. \<open>Waiting\<close>: the looks so far did not end it.
\<close>

datatype transcribe_reply =
  Transcript string
| TranscribeFailed string
| TranscribeClosed
| NotSubmitted submit_reply
| Waiting

fun poll_status :: "string \<Rightarrow> (bool \<times> db) list \<Rightarrow> transcribe_reply" where
  "poll_status i [] = Waiting"
| "poll_status i ((active, d) # looks) =
     (if \<not> active then TranscribeClosed
      else (let r = snd (get_status i d) in
        if sr_status r = DONE then Transcript (sr_text r)
        else if sr_status r = FAILED then TranscribeFailed (sr_error r)
        else poll_status i looks))"

definition transcribe ::
  "submit_env \<Rightarrow> upload_chunk list \<Rightarrow> ingress \<Rightarrow> (bool \<times> db) list \<Rightarrow> transcribe_reply \<times> ingress" where
  "transcribe e chunks s looks = (case submit e chunks s of
     (Submitted i n, s') \<Rightarrow> (if i = [] then NotSubmitted (Submitted i n) else poll_status i looks, s')
   | (r, s') \<Rightarrow> (NotSubmitted r, s'))"

section \<open>The local worker\<close>

text \<open>
  One attempt: the heartbeats sent before the engine returned (\<open>None\<close> for one that raised),
  whether the process was asked to stop by then, what the engine did, and what became of the
  completion's transaction: it ran, or its connection failed before or after the commit.
\<close>

datatype engine_outcome =
  EngineResult string "segment list"
| EngineStopped
| EngineFailed

datatype transaction = Ran | LostBefore | LostAfter

record local_attempt =
  la_beats :: "(clock \<times> rat) option list"
  la_stop :: bool
  la_engine :: engine_outcome
  la_complete :: transaction
  la_times :: "nat \<Rightarrow> clock"
  la_message :: string

fun beat_loop :: "store_config \<Rightarrow> string \<Rightarrow> string \<Rightarrow> (clock \<times> rat) option list \<Rightarrow> db \<Rightarrow> bool \<times> db" where
  "beat_loop cfg i owner [] d = (False, d)"
| "beat_loop cfg i owner (None # bs) d = (True, d)"
| "beat_loop cfg i owner (Some (c, p) # bs) d = (case heartbeat cfg c i owner p d of
     (True, d') \<Rightarrow> beat_loop cfg i owner bs d'
   | (False, d') \<Rightarrow> (True, d'))"

definition fail_local :: "store_config \<Rightarrow> local_attempt \<Rightarrow> string \<Rightarrow> string \<Rightarrow> db \<Rightarrow> db" where
  "fail_local cfg a i owner d =
     snd (fail_job cfg (la_times a 1) (la_message a) i owner ''transcription_failed'' True d)"

definition process_claimed_job :: "store_config \<Rightarrow> local_attempt \<Rightarrow> ClaimedJob \<Rightarrow> db \<Rightarrow> db" where
  "process_claimed_job cfg a claimed d =
     (let i = JobRecord.job_id (claimed_job claimed); owner = claimed_owner claimed in
      case beat_loop cfg i owner (la_beats a) d of (lost, d1) \<Rightarrow>
        (case la_engine a of
           EngineStopped \<Rightarrow> d1
         | EngineFailed \<Rightarrow> fail_local cfg a i owner d1
         | EngineResult txt segs \<Rightarrow>
             if la_stop a \<or> lost then d1
             else (let d2 = snd (complete_job (tx_now (la_times a 0)) i owner txt segs [] d1) in
               case la_complete a of
                 Ran \<Rightarrow> d2
               | LostBefore \<Rightarrow> fail_local cfg a i owner d1
               | LostAfter \<Rightarrow> fail_local cfg a i owner d2)))"

text \<open>One turn of the worker's loop: it claims, and processes what it got.\<close>

definition worker_turn ::
  "store_config \<Rightarrow> (string \<Rightarrow> bool) \<Rightarrow> clock \<Rightarrow> string \<Rightarrow> string \<Rightarrow> bool \<Rightarrow> string \<Rightarrow> local_attempt \<Rightarrow> db
   \<Rightarrow> bool \<times> db" where
  "worker_turn cfg lk c u w fallback inst a d = (case claim_next_job cfg lk c u w fallback inst d of
     (Inr (Some j), d') \<Rightarrow> (True, process_claimed_job cfg a j d')
   | (_, d') \<Rightarrow> (False, d'))"

definition worker_fallback :: "env \<Rightarrow> (config_error, bool) result" where
  "worker_fallback env = (let f = getenv env ''WORKER_FALLBACK'' ''0'' in
     if f = ''0'' then Inr False else if f = ''1'' then Inr True else Inl (InvalidSetting ''WORKER_FALLBACK''))"

text \<open>\<open>run_worker\<close> up to the loops: the settings, and how many there are.\<close>

definition worker_setup :: "env \<Rightarrow> (config_error, store_config \<times> nat \<times> bool) result" where
  "worker_setup env = res_bind (store_init env) (\<lambda>cfg.
     guard_setting (queue_backend cfg \<noteq> Rabbitmq) ''QUEUE_BACKEND'' (
     res_bind (worker_concurrency (getenv env ''WORKER_CONCURRENCY'' ''1'')) (\<lambda>n.
     res_bind (worker_fallback env) (\<lambda>f. Inr (cfg, nat n, f)))))"

text \<open>A pass of \<open>CleanupWorker\<close>.\<close>

definition cleanup_turn :: "time \<Rightarrow> int \<Rightarrow> ingress \<Rightarrow> ingress" where
  "cleanup_turn now ttl s = (case cleanup_expired_jobs now ttl (in_db s) (vol_files (in_vol s)) of
     (_, d, f) \<Rightarrow> \<lparr>in_db = d, in_vol = (in_vol s)\<lparr>vol_files := f\<rparr>\<rparr>)"

section \<open>The endpoint's answers\<close>

lemma get_status_simps:
  "job_by_id i d = None \<Longrightarrow> get_status i d = (Some (NOT_FOUND, ''Job not found: '' @ i), empty_status)"
  "job_by_id i d = Some r \<Longrightarrow> sr_status (snd (get_status i d)) = status_map (status r) \<and>
     sr_text (snd (get_status i d)) = job_text r \<and> sr_error (snd (get_status i d)) = job_error r"
  by (simp_all add: get_status_def get_job_def)

lemma status_map_eq:
  "status_map s = DONE \<longleftrightarrow> s = Done" "status_map s = FAILED \<longleftrightarrow> s = Failed"
  by (cases s; simp)+

text \<open>The job is neither done nor failed at this look, or is not there.\<close>

definition unsettled :: "string \<Rightarrow> db \<Rightarrow> bool" where
  "unsettled i d \<longleftrightarrow> (case job_by_id i d of None \<Rightarrow> True | Some r \<Rightarrow> \<not> terminal (status r))"

text \<open>
  C20: the synchronous call answers with the job's outcome. Its poll is the first look at which
  the call is no longer active or the job has ended: it answers with the text of a done job,
  with the error of a failed one, closes when the caller has gone, and otherwise keeps waiting.
\<close>

theorem poll_is_first_outcome:
  "poll_status i looks = (case dropWhile (\<lambda>(active, d). active \<and> unsettled i d) looks of
     [] \<Rightarrow> Waiting
   | (active, d) # _ \<Rightarrow> if \<not> active then TranscribeClosed
       else (case job_by_id i d of
           Some r \<Rightarrow> if status r = Done then Transcript (job_text r) else TranscribeFailed (job_error r)
         | None \<Rightarrow> Waiting))"
proof (induction i looks rule: poll_status.induct)
  case (2 i active d looks)
  show ?case
  proof (cases "job_by_id i d")
    case None
    with 2 show ?thesis by (simp add: unsettled_def get_status_simps empty_status_def)
  next
    case (Some r)
    with 2 get_status_simps(2) [OF Some] show ?thesis
      by (cases "status r") (simp_all add: unsettled_def terminal_def)
  qed
qed simp

text \<open>
  A job that is gone, as retention removes it, is never told apart from one that is accepted:
  the call waits on while its caller stays.
\<close>

lemma poll_waits_for_a_missing_job:
  assumes "list_all (\<lambda>(active, d). active \<and> job_by_id i d = None) looks"
  shows "poll_status i looks = Waiting"
  using assms by (induction looks) (auto simp: get_status_simps empty_status_def)

text \<open>
  An acknowledgement is answered truthfully. Without a job id it is invalid; a finished job
  is acknowledged and stays so; a job that is not finished is refused, and nothing but what
  others do meanwhile changes; what is neither is not found.
\<close>

theorem ack_answers_truthfully:
  assumes "tables_ok d"
  shows "case job_by_id i d of
      Some r \<Rightarrow> if i = [] then ack now after i d = (Inl (Abort INVALID_ARGUMENT ''Job ID required''), d)
        else if terminal (status r)
        then fst (ack now after i d) = Inr True \<and>
          (\<exists>r'. job_by_id i (snd (ack now after i d)) = Some r' \<and> acknowledged_at r' \<noteq> None \<and> row_outcome r' = row_outcome r)
        else snd (ack now after i d) = after d \<and>
          (job_by_id i (after d) \<noteq> None \<longrightarrow>
             fst (ack now after i d) = Inl (Abort FAILED_PRECONDITION ''Only terminal jobs can be acknowledged''))
    | None \<Rightarrow> i = [] \<or> (snd (ack now after i d) = after d \<and>
        (job_by_id i (after d) = None \<longrightarrow> fst (ack now after i d) = Inl (Abort NOT_FOUND ''Job not found'')))"
proof -
  have sel: "select_jobs (ack_sel i) d \<noteq> [] \<longleftrightarrow> (\<exists>r. job_by_id i d = Some r \<and> terminal (status r))"
  proof
    assume "select_jobs (ack_sel i) d \<noteq> []"
    then obtain r where "r \<in> set (jobs d)" "job_id r = i" "terminal (status r)"
      by (auto simp: select_jobs_def ack_sel_def filter_empty_conv)
    with job_by_id_mem [OF tables_okD(1) [OF assms]] show "\<exists>r. job_by_id i d = Some r \<and> terminal (status r)" by auto
  next
    assume "\<exists>r. job_by_id i d = Some r \<and> terminal (status r)"
    then obtain r where "job_by_id i d = Some r" "terminal (status r)" by blast
    with job_by_id_Some [OF this(1)] show "select_jobs (ack_sel i) d \<noteq> []"
      by (auto simp: select_jobs_def ack_sel_def filter_empty_conv)
  qed
  have same: "sql_ack now i d = d" if "\<not> (\<exists>r. job_by_id i d = Some r \<and> terminal (status r))"
  proof -
    from that sel have "select_jobs (ack_sel i) d = []" by blast
    then have "update_where (ack_sel i) (ack_row now) (jobs d) = jobs d"
      by (intro update_where_id) (auto simp: select_jobs_def filter_empty_conv)
    then show ?thesis by (simp add: sql_ack_def update_jobs_quiet_def)
  qed
  have upd: "job_by_id i (sql_ack now i d) = map_option (\<lambda>r. if ack_sel i r then ack_row now r else r) (job_by_id i d)"
    unfolding sql_ack_def by (rule job_by_id_update_quiet) (simp add: ack_row_def)
  show ?thesis
  proof (cases "job_by_id i d")
    case None
    with sel same show ?thesis by (auto simp: ack_def acknowledge_job_def get_job_def)
  next
    case (Some r)
    with sel same upd job_by_id_Some [OF Some] show ?thesis
      by (auto simp: ack_def acknowledge_job_def get_job_def ack_sel_def ack_row_def row_outcome_def split: option.split)
  qed
qed

theorem ack_answers_truthfully_witness:
  "\<exists>r. job_by_id (demo_uuid CHR ''1'') demo_uploading = Some r \<and>
     fst (ack 5 (\<lambda>d. d) (demo_uuid CHR ''1'') demo_uploading) =
       Inl (Abort FAILED_PRECONDITION ''Only terminal jobs can be acknowledged'')"
proof -
  have ok: "tables_ok demo_uploading" unfolding demo_uploading_def
    by (rule keeps_ok [OF keeps_create [OF empty_tables_ok demo_budget]])
  have "map_option (\<lambda>j. terminal (status j)) (job_by_id (demo_uuid CHR ''1'') demo_uploading) = Some False" by code_simp
  then obtain r where r: "job_by_id (demo_uuid CHR ''1'') demo_uploading = Some r" "\<not> terminal (status r)" by auto
  have "demo_uuid CHR ''1'' \<noteq> []" by (simp add: demo_uuid_def)
  with ack_answers_truthfully [OF ok, of "demo_uuid CHR ''1''" 5 "\<lambda>d. d"] r show ?thesis by simp
qed

section \<open>The local worker respects the store's contract\<close>

lemma keeps_beats: "tables_ok d \<Longrightarrow> keeps us d (snd (beat_loop cfg i owner bs d))"
proof (induction cfg i owner bs d arbitrary: us rule: beat_loop.induct)
  case (3 cfg i owner c p bs d)
  obtain ok d' where h: "heartbeat cfg c i owner p d = (ok, d')" by fastforce
  with keeps_heartbeat [OF 3(2), of us cfg c i owner p] have k: "keeps us d d'" by simp
  show ?case
  proof (cases ok)
    case True
    with 3(1) [OF h [symmetric]] keeps_ok [OF k] have "keeps [] d' (snd (beat_loop cfg i owner bs d'))" by simp
    with keeps_trans [OF k] h True show ?thesis by simp
  qed (use h k in simp)
qed (simp_all add: keeps_refl)

lemma keeps_process:
  assumes "tables_ok d"
  shows "keeps us d (process_claimed_job cfg a claimed d)"
proof -
  let ?i = "JobRecord.job_id (claimed_job claimed)" and ?o = "claimed_owner claimed"
  obtain lost d1 where b: "beat_loop cfg ?i ?o (la_beats a) d = (lost, d1)" by fastforce
  have k: "keeps us d d1" using keeps_beats [OF assms, of us cfg ?i ?o "la_beats a"] b by simp
  have ok: "tables_ok d1" by (rule keeps_ok [OF k])
  have f: "keeps [] e (fail_local cfg a ?i ?o e)" if "tables_ok e" for e
    unfolding fail_local_def by (rule keeps_fail [OF that])
  have c: "keeps [] d1 (snd (complete_job n ?i ?o t ss [] d1))" for n t ss
    by (rule keeps_complete [OF ok])
  note steps = k keeps_trans [OF k f [OF ok]] keeps_trans [OF k c]
    keeps_trans [OF k keeps_trans [OF c f [OF keeps_ok [OF c]]]]
  then show ?thesis
    by (simp add: process_claimed_job_def Let_def b split: engine_outcome.split transaction.split)
qed

lemma keeps_turn:
  assumes "tables_ok d"
  shows "keeps us d (snd (worker_turn cfg lk c u w fb inst a d))"
proof -
  obtain x d' where x: "claim_next_job cfg lk c u w fb inst d = (x, d')" by fastforce
  have k: "keeps us d d'" using keeps_claim_next [OF assms, of us cfg lk c u w fb inst] x by simp
  from keeps_trans [OF k keeps_process [OF keeps_ok [OF k]]] k show ?thesis
    by (auto simp: worker_turn_def x split: sum.split option.split)
qed

section \<open>What becomes of an attempt\<close>

definition failed_attempt :: "job \<Rightarrow> job \<Rightarrow> bool" where
  "failed_attempt r r' \<longleftrightarrow> job_error r' = ''transcription_failed'' \<and> lease_owner r' = [] \<and> attempts r' = attempts r \<and>
     status r' = (if attempts r < max_attempts r then Queued else Failed)"

lemma fail_local_row:
  assumes "tables_ok d" and "job_by_id i d = Some r" and "lease_owner r = owner" and "live (tx_now (la_times a 1)) r"
  shows "\<exists>r'. job_by_id i (fail_local cfg a i owner d) = Some r' \<and> failed_attempt r r'"
proof -
  have "fail_sel i owner (tx_now (la_times a 1)) r"
    using assms(3,4) job_by_id_Some [OF assms(2)] by (simp add: fail_sel_def)
  with fail_job_row [OF assms(1,2), of owner "la_times a 1" cfg "la_message a" "''transcription_failed''" True]
  obtain x where "job_by_id i (fail_local cfg a i owner d) =
      Some ((trigger_row (tx_now (la_times a 1)) r (fail_row (tx_now (la_times a 1)) True ''transcription_failed'' r))\<lparr>dispatch_id := x\<rparr>)"
    by (auto simp: fail_local_def)
  then show ?thesis by (auto simp: failed_attempt_def fail_row_def Let_def)
qed


definition demo_attempt :: local_attempt where
  "demo_attempt = \<lparr>la_beats = [Some (at_time 4, 50)], la_stop = False, la_engine = EngineResult ''hello'' [],
     la_complete = LostAfter, la_times = (\<lambda>_. at_time 5), la_message = demo_uuid CHR ''9''\<rparr>"

definition demo_claimed :: ClaimedJob where
  "demo_claimed = claimed_of (new_lease ''gpu'' (demo_uuid CHR ''3'')) (hd (jobs (sdb claimed_sys)))"


text \<open>
  A local worker is a good citizen of the store. Whatever its turn did (claiming, beating,
  completing, failing, with whatever outages), the tables stay well-formed and the counters
  balanced, each job has only moved along its life, and no job was added.
\<close>

theorem local_worker_keeps_the_store:
  assumes "tables_ok d" and "balanced d" and "worker_turn cfg lk c u w fb inst a d = (busy, d')"
  shows "tables_ok d' \<and> balanced d' \<and> job_ids d' \<subseteq> job_ids d \<and>
    (\<forall>i r r'. job_by_id i d = Some r \<and> job_by_id i d' = Some r' \<longrightarrow>
       row_key r' = row_key r \<and> (lifecycle (max_attempts r))\<^sup>*\<^sup>* (status r, attempts r) (status r', attempts r') \<and>
       (terminal (status r) \<longrightarrow> row_outcome r' = row_outcome r))"
proof -
  have "keeps [] d d'" using keeps_turn [OF assms(1), of "[]" cfg lk c u w fb inst a] assms(3) by simp
  with assms(2) show ?thesis by (auto simp: keeps_def adds_only_def tables_evo_def row_evo_def)
qed

theorem local_worker_keeps_the_store_witness:
  "tables_ok (snd (worker_turn (demo_cfg Postgres) (\<lambda>_. False) (at_time 3) (demo_uuid CHR ''3'') ''gpu'' False
     ''slot-1'' demo_attempt (sdb ready_sys)))"
proof -
  have "sys_ok ready_sys" by (rule reachable_sys_ok [OF ready_sys_reachable demo_budget])
  then have "tables_ok (sdb ready_sys)" "balanced (sdb ready_sys)" by (simp_all add: sys_ok_def)
  from local_worker_keeps_the_store [OF this prod.collapse [symmetric]] show ?thesis by blast
qed

text \<open>
  A local worker process starts only on a sound configuration: with the database queue, a
  lease of at least three seconds, a positive attempt budget and valid policies, and with
  between one and sixteen loops.
\<close>

theorem worker_setup_is_sound:
  assumes "worker_setup env = Inr (cfg, n, f)"
  shows "queue_backend cfg = Postgres \<and> 3 \<le> lease_seconds cfg \<and> 0 < default_max_attempts cfg \<and>
    policies_valid (worker_policies cfg) \<and> 1 \<le> n \<and> n \<le> 16"
proof -
  from assms obtain k where "store_init env = Inr cfg" "queue_backend cfg \<noteq> Rabbitmq" "n = nat k"
    "worker_concurrency (getenv env ''WORKER_CONCURRENCY'' ''1'') = Inr k"
    by (auto simp: worker_setup_def result_simps)
  moreover from this(4) have "1 \<le> k \<and> k \<le> 16"
    by (auto simp: worker_concurrency_def split: option.splits if_splits)
  moreover have "queue_backend cfg = Postgres" using calculation(2) by (cases "queue_backend cfg") auto
  ultimately show ?thesis using store_init_valid(1-3) by auto
qed

definition demo_worker_env :: env where
  "demo_worker_env n = (if n = ''DATABASE_URL'' then Some ''db'' else None)"

theorem worker_setup_is_sound_witness:
  "\<exists>cfg. worker_setup demo_worker_env = Inr (cfg, 1, False) \<and> 3 \<le> lease_seconds cfg \<and> queue_backend cfg = Postgres"
proof -
  have "case worker_setup demo_worker_env of Inr (cfg, n, f) \<Rightarrow> n = 1 \<and> \<not> f | Inl _ \<Rightarrow> False" by code_simp
  then obtain cfg where c: "worker_setup demo_worker_env = Inr (cfg, 1, False)"
    by (auto split: sum.splits prod.splits)
  with worker_setup_is_sound [OF c] show ?thesis by blast
qed

end
