(* ===== verification/Broker.thy ===== *)
theory Broker
  imports Settings
begin

text \<open>
  \<open>whisper/broker.py\<close>: the connection file, the task envelope as the publisher writes it and
  the consumer accepts it, and one consumer's life on its connection. RabbitMQ is not modelled:
  the consumer is given what the broker and the process's flags show it turn by turn, and yields
  the commands it sends.
\<close>

section \<open>The connection file\<close>

record broker_config =
  bc_host :: string
  bc_port :: int
  bc_virtual_host :: string
  bc_username :: string
  bc_password :: string
  bc_tls :: bool
  bc_ca_file :: string
  bc_namespace :: string

datatype broker_error = InvalidConnectionFile | InvalidEnvelope

fun json_str :: "json \<Rightarrow> string option" where
  "json_str (JStr s) = Some s"
| "json_str _ = None"

fun json_bool :: "json \<Rightarrow> bool option" where
  "json_bool (JBool b) = Some b"
| "json_bool _ = None"

definition name_char :: "char list \<Rightarrow> char \<Rightarrow> bool" where
  "name_char extra c \<longleftrightarrow> is_alnum c \<or> c \<in> set extra"

definition host_ok :: "string \<Rightarrow> bool" where
  "host_ok h \<longleftrightarrow> h \<noteq> [] \<and> \<not> list_ex (\<lambda>c. py_space c \<or> c \<in> set ''/@?#'') h"

text \<open>
  \<open>from_file\<close>: the constructor takes exactly the fields of the class, with defaults for the
  last three, and its caller supplies \<open>ca_file\<close>. \<open>loopback\<close> says of a host that
  \<open>ipaddress\<close> reads it as an address that is loopback. The checks are the method's, the last of
  them that no password crosses a network without TLS; a value of another type than a check
  expects is refused, by the check or by its \<open>TypeError\<close>.
\<close>

definition str_field :: "(string \<times> json) list \<Rightarrow> string \<Rightarrow> string option" where
  "str_field ps n = Option.bind (map_of ps n) json_str"

definition broker_config_ok :: "(string \<Rightarrow> bool) \<Rightarrow> broker_config \<Rightarrow> bool" where
  "broker_config_ok loopback c \<longleftrightarrow> host_ok (bc_host c) \<and> 1 \<le> bc_port c \<and> bc_port c \<le> 65535 \<and>
     class_match (name_char ''_.:-'') 1 128 (bc_username c) \<and>
     class_match (name_char ''_./-'') 1 128 (bc_virtual_host c) \<and>
     class_match (name_char ''_.-'') 1 100 (bc_namespace c) \<and>
     32 \<le> length (bc_password c) \<and> length (bc_password c) \<le> 512 \<and> list_all token_char (bc_password c) \<and>
     (bc_tls c \<or> bc_host c = ''localhost'' \<or> loopback (bc_host c))"

definition config_of :: "(string \<Rightarrow> bool) \<Rightarrow> string \<Rightarrow> (string \<times> json) list \<Rightarrow> broker_config option" where
  "config_of loopback ca ps =
     (if \<not> set (map fst ps) \<subseteq> {''host'', ''port'', ''virtual_host'', ''username'', ''password'', ''tls'', ''namespace''}
      then None
      else Option.bind (str_field ps ''host'') (\<lambda>h.
           Option.bind (Option.bind (map_of ps ''port'') json_int) (\<lambda>p.
           Option.bind (str_field ps ''virtual_host'') (\<lambda>vh.
           Option.bind (str_field ps ''username'') (\<lambda>u.
           Option.bind (str_field ps ''password'') (\<lambda>pw.
           Option.bind (case map_of ps ''tls'' of None \<Rightarrow> Some True | Some v \<Rightarrow> json_bool v) (\<lambda>t.
           Option.bind (case map_of ps ''namespace'' of None \<Rightarrow> Some ''transcriber'' | Some v \<Rightarrow> json_str v) (\<lambda>ns.
           let c = \<lparr>bc_host = h, bc_port = p, bc_virtual_host = vh, bc_username = u, bc_password = pw,
             bc_tls = t, bc_ca_file = ca, bc_namespace = ns\<rparr> in
           if broker_config_ok loopback c then Some c else None))))))))"

definition broker_from_file ::
  "(string \<Rightarrow> bool) \<Rightarrow> string \<Rightarrow> string option \<Rightarrow> (broker_error, broker_config) result" where
  "broker_from_file loopback ca content = (case content of
     None \<Rightarrow> Inl InvalidConnectionFile
   | Some raw \<Rightarrow>
       if 8192 < int (length raw) then Inl InvalidConnectionFile
       else (case json_loads_bytes raw of
           Some (JObj ps) \<Rightarrow> (case config_of loopback ca ps of
               None \<Rightarrow> Inl InvalidConnectionFile | Some c \<Rightarrow> Inr c)
         | _ \<Rightarrow> Inl InvalidConnectionFile))"

definition broker_name :: "broker_config \<Rightarrow> string \<Rightarrow> string" where
  "broker_name c n = bc_namespace c @ ''.'' @ n"

lemma config_of_ok: "config_of loopback ca ps = Some c \<Longrightarrow> broker_config_ok loopback c \<and> bc_ca_file c = ca"
  by (auto simp: config_of_def Let_def bind_eq_Some_conv split: if_split_asm)

section \<open>The task envelope\<close>

text \<open>\<open>Publisher._publish\<close>: the body of the message; its identifier travels beside it.\<close>

definition envelope_json :: "string \<Rightarrow> string \<Rightarrow> json" where
  "envelope_json i m = JObj [(''version'', JInt 1), (''job_id'', JStr i), (''message_id'', JStr m)]"

definition envelope :: "string \<Rightarrow> string \<Rightarrow> string" where
  "envelope i m = json_dumps (envelope_json i m)"

text \<open>
  \<open>delivery\<close>: the task of a message, or \<open>InvalidEnvelope\<close>. A document that is no object
  fails at the subscripts if not before.
\<close>

definition task_of :: "(string \<times> json) list \<Rightarrow> string option \<Rightarrow> (string \<times> string) option" where
  "task_of ps mid =
     (if set (map fst ps) \<noteq> {''version'', ''job_id'', ''message_id''} \<or> map_of ps ''version'' \<noteq> Some (JInt 1)
      then None
      else Option.bind (str_field ps ''job_id'') (\<lambda>i. Option.bind (str_field ps ''message_id'') (\<lambda>m.
        if canonical_uuid i \<and> canonical_uuid m \<and> Some m = mid then Some (i, m) else None)))"

definition delivery :: "string \<Rightarrow> string option \<Rightarrow> (broker_error, string \<times> string) result" where
  "delivery body mid =
     (if 1024 < int (length body) then Inl InvalidEnvelope
      else (case json_loads_bytes body of
          Some (JObj ps) \<Rightarrow> (case task_of ps mid of None \<Rightarrow> Inl InvalidEnvelope | Some t \<Rightarrow> Inr t)
        | _ \<Rightarrow> Inl InvalidEnvelope))"

lemma hex_dash_dump:
  assumes "list_all (\<lambda>c. is_lower_hex c \<or> c = CHR ''-'') s"
  shows "dump_string s = CHR 0x22 # s @ [CHR 0x22] \<and> list_all plain_ascii (dump_string s)"
proof -
  have c: "dump_char c = [c] \<and> plain_ascii c" if "is_lower_hex c \<or> c = CHR ''-''" for c
    using that by (auto simp: dump_char_def plain_ascii_def is_lower_hex_def is_digit_def Let_def)
  have "concat (map dump_char s) = s \<and> list_all plain_ascii s"
    using assms c by (induction s) auto
  then show ?thesis by (simp add: dump_string_def plain_ascii_def)
qed

lemma canonical_uuid_chars:
  assumes "canonical_uuid s"
  shows "list_all (\<lambda>c. is_lower_hex c \<or> c = CHR ''-'') s"
proof -
  have "is_lower_hex (s ! k) \<or> s ! k = CHR ''-''" if "k < length s" for k
    using assms that by (auto simp: canonical_uuid_def list_all_length nth_enumerate_eq split: if_splits)
  then show ?thesis by (simp add: list_all_length)
qed

lemma envelope_text:
  assumes "canonical_uuid i" and "canonical_uuid m"
  shows "envelope i m = CHR 0x7B # dump_string ''version'' @ '': 1, '' @ dump_string ''job_id'' @ '': '' @ dump_string i @
    '', '' @ dump_string ''message_id'' @ '': '' @ dump_string m @ [CHR 0x7D]"
proof -
  have "py_str_int 1 = ''1''" by code_simp
  then show ?thesis by (simp add: envelope_def envelope_json_def)
qed

lemma plain_keys: "list_all plain_ascii (dump_string ''version'' @ '': 1, '' @ dump_string ''job_id'' @ '': '' @ '', '' @ dump_string ''message_id'')"
  by code_simp

lemma plain_braces: "plain_ascii CHR 0x7B \<and> plain_ascii CHR 0x7D" by code_simp

lemma key_lengths: "length (dump_string ''version'') = 9 \<and> length (dump_string ''job_id'') = 8 \<and> length (dump_string ''message_id'') = 12"
  by code_simp

lemma envelope_decodes:
  assumes "canonical_uuid i" and "canonical_uuid m"
  shows "json_loads_bytes (envelope i m) = Some (envelope_json i m) \<and> length (envelope i m) = 118"
proof -
  note plain = hex_dash_dump [OF canonical_uuid_chars [OF assms(1)]] hex_dash_dump [OF canonical_uuid_chars [OF assms(2)]]
  have "list_all plain_ascii (envelope i m)"
    unfolding envelope_text [OF assms]
    using plain [THEN conjunct2] plain_keys plain_braces by (simp only: list.pred_inject list_all_append)
  then have "json_loads_bytes (envelope i m) = json_loads (envelope i m)"
    by (simp add: json_loads_bytes_def decode_bytes_ascii)
  also have "dumpable (JInt 1)" by (rule small_int_dumpable) simp_all
  then have "json_loads (envelope i m) = Some (envelope_json i m)"
    unfolding envelope_def by (intro json_loads_dumps(1)) (simp_all add: envelope_json_def)
  moreover have "length i = 36" "length m = 36" using assms by (simp_all add: canonical_uuid_def)
  then have "length (dump_string i) = 38" "length (dump_string m) = 38" using plain by simp_all
  then have "length (envelope i m) = 118"
    unfolding envelope_text [OF assms] using key_lengths by simp
  ultimately show ?thesis by simp
qed

text \<open>
  C25: consumers accept exactly what the publisher sends. The envelope of a job and a message is
  read back as that task when the message's identifier is beside it; and whatever message is
  accepted names a job and the message's own identifier, both canonical UUIDs, under version 1
  and no other field, in at most 1024 bytes.
\<close>

theorem envelopes_are_read_back:
  "(canonical_uuid i \<and> canonical_uuid m \<longrightarrow> delivery (envelope i m) (Some m) = Inr (i, m)) \<and>
   (delivery body mid = Inr (j, n) \<longrightarrow> mid = Some n \<and> canonical_uuid j \<and> canonical_uuid n \<and> length body \<le> 1024 \<and>
      (\<exists>ps. json_loads_bytes body = Some (JObj ps) \<and> map_of ps ''version'' = Some (JInt 1) \<and>
         map_of ps ''job_id'' = Some (JStr j) \<and> map_of ps ''message_id'' = Some (JStr n) \<and>
         set (map fst ps) = {''version'', ''job_id'', ''message_id''}))"
proof (intro conjI impI)
  assume "canonical_uuid i \<and> canonical_uuid m"
  with envelope_decodes [of i m] show "delivery (envelope i m) (Some m) = Inr (i, m)"
    by (auto simp: delivery_def envelope_json_def task_of_def str_field_def)
next
  have str: "json_str v = Some s \<Longrightarrow> v = JStr s" for v s by (cases v) auto
  assume "delivery body mid = Inr (j, n)"
  then obtain ps where "json_loads_bytes body = Some (JObj ps)" "task_of ps mid = Some (j, n)" "int (length body) \<le> 1024"
    by (auto simp: delivery_def split: if_splits option.splits json.splits)
  then show "mid = Some n" "canonical_uuid j" "canonical_uuid n" "length body \<le> 1024"
    "\<exists>ps. json_loads_bytes body = Some (JObj ps) \<and> map_of ps ''version'' = Some (JInt 1) \<and>
       map_of ps ''job_id'' = Some (JStr j) \<and> map_of ps ''message_id'' = Some (JStr n) \<and>
       set (map fst ps) = {''version'', ''job_id'', ''message_id''}"
    by (auto simp: task_of_def str_field_def bind_eq_Some_conv dest!: str split: if_split_asm)
qed

definition demo_id :: "char \<Rightarrow> string" where
  "demo_id c = ''00000000-0000-4000-8000-00000000000'' @ [c]"

theorem envelopes_are_read_back_witness:
  "delivery (envelope (demo_id CHR ''1'') (demo_id CHR ''2'')) (Some (demo_id CHR ''2'')) = Inr (demo_id CHR ''1'', demo_id CHR ''2'')"
proof -
  have "canonical_uuid (demo_id CHR ''1'') \<and> canonical_uuid (demo_id CHR ''2'')" by code_simp
  with envelopes_are_read_back show ?thesis by blast
qed

text \<open>
  Broker credentials are sound. An accepted connection file yields a configuration within
  all its limits, and unless it demands TLS its host is this machine.
\<close>

theorem broker_files_are_validated:
  assumes "broker_from_file loopback ca content = Inr c"
  shows "broker_config_ok loopback c \<and> bc_ca_file c = ca \<and>
    (\<not> bc_tls c \<longrightarrow> bc_host c = ''localhost'' \<or> loopback (bc_host c))"
proof -
  from assms obtain ps where "config_of loopback ca ps = Some c"
    by (auto simp: broker_from_file_def split: option.splits if_splits json.splits)
  with config_of_ok show ?thesis by (auto simp: broker_config_ok_def)
qed

definition demo_connection :: string where
  "demo_connection = json_dumps (JObj [(''host'', JStr ''localhost''), (''port'', JInt 7), (''virtual_host'', JStr ''v''),
     (''username'', JStr ''u''), (''password'', JStr (replicate 32 CHR ''x'')), (''tls'', JBool False)])"

theorem broker_files_are_validated_witness:
  "\<exists>c. broker_from_file (\<lambda>_. False) [] (Some demo_connection) = Inr c \<and> broker_config_ok (\<lambda>_. False) c \<and> \<not> bc_tls c"
proof -
  have "case broker_from_file (\<lambda>_. False) [] (Some demo_connection) of Inr c \<Rightarrow> \<not> bc_tls c | Inl _ \<Rightarrow> False" by code_simp
  then obtain c where c: "broker_from_file (\<lambda>_. False) [] (Some demo_connection) = Inr c" "\<not> bc_tls c"
    by (auto split: sum.splits)
  with broker_files_are_validated [OF c(1)] show ?thesis by blast
qed

end
