(* ===== verification/Consumer.thy ===== *)
theory Consumer
  imports Broker
begin

text \<open>
  \<open>broker.consume_slot\<close>: one admitted slot is one consumer that holds one message at a time.
  Each turn of its loop is given what it looks at: the flags and the connection at the top, the
  message it got or its time-out, the flags again, and how the attempt and the answers to the
  broker went. The result is the commands it sent, in order; ending the loop closes the
  connection, which gives an unanswered message back to the broker.
\<close>

text \<open>\<open>_process_delivery\<close>'s answers.\<close>

datatype work_result = WSettled | WBusy | WUnsettled

type_synonym message = "string \<times> string option"

record 'd slot_turn =
  tn_go :: bool
  tn_changed :: bool
  tn_message :: "message option"
  tn_still :: bool
  tn_rejected :: bool
  tn_work :: "string \<times> string \<Rightarrow> 'd \<Rightarrow> work_result option \<times> 'd"
  tn_stop :: bool
  tn_closed :: bool
  tn_copied :: bool
  tn_acked :: bool

text \<open>
  \<open>Attempted\<close> keeps the task, what the consumer saw of its result and the tables when the
  attempt ended. \<open>None\<close>: it raised, or the consumer did not wait for it.
\<close>

datatype 'd command =
  Receive message
| RejectMessage message
| Attempted "string \<times> string" "work_result option" 'd
| CopyDelayed message
| AckMessage message

text \<open>The turn after a message was accepted as a task; \<open>rest\<close> is the rest of the loop.\<close>

definition settle_message ::
  "'d slot_turn \<Rightarrow> message \<Rightarrow> string \<times> string \<Rightarrow> 'd \<Rightarrow> ('d \<Rightarrow> 'd command list \<times> 'd) \<Rightarrow> 'd command list \<times> 'd" where
  "settle_message t m task d rest = (case tn_work t task d of (out, d1) \<Rightarrow>
     if tn_stop t then ([Attempted task None d1], d1)
     else (case out of
         None \<Rightarrow> ([Attempted task None d1], d1)
       | Some w \<Rightarrow>
           if tn_closed t then ([Attempted task (Some w) d1], d1)
           else if w = WBusy then
             (if \<not> tn_copied t then ([Attempted task (Some w) d1], d1)
              else if \<not> tn_acked t then ([Attempted task (Some w) d1, CopyDelayed m, AckMessage m], d1)
              else (case rest d1 of (cs, d2) \<Rightarrow> (Attempted task (Some w) d1 # CopyDelayed m # AckMessage m # cs, d2)))
           else if w = WSettled then
             (if \<not> tn_acked t then ([Attempted task (Some w) d1, AckMessage m], d1)
              else (case rest d1 of (cs, d2) \<Rightarrow> (Attempted task (Some w) d1 # AckMessage m # cs, d2)))
           else ([Attempted task (Some w) d1], d1)))"

fun consume_slot :: "'d slot_turn list \<Rightarrow> 'd \<Rightarrow> 'd command list \<times> 'd" where
  "consume_slot [] d = ([], d)"
| "consume_slot (t # ts) d =
     (if \<not> tn_go t \<or> tn_changed t then ([], d)
      else (case tn_message t of
          None \<Rightarrow> consume_slot ts d
        | Some m \<Rightarrow>
            if \<not> tn_still t then ([Receive m], d)
            else (case delivery (fst m) (snd m) of
                Inl _ \<Rightarrow> if \<not> tn_rejected t then ([Receive m, RejectMessage m], d)
                  else (case consume_slot ts d of (cs, d') \<Rightarrow> (Receive m # RejectMessage m # cs, d'))
              | Inr task \<Rightarrow>
                  (case settle_message t m task d (consume_slot ts) of (cs, d') \<Rightarrow> (Receive m # cs, d')))))"

section \<open>How messages are answered\<close>

text \<open>
  The protocol of a consumer's commands: message after message, each rejected when malformed,
  acknowledged when its task is settled, copied and then acknowledged when its task is busy, or
  left unanswered as the last one. \<open>P\<close> holds of a settled task and the tables then.
\<close>

inductive answered :: "(string \<times> string \<Rightarrow> 'd \<Rightarrow> bool) \<Rightarrow> 'd command list \<Rightarrow> bool" for P where
  none: "answered P []"
| unread: "answered P [Receive m]"
| reject: "delivery (fst m) (snd m) = Inl e \<Longrightarrow> answered P cs \<Longrightarrow> answered P (Receive m # RejectMessage m # cs)"
| unanswered: "delivery (fst m) (snd m) = Inr task \<Longrightarrow> answered P [Receive m, Attempted task w d]"
| settled: "delivery (fst m) (snd m) = Inr task \<Longrightarrow> P task d \<Longrightarrow> answered P cs \<Longrightarrow>
    answered P (Receive m # Attempted task (Some WSettled) d # AckMessage m # cs)"
| busy: "delivery (fst m) (snd m) = Inr task \<Longrightarrow> answered P cs \<Longrightarrow>
    answered P (Receive m # Attempted task (Some WBusy) d # CopyDelayed m # AckMessage m # cs)"

inductive_cases answered_Cons: "answered P (c # cs)"

text \<open>
  The work of every turn keeps \<open>I\<close> of the tables, and establishes \<open>P\<close> when it answers that the
  task of the turn's message is settled.
\<close>

definition earns :: "('d \<Rightarrow> bool) \<Rightarrow> (string \<times> string \<Rightarrow> 'd \<Rightarrow> bool) \<Rightarrow> 'd slot_turn list \<Rightarrow> bool" where
  "earns I P ts \<longleftrightarrow> (\<forall>t \<in> set ts. \<forall>m task d w d'. tn_message t = Some m \<longrightarrow> delivery (fst m) (snd m) = Inr task \<longrightarrow> I d \<longrightarrow>
     tn_work t task d = (w, d') \<longrightarrow> I d' \<and> (w = Some WSettled \<longrightarrow> P task d'))"

lemma consumer_answers: "earns I P ts \<Longrightarrow> I d \<Longrightarrow> answered P (fst (consume_slot ts d))"
proof (induction ts arbitrary: d)
  case Nil
  show ?case by (simp add: answered.none)
next
  case (Cons t ts)
  have IH: "I e \<Longrightarrow> answered P (fst (consume_slot ts e))" for e using Cons by (simp add: earns_def)
  show ?case
  proof (cases "tn_message t")
    case None
    then show ?thesis using IH Cons.prems(2) by (simp add: answered.none)
  next
    case (Some m)
    show ?thesis
    proof (cases "delivery (fst m) (snd m)")
      case (Inl e)
      with Some IH Cons.prems(2) show ?thesis by (auto simp: split_beta intro: answered.intros)
    next
      case (Inr task)
      obtain out d1 where w: "tn_work t task d = (out, d1)" by fastforce
      with Cons.prems Some Inr have work: "I d1" "out = Some WSettled \<Longrightarrow> P task d1"
        unfolding earns_def by (metis list.set_intros(1))+
      have "answered P (Receive m # fst (settle_message t m task d (consume_slot ts)))"
        using w work(2) answered.unanswered [OF Inr, where P = P] answered.settled [OF Inr _ IH [OF work(1)]]
          answered.busy [OF Inr IH [OF work(1)]] answered.settled [OF Inr _ answered.none, where P = P]
          answered.busy [OF Inr answered.none, where P = P]
        by (cases out; cases "the out") (auto simp: settle_message_def split_beta)
      with Some Inr show ?thesis by (simp add: split_beta answered.none answered.unread)
    qed
  qed
qed

text \<open>
  Acknowledgements are earned. Whatever the consumer meets, its commands follow the
  protocol: it acknowledges a message only after the attempt on its own task was settled, or was
  busy and the delayed copy of the message was confirmed first; it rejects exactly malformed
  messages; and it takes no further message before it has answered the one it holds.
\<close>

theorem acks_are_earned:
  assumes "earns I P ts" and "I d"
  shows "answered P (fst (consume_slot ts d))"
  using assms by (rule consumer_answers)

definition demo_message :: message where
  "demo_message = (envelope (demo_id CHR ''1'') (demo_id CHR ''2''), Some (demo_id CHR ''2''))"

definition demo_turn :: "work_result \<Rightarrow> nat slot_turn" where
  "demo_turn w = \<lparr>tn_go = True, tn_changed = False, tn_message = Some demo_message, tn_still = True,
     tn_rejected = True, tn_work = (\<lambda>_ n. (Some w, Suc n)), tn_stop = False, tn_closed = False,
     tn_copied = True, tn_acked = True\<rparr>"

theorem acks_are_earned_witness:
  "answered (\<lambda>_ n. 0 < n) (fst (consume_slot [demo_turn WBusy, demo_turn WSettled] 0)) \<and>
   length (fst (consume_slot [demo_turn WBusy, demo_turn WSettled] 0)) = 7"
proof -
  have e: "earns (\<lambda>_. True) (\<lambda>_ n. 0 < n) [demo_turn WBusy, demo_turn WSettled]" by (auto simp: earns_def demo_turn_def)
  have "delivery (fst demo_message) (snd demo_message) = Inr (demo_id CHR ''1'', demo_id CHR ''2'')" by code_simp
  then have "length (fst (consume_slot [demo_turn WBusy, demo_turn WSettled] 0)) = 7"
    by (simp add: demo_turn_def settle_message_def)
  with acks_are_earned [OF e TrueI] show ?thesis by simp
qed

lemma answered_ack:
  "answered P cs \<Longrightarrow> cs = pre @ AckMessage m # post \<Longrightarrow>
   \<exists>pre' task d. delivery (fst m) (snd m) = Inr task \<and>
     (pre = pre' @ [Receive m, Attempted task (Some WSettled) d] \<and> P task d \<or>
      pre = pre' @ [Receive m, Attempted task (Some WBusy) d, CopyDelayed m])"
proof (induction cs arbitrary: pre rule: answered.induct)
  case (reject n e cs)
  then obtain pre'' where "pre = Receive n # RejectMessage n # pre''" "cs = pre'' @ AckMessage m # post"
    by (auto simp: Cons_eq_append_conv)
  with reject.IH show ?case by (metis append_Cons)
next
  case (settled n task d cs)
  then consider "n = m" "pre = [Receive m, Attempted task (Some WSettled) d]"
    | pre'' where "pre = Receive n # Attempted task (Some WSettled) d # AckMessage n # pre''" "cs = pre'' @ AckMessage m # post"
    by (auto simp: Cons_eq_append_conv)
  then show ?case
  proof cases
    case 1
    with settled show ?thesis by (metis append_Nil)
  next
    case 2
    with settled.IH show ?thesis by (metis append_Cons)
  qed
next
  case (busy n task cs d)
  then consider "n = m" "pre = [Receive m, Attempted task (Some WBusy) d, CopyDelayed m]"
    | pre'' where "pre = Receive n # Attempted task (Some WBusy) d # CopyDelayed n # AckMessage n # pre''" "cs = pre'' @ AckMessage m # post"
    by (auto simp: Cons_eq_append_conv)
  then show ?case
  proof cases
    case 1
    with busy show ?thesis by (metis append_Nil)
  next
    case 2
    with busy.IH show ?thesis by (metis append_Cons)
  qed
qed (auto simp: Cons_eq_append_conv)

end
