(* ===== verification/RemoteWorker.thy ===== *)
theory RemoteWorker
  imports WorkerApi Consumer
begin

text \<open>
  \<open>whisper/remote_worker.py\<close>: one task of a remote worker, from the broker's delivery or the
  claim to the answer. Its calls reach the endpoint of theory WorkerApi over a network that may
  lose the request or the reply; other processes act on the tables between the calls.
\<close>

section \<open>Calls\<close>

datatype fate = Arrives | RequestLost | ReplyLost

record rpc_env =
  rpc_api :: api_env
  rpc_fate :: fate
  rpc_before :: "db \<Rightarrow> db"

text \<open>
  \<open>RemoteWorker._call\<close>. \<open>None\<close> is an \<open>RpcError\<close>: a lost message, or the status a handler aborts
  with. \<open>vals\<close> is the worker's authorization metadata.
\<close>

definition rpc_call ::
  "(string \<Rightarrow> string \<Rightarrow> string \<Rightarrow> wire_segment list \<Rightarrow> int) \<Rightarrow> string list \<Rightarrow> rpc_env \<Rightarrow> worker_request \<Rightarrow> db
   \<Rightarrow> worker_response option \<times> db" where
  "rpc_call bsize vals e q d =
     (let d0 = rpc_before e d in
      if rpc_fate e = RequestLost then (None, d0)
      else (case handle bsize (rpc_api e) vals q d0 of
          (Inl _, d1) \<Rightarrow> (None, d1)
        | (Inr r, d1) \<Rightarrow> (if rpc_fate e = ReplyLost then None else Some r, d1)))"

section \<open>One task\<close>

text \<open>
  What a task meets: whether the process was asked to stop at each point the code looks
  (together with the loss of the lease), the heartbeats beside it, the chunks of the download,
  how the engine ended, and the calls for its answer. An error of the temporary file counts
  as \<open>EngineCrashed\<close>, which has the same consequence.
\<close>

datatype engine_end =
  EngineText string "wire_segment list"
| EngineInterrupted
| EngineInvalid
| EngineCrashed

record remote_task =
  rt_stop :: bool
  rt_beats :: "(rpc_env \<times> wire_float) list"
  rt_chunks :: "(bool \<times> string) list"
  rt_broken :: bool
  rt_halt :: bool
  rt_engine :: engine_end
  rt_halt_after :: bool
  rt_complete :: rpc_env
  rt_halt_fail :: bool
  rt_fail :: rpc_env

datatype task_end = TaskHalted | TaskRpcError | TaskInvalid | TaskCrashed | TaskAnswered bool

fun ack_of :: "worker_response option \<Rightarrow> bool option" where
  "ack_of (Some (WorkerAck b)) = Some b"
| "ack_of _ = None"

fun send_beats ::
  "(string \<Rightarrow> string \<Rightarrow> string \<Rightarrow> wire_segment list \<Rightarrow> int) \<Rightarrow> string list \<Rightarrow> string \<Rightarrow> string
   \<Rightarrow> (rpc_env \<times> wire_float) list \<Rightarrow> db \<Rightarrow> db" where
  "send_beats bsize vals i token [] d = d"
| "send_beats bsize vals i token ((e, p) # bs) d = (case rpc_call bsize vals e (Heartbeat i token p) d of
     (r, d') \<Rightarrow> if ack_of r = Some True then send_beats bsize vals i token bs d' else d')"

text \<open>The download: the chunks, each with whether the task was halted when it came.\<close>

fun receive_audio :: "int \<Rightarrow> int \<Rightarrow> bool \<Rightarrow> int \<Rightarrow> (bool \<times> string) list \<Rightarrow> task_end option" where
  "receive_audio limit wanted broken n [] =
     (if broken then Some TaskRpcError else if n \<noteq> wanted then Some TaskInvalid else None)"
| "receive_audio limit wanted broken n ((halted, c) # cs) =
     (if halted then Some TaskHalted
      else (let n' = n + int (length c) in
        if limit < n' \<or> wanted < n' then Some TaskInvalid else receive_audio limit wanted broken n' cs))"

text \<open>\<open>_process\<close>\<close>

definition process_inner ::
  "(string \<Rightarrow> string \<Rightarrow> string \<Rightarrow> wire_segment list \<Rightarrow> int) \<Rightarrow> int \<Rightarrow> string list \<Rightarrow> claim_response \<Rightarrow> remote_task
   \<Rightarrow> db \<Rightarrow> task_end \<times> db" where
  "process_inner bsize limit vals c t d =
     (if cr_input_size c \<le> 0 \<or> limit < cr_input_size c then (TaskInvalid, d)
      else (case receive_audio limit (cr_input_size c) (rt_broken t) 0 (rt_chunks t) of
          Some x \<Rightarrow> (x, d)
        | None \<Rightarrow>
            if rt_halt t then (TaskHalted, d)
            else (case rt_engine t of
                EngineInterrupted \<Rightarrow> (TaskHalted, d)
              | EngineInvalid \<Rightarrow> (TaskInvalid, d)
              | EngineCrashed \<Rightarrow> (TaskCrashed, d)
              | EngineText tx ss \<Rightarrow>
                  if rt_halt_after t then (TaskHalted, d)
                  else if MAX_RESULT_BYTES < bsize (cr_job_id c) (cr_lease_token c) tx ss then (TaskInvalid, d)
                  else (case rpc_call bsize vals (rt_complete t)
                               (Complete (cr_job_id c) (cr_lease_token c) tx ss) d of
                      (r, d') \<Rightarrow> (case ack_of r of None \<Rightarrow> TaskRpcError | Some b \<Rightarrow> TaskAnswered b, d')))))"

text \<open>\<open>_fail\<close>\<close>

definition report_failure ::
  "(string \<Rightarrow> string \<Rightarrow> string \<Rightarrow> wire_segment list \<Rightarrow> int) \<Rightarrow> string list \<Rightarrow> claim_response \<Rightarrow> remote_task
   \<Rightarrow> string \<Rightarrow> bool \<Rightarrow> db \<Rightarrow> bool \<times> db" where
  "report_failure bsize vals c t code retryable d =
     (if rt_halt_fail t then (False, d)
      else (case rpc_call bsize vals (rt_fail t) (Fail (cr_job_id c) (cr_lease_token c) code retryable) d of
          (r, d') \<Rightarrow> (ack_of r = Some True, d')))"

text \<open>\<open>process\<close>: whether the coordinator accepted an answer. The beats go on until it ends.\<close>

definition process_task ::
  "(string \<Rightarrow> string \<Rightarrow> string \<Rightarrow> wire_segment list \<Rightarrow> int) \<Rightarrow> int \<Rightarrow> string list \<Rightarrow> claim_response \<Rightarrow> remote_task
   \<Rightarrow> db \<Rightarrow> bool \<times> db" where
  "process_task bsize limit vals c t d =
     (if rt_stop t \<or> cr_lease_token c = [] \<or> cr_lease_seconds c \<le> 0 then (False, d)
      else (let d0 = send_beats bsize vals (cr_job_id c) (cr_lease_token c) (rt_beats t) d in
        case process_inner bsize limit vals c t d0 of
          (TaskHalted, d1) \<Rightarrow> (False, d1)
        | (TaskRpcError, d1) \<Rightarrow> (False, d1)
        | (TaskInvalid, d1) \<Rightarrow> report_failure bsize vals c t ''invalid_input'' False d1
        | (TaskCrashed, d1) \<Rightarrow> report_failure bsize vals c t ''inference_failed'' True d1
        | (TaskAnswered b, d1) \<Rightarrow> (b, d1)))"

section \<open>One delivery\<close>

text \<open>
  \<open>_process_delivery\<close>: \<open>BeginAttempt\<close> is tried once more under the same delivery id, unless
  the process is stopping.
\<close>

record delivery_env =
  dv_worker :: string
  dv_instance :: string
  dv_vals :: "string list"
  dv_id :: string
  dv_first :: rpc_env
  dv_stopping :: bool
  dv_second :: rpc_env
  dv_limit :: int
  dv_task :: remote_task

definition begin_delivery ::
  "(string \<Rightarrow> string \<Rightarrow> string \<Rightarrow> wire_segment list \<Rightarrow> int) \<Rightarrow> delivery_env \<Rightarrow> string \<times> string \<Rightarrow> db
   \<Rightarrow> worker_response option \<times> db" where
  "begin_delivery bsize v task d =
     (let q = BeginAttempt (dv_worker v) (dv_instance v) (fst task) (snd task) (dv_id v) in
      case rpc_call bsize (dv_vals v) (dv_first v) q d of
        (Some r, d1) \<Rightarrow> (Some r, d1)
      | (None, d1) \<Rightarrow> if dv_stopping v then (None, d1) else rpc_call bsize (dv_vals v) (dv_second v) q d1)"

definition process_delivery ::
  "(string \<Rightarrow> string \<Rightarrow> string \<Rightarrow> wire_segment list \<Rightarrow> int) \<Rightarrow> delivery_env \<Rightarrow> string \<times> string \<Rightarrow> db
   \<Rightarrow> work_result option \<times> db" where
  "process_delivery bsize v task d = (case begin_delivery bsize v task d of
     (Some (BeginResponse disp job), d1) \<Rightarrow>
       if disp = ''discard'' then (Some WSettled, d1)
       else if disp = ''busy'' then (Some WBusy, d1)
       else (case job of
           None \<Rightarrow> (Some WUnsettled, d1)
         | Some c \<Rightarrow>
             if disp \<noteq> ''started'' \<or> cr_job_id c = [] then (Some WUnsettled, d1)
             else (case process_task bsize (dv_limit v) (dv_vals v) c (dv_task v) d1 of
                 (ok, d2) \<Rightarrow> (Some (if ok then WSettled else WUnsettled), d2)))
   | (_, d1) \<Rightarrow> (Some WUnsettled, d1))"

section \<open>When a message is spent\<close>

text \<open>
  No attempt waits on the message: its job is gone, waits on another message, or does not wait.
  Every later delivery of it would be discarded.
\<close>

definition message_spent :: "string \<Rightarrow> string \<Rightarrow> db \<Rightarrow> bool" where
  "message_spent i m d \<longleftrightarrow> (case job_by_id i d of None \<Rightarrow> True
     | Some r \<Rightarrow> dispatch_id r \<noteq> m \<or> \<not> in_queue (status r))"

lemma spent_is_discarded:
  assumes "message_spent i m d"
  shows "begin_attempt cfg c u w inst i m dl d = ((Discard, None), d)"
proof (cases "job_by_id i d")
  case (Some r)
  with assms have "dispatch_id r \<noteq> m \<or> \<not> in_queue (status r)" by (simp add: message_spent_def)
  with Some show ?thesis
    by (cases "status r") (auto simp: begin_attempt_def live_def in_queue_def terminal_def)
qed (simp add: begin_attempt_def)

lemma discard_is_spent:
  assumes "begin_attempt cfg c u w inst i m dl d = ((Discard, x), d')"
  shows "message_spent i m d'"
proof (cases "job_by_id i d")
  case None
  with assms show ?thesis by (simp add: begin_attempt_def message_spent_def)
next
  case (Some r)
  let ?t = "reading c 0" and ?e = "sql_broker_exhausted (tx_now c) i d"
  have "job_by_id i ?e = map_option (\<lambda>r. if by_id i r then trigger_row (tx_now c) r (exhausted_row (tx_now c) r) else r) (job_by_id i d)"
    unfolding sql_broker_exhausted_def by (rule job_by_id_update_jobs) (simp add: exhausted_row_def)
  with Some job_by_id_Some [OF Some] have ex: "message_spent i m ?e"
    by (simp add: message_spent_def by_id_def exhausted_row_def in_queue_def)
  have start: "start_delivery cfg c u w inst dl r d \<noteq> ((Discard, x), d')"
    by (auto simp: start_delivery_def Let_def split: option.splits)
  from assms Some ex start show ?thesis
    by (auto simp: begin_attempt_def message_spent_def in_queue_def terminal_def split: if_splits)
qed

lemma accepted_completion_is_spent:
  assumes "tables_ok d" and "complete_job now i owner t ss path d = (True, d')"
  shows "message_spent i m d'"
proof -
  from assms(2) have "one_row (owned_sel i owner now) d" by (simp add: complete_job_def)
  then obtain r where r: "job_by_id i d = Some r" "owned_sel i owner now r"
    using one_row_sel [OF assms(1), of "owned_sel i owner now" i] by (auto simp: owned_sel_def)
  from complete_job_row [OF r(1), of now owner t ss path] r(2) assms(2) show ?thesis
    by (simp add: message_spent_def complete_row_def in_queue_def)
qed

lemma accepted_failure_is_spent:
  assumes "tables_ok d" and "fail_job cfg c u i owner e retryable d = (True, d')"
    and "queue_backend cfg = Rabbitmq" and "u \<noteq> m"
  shows "message_spent i m d'"
proof -
  let ?t = "tx_now c"
  from assms(2) have one: "one_row (fail_sel i owner ?t) d" by (simp add: fail_job_def Let_def)
  then obtain r where r: "job_by_id i d = Some r" "fail_sel i owner ?t r"
    using one_row_sel [OF assms(1), of "fail_sel i owner ?t" i] by (auto simp: fail_sel_def)
  let ?r = "trigger_row ?t r (fail_row ?t retryable e r)" and ?d = "sql_fail ?t retryable e i owner d"
  have row: "job_by_id i ?d = Some ?r"
    unfolding sql_fail_def using r by (subst job_by_id_update_jobs) (simp_all add: fail_row_def Let_def)
  have id: "job_id ?r = i" using job_by_id_Some [OF r(1)] by (simp add: fail_row_def Let_def)
  have "job_by_id i (enqueue clk u i delay ?d) = Some (dispatch_row u ?r)" for clk delay
    using job_by_id_update_quiet [of "by_id i" "dispatch_row u" i ?d] row id
    by (simp add: enqueue_def sql_outbox_insert_def sql_dispatch_def dispatch_row_def job_by_id_def by_id_def)
  moreover have "status ?r = Queued \<or> status ?r = Failed" by (simp add: fail_row_def Let_def)
  moreover have "d' = (if status ?r = Queued then enqueue (reading c 0) u i (retry_delay (attempts ?r)) ?d else ?d)"
    using assms(2,3) one row by (simp add: fail_job_def Let_def)
  ultimately show ?thesis using row assms(4)
    by (auto simp: message_spent_def dispatch_row_def in_queue_def)
qed

section \<open>The endpoint keeps the store\<close>

lemma keeps_claim_reply: "tables_ok d \<Longrightarrow> keeps us d (snd (claim_reply e j d))"
  by (simp add: claim_reply_def Let_def keeps_refl keeps_fail split: option.split)

lemma keeps_register: "tables_ok d \<Longrightarrow> keeps us d (snd (register_consumer cfg c w inst d))"
  by (rule keeps_frame [OF keeps_refl])
    (simp_all add: register_consumer_def sql_broker_admit_def Let_def split: option.split prod.split bool.split)

lemma keeps_report: "tables_ok d \<Longrightarrow> keeps us d (snd (report_availability cfg now w inst ready d))"
  by (rule keeps_frame [OF keeps_refl])
    (simp_all add: report_availability_def sql_report_availability_def sql_cleanup_availability_def Let_def)

lemma keeps_handle:
  assumes "tables_ok d"
  shows "keeps us d (snd (handle bsize e vals q d))"
proof -
  have reply: "keeps us d (snd (claim_reply e j d'))" if "keeps us d d'" for j d'
    by (rule keeps_trans [OF that keeps_claim_reply [OF keeps_ok [OF that]]])
  note refl = keeps_refl [OF assms, of us]
  show ?thesis
  proof (cases q)
    case (Claim w inst)
    obtain x d' where x: "claim_next_job (api_cfg e) (api_locked e) (api_clock e) (api_uuid e) w False inst d = (x, d')" by fastforce
    then have "keeps us d d'" using keeps_claim_next [OF assms] by (metis snd_conv)
    with reply refl show ?thesis
      unfolding Claim handle.simps api_claim_def x by (auto simp: split_beta split: sum.split option.split)
  next
    case (BeginAttempt w inst i m dl)
    obtain disp x d' where x: "begin_attempt (api_cfg e) (api_clock e) (api_uuid e) w inst i m dl d = ((disp, x), d')"
      by (metis prod.collapse)
    then have "keeps us d d'" using keeps_begin [OF assms] by (metis snd_conv)
    with reply refl show ?thesis
      unfolding BeginAttempt handle.simps api_begin_def x by (auto simp: split_beta split: sum.split option.split)
  qed (use refl assms in \<open>auto simp: api_register_def api_report_def api_heartbeat_def api_complete_def api_fail_def
      keeps_register keeps_report keeps_heartbeat keeps_complete keeps_fail split_beta
      split: sum.split wire_float.split option.split\<close>)
qed

text \<open>What others do between the calls keeps the tables well-formed.\<close>

definition orderly :: "rpc_env \<Rightarrow> bool" where
  "orderly e \<longleftrightarrow> (\<forall>d. tables_ok d \<longrightarrow> tables_ok (rpc_before e d))"

lemma rpc_call_ok: "tables_ok d \<Longrightarrow> orderly e \<Longrightarrow> tables_ok (snd (rpc_call bsize vals e q d))"
  using keeps_ok [OF keeps_handle, of "rpc_before e d" bsize "rpc_api e" vals q]
  by (auto simp: rpc_call_def orderly_def Let_def split_beta split: sum.split prod.split)

lemma rpc_call_Some:
  "rpc_call bsize vals e q d = (Some r, d') \<Longrightarrow> handle bsize (rpc_api e) vals q (rpc_before e d) = (Inr r, d')"
  by (auto simp: rpc_call_def Let_def split: if_splits sum.splits prod.splits)

lemma send_beats_ok:
  "tables_ok d \<Longrightarrow> list_all (orderly \<circ> fst) bs \<Longrightarrow> tables_ok (send_beats bsize vals i token bs d)"
proof (induction bsize vals i token bs d rule: send_beats.induct)
  case (2 bsize vals i token e p bs d)
  obtain r d' where c: "rpc_call bsize vals e (Heartbeat i token p) d = (r, d')" by fastforce
  with 2 rpc_call_ok [of d e bsize vals "Heartbeat i token p"] show ?case by simp
qed simp

section \<open>Settled deliveries are spent\<close>

lemma complete_call_spent:
  assumes "rpc_call bsize vals e (Complete i token tx ss) d = (r, d')" and "ack_of r = Some True"
    and "tables_ok d" and "orderly e"
  shows "message_spent i m d'"
proof -
  have r: "r = Some (WorkerAck True)" using assms(2) by (cases r rule: ack_of.cases) auto
  from rpc_call_Some [OF assms(1) [unfolded r]] have "\<exists>t. complete_job (tx_now (api_clock (rpc_api e))) i token tx t [] (rpc_before e d) = (True, d')"
    by (auto simp: api_complete_def abort_def split: sum.splits if_splits option.splits prod.splits)
  with accepted_completion_is_spent assms(3,4) show ?thesis by (auto simp: orderly_def)
qed

lemma fail_call_spent:
  assumes "rpc_call bsize vals e (Fail i token code retryable) d = (r, d')" and "ack_of r = Some True"
    and "tables_ok d" and "orderly e" and "queue_backend (api_cfg (rpc_api e)) = Rabbitmq" and "api_uuid (rpc_api e) \<noteq> m"
  shows "message_spent i m d'"
proof -
  have r: "r = Some (WorkerAck True)" using assms(2) by (cases r rule: ack_of.cases) auto
  from rpc_call_Some [OF assms(1) [unfolded r]] have "fail_job (api_cfg (rpc_api e)) (api_clock (rpc_api e))
      (api_uuid (rpc_api e)) i token code retryable (rpc_before e d) = (True, d')"
    by (auto simp: api_fail_def abort_def split: sum.splits if_splits prod.splits)
  with accepted_failure_is_spent assms(3-6) show ?thesis unfolding orderly_def by blast
qed

lemma begin_response:
  assumes "handle bsize e vals (BeginAttempt w inst i m dl) d = (Inr (BeginResponse disp job), d')"
  shows "(disp = ''discard'' \<longrightarrow> message_spent i m d') \<and> (\<forall>c. job = Some c \<longrightarrow> cr_job_id c = i)"
proof -
  let ?b = "begin_attempt (api_cfg e) (api_clock e) (api_uuid e) w inst i m dl d"
  obtain dis x d1 where b: "?b = ((dis, x), d1)" by (metis prod.collapse)
  from assms b have r: "disp = disposition_text dis" "x = None \<Longrightarrow> d' = d1 \<and> job = None"
    "\<And>j. x = Some j \<Longrightarrow> \<exists>c. claim_reply e j d1 = (Inr c, d') \<and> job = Some c"
    by (auto simp: api_begin_def abort_def split: sum.splits if_splits option.splits prod.splits)
  show ?thesis
  proof (cases x)
    case None
    with r b discard_is_spent show ?thesis by (cases dis) auto
  next
    case (Some j)
    have dis: "dis = Started" using b Some
      by (auto simp: begin_attempt_def start_delivery_def Let_def split: option.splits if_splits)
    from started_attempt [OF b [unfolded dis Some]] obtain row where "job_by_id i d1 = Some row" "j = claimed_of (lease_owner row) row"
      by blast
    then have "JobRecord.job_id (claimed_job j) = i" using job_by_id_Some by (auto simp: claimed_of_def)
    moreover from r(3) [OF Some] obtain c where "claim_reply e j d1 = (Inr c, d')" "job = Some c" by blast
    ultimately have "cr_job_id c = i" "job = Some c"
      by (auto simp: claim_reply_def Let_def split: option.splits)
    with r(1) dis show ?thesis by simp
  qed
qed

lemma audio_not_answered: "receive_audio limit wanted broken n cs \<noteq> Some (TaskAnswered b)"
  by (induction limit wanted broken n cs rule: receive_audio.induct) (auto simp: Let_def)

lemma process_inner_cases:
  assumes "process_inner bsize limit vals c t d = (x, d')"
  shows "(d' = d \<and> x \<noteq> TaskAnswered True) \<or>
    (\<exists>tx ss r. rpc_call bsize vals (rt_complete t) (Complete (cr_job_id c) (cr_lease_token c) tx ss) d = (r, d') \<and>
       x = (case ack_of r of None \<Rightarrow> TaskRpcError | Some b \<Rightarrow> TaskAnswered b))"
proof (cases "cr_input_size c \<le> 0 \<or> limit < cr_input_size c \<or>
    receive_audio limit (cr_input_size c) (rt_broken t) 0 (rt_chunks t) \<noteq> None \<or> rt_halt t")
  case True
  have "process_inner bsize limit vals c t d = (x, d') \<longrightarrow> d' = d \<and> x \<noteq> TaskAnswered True"
    unfolding process_inner_def using True audio_not_answered [of limit "cr_input_size c" "rt_broken t" 0 "rt_chunks t"]
    by (auto split: option.split)
  with assms show ?thesis by blast
next
  case False
  show ?thesis
  proof (cases "rt_engine t")
    case (EngineText tx ss)
    obtain r e where call: "rpc_call bsize vals (rt_complete t) (Complete (cr_job_id c) (cr_lease_token c) tx ss) d = (r, e)"
      by fastforce
    with False EngineText assms show ?thesis
      by (auto simp: process_inner_def split: if_split_asm)
  qed (use False assms in \<open>auto simp: process_inner_def\<close>)
qed

lemma process_inner_ok:
  assumes "process_inner bsize limit vals c t d = (x, d')" and "tables_ok d" and "orderly (rt_complete t)"
  shows "tables_ok d' \<and> (x = TaskAnswered True \<longrightarrow> message_spent (cr_job_id c) m d')"
  using process_inner_cases [OF assms(1)]
proof
  assume "\<exists>tx ss r. rpc_call bsize vals (rt_complete t) (Complete (cr_job_id c) (cr_lease_token c) tx ss) d = (r, d') \<and>
    x = (case ack_of r of None \<Rightarrow> TaskRpcError | Some b \<Rightarrow> TaskAnswered b)"
  then obtain tx ss r where r: "rpc_call bsize vals (rt_complete t) (Complete (cr_job_id c) (cr_lease_token c) tx ss) d = (r, d')"
    "x = (case ack_of r of None \<Rightarrow> TaskRpcError | Some b \<Rightarrow> TaskAnswered b)" by blast
  have "tables_ok d'" using rpc_call_ok [OF assms(2,3)] r(1) by (metis snd_conv)
  with r complete_call_spent [OF r(1) _ assms(2,3)] show ?thesis by (auto split: option.splits)
qed (use assms(2) in simp)

definition task_orderly :: "remote_task \<Rightarrow> bool" where
  "task_orderly t \<longleftrightarrow> list_all (orderly \<circ> fst) (rt_beats t) \<and> orderly (rt_complete t) \<and> orderly (rt_fail t)"

lemma process_task_spent:
  assumes "process_task bsize limit vals c t d = (True, d')" and "tables_ok d" and "task_orderly t"
    and "queue_backend (api_cfg (rpc_api (rt_fail t))) = Rabbitmq" and "api_uuid (rpc_api (rt_fail t)) \<noteq> m"
  shows "message_spent (cr_job_id c) m d'"
proof -
  let ?d0 = "send_beats bsize vals (cr_job_id c) (cr_lease_token c) (rt_beats t) d"
  have o: "orderly (rt_complete t)" "orderly (rt_fail t)" using assms(3) by (simp_all add: task_orderly_def)
  have ok0: "tables_ok ?d0" using send_beats_ok [OF assms(2)] assms(3) by (simp add: task_orderly_def)
  obtain x d1 where x: "process_inner bsize limit vals c t ?d0 = (x, d1)" by fastforce
  note inner = process_inner_ok [OF x ok0 o(1), of m]
  have failed: "message_spent (cr_job_id c) m d'"
    if "report_failure bsize vals c t code retryable d1 = (True, d')" for code retryable
    using that fail_call_spent [OF _ _ _ o(2) assms(4,5)] inner
    by (auto simp: report_failure_def split: if_splits prod.splits)
  from assms(1) x inner failed show ?thesis
    by (cases x) (auto simp: process_task_def Let_def split: if_splits)
qed

lemma settled_spent:
  assumes "process_delivery bsize v (i, m) d = (Some WSettled, d')" and "tables_ok d"
    and "orderly (dv_first v)" and "orderly (dv_second v)" and "task_orderly (dv_task v)"
    and "queue_backend (api_cfg (rpc_api (rt_fail (dv_task v)))) = Rabbitmq"
    and "api_uuid (rpc_api (rt_fail (dv_task v))) \<noteq> m"
  shows "message_spent i m d'"
proof -
  let ?q = "BeginAttempt (dv_worker v) (dv_instance v) i m (dv_id v)"
  obtain br d1 where b0: "begin_delivery bsize v (i, m) d = (br, d1)" by fastforce
  with assms(1) obtain disp job where br: "br = Some (BeginResponse disp job)"
    by (simp add: process_delivery_def split: option.splits worker_response.splits)
  note b = b0 [unfolded br]
  from assms(1) b have out: "disp = ''discard'' \<and> d' = d1 \<or>
      (\<exists>c. job = Some c \<and> process_task bsize (dv_limit v) (dv_vals v) c (dv_task v) d1 = (True, d'))"
    by (simp add: process_delivery_def split_beta prod_eq_iff split: if_splits option.splits)
  have "\<exists>e d0. tables_ok d0 \<and> orderly e \<and> rpc_call bsize (dv_vals v) e ?q d0 = (Some (BeginResponse disp job), d1)"
  proof (cases "rpc_call bsize (dv_vals v) (dv_first v) ?q d")
    case (Pair r d2)
    have ok2: "tables_ok d2" using rpc_call_ok [OF assms(2,3)] Pair by (metis snd_conv)
    show ?thesis
    proof (cases r)
      case None
      with b Pair have "rpc_call bsize (dv_vals v) (dv_second v) ?q d2 = (Some (BeginResponse disp job), d1)"
        by (auto simp: begin_delivery_def split: if_splits)
      with ok2 assms(4) show ?thesis by blast
    next
      case (Some a)
      with b Pair assms(2,3) show ?thesis by (auto simp: begin_delivery_def)
    qed
  qed
  then obtain e d0 where e: "tables_ok d0" "orderly e" "rpc_call bsize (dv_vals v) e ?q d0 = (Some (BeginResponse disp job), d1)"
    by blast
  have ok1: "tables_ok d1" using rpc_call_ok [OF e(1,2)] e(3) by (metis snd_conv)
  note resp = begin_response [OF rpc_call_Some [OF e(3)]]
  show ?thesis using out resp process_task_spent [OF _ ok1 assms(5-7)] by blast
qed

lemma process_task_ok:
  assumes "tables_ok d" and "task_orderly t"
  shows "tables_ok (snd (process_task bsize limit vals c t d))"
proof -
  let ?d0 = "send_beats bsize vals (cr_job_id c) (cr_lease_token c) (rt_beats t) d"
  have ok0: "tables_ok ?d0" using send_beats_ok assms by (simp add: task_orderly_def)
  obtain x d1 where x: "process_inner bsize limit vals c t ?d0 = (x, d1)" by fastforce
  have ok1: "tables_ok d1" using process_inner_ok [OF x ok0] assms(2) by (simp add: task_orderly_def)
  have "tables_ok (snd (report_failure bsize vals c t code retryable d1))" for code retryable
    using rpc_call_ok [OF ok1, of "rt_fail t"] ok1 assms(2) by (auto simp: report_failure_def task_orderly_def split_beta)
  with assms(1) ok1 x show ?thesis by (cases x) (simp_all add: process_task_def Let_def)
qed

lemma process_delivery_ok:
  assumes "tables_ok d" and "orderly (dv_first v)" and "orderly (dv_second v)" and "task_orderly (dv_task v)"
  shows "tables_ok (snd (process_delivery bsize v task d))"
proof -
  obtain br d1 where b: "begin_delivery bsize v task d = (br, d1)" by fastforce
  have "tables_ok (snd (begin_delivery bsize v task d))"
    using rpc_call_ok [OF assms(1,2)] rpc_call_ok [OF _ assms(3)]
    unfolding begin_delivery_def Let_def
    by (auto split: prod.split option.split) (metis snd_conv)+
  with b have ok1: "tables_ok d1" by simp
  with b process_task_ok [OF _ assms(4)] show ?thesis
    by (auto simp: process_delivery_def split_beta split: option.split worker_response.split)
qed

text \<open>The turn of a consumer whose work is a worker's.\<close>

definition remote_turn ::
  "(string \<Rightarrow> string \<Rightarrow> string \<Rightarrow> wire_segment list \<Rightarrow> int) \<Rightarrow> db slot_turn \<Rightarrow> bool" where
  "remote_turn bsize t \<longleftrightarrow> (\<exists>v. tn_work t = process_delivery bsize v \<and>
     orderly (dv_first v) \<and> orderly (dv_second v) \<and> task_orderly (dv_task v) \<and>
     queue_backend (api_cfg (rpc_api (rt_fail (dv_task v)))) = Rabbitmq \<and>
     (\<forall>m. tn_message t = Some m \<longrightarrow> snd m \<noteq> Some (api_uuid (rpc_api (rt_fail (dv_task v))))))"

lemma delivery_message_id: "delivery body mid = Inr (i, m) \<Longrightarrow> mid = Some m"
  by (auto simp: delivery_def task_of_def bind_eq_Some_conv split: if_splits option.splits json.splits)

lemma remote_turns_earn:
  assumes "\<forall>t \<in> set ts. remote_turn bsize t"
  shows "earns tables_ok (\<lambda>(i, m) d. message_spent i m d \<and> tables_ok d) ts"
  unfolding earns_def
proof (intro ballI allI impI)
  fix t m task d w d'
  assume a: "t \<in> set ts" "tn_message t = Some m" "delivery (fst m) (snd m) = Inr task" "tables_ok d" "tn_work t task d = (w, d')"
  obtain i n where task: "task = (i, n)" by fastforce
  from assms a(1) obtain v where v: "tn_work t = process_delivery bsize v"
    "orderly (dv_first v)" "orderly (dv_second v)" "task_orderly (dv_task v)"
    "queue_backend (api_cfg (rpc_api (rt_fail (dv_task v)))) = Rabbitmq"
    "snd m \<noteq> Some (api_uuid (rpc_api (rt_fail (dv_task v))))"
    using a(2) unfolding remote_turn_def by metis
  from v(6) delivery_message_id a(3) task have fresh: "api_uuid (rpc_api (rt_fail (dv_task v))) \<noteq> n" by auto
  have p: "process_delivery bsize v (i, n) d = (w, d')" using a(5) v(1) task by simp
  have ok: "tables_ok d'" using process_delivery_ok [OF a(4) v(2-4)] p by (metis snd_conv)
  have "message_spent i n d'" if "w = Some WSettled"
    using settled_spent [OF p [unfolded that] a(4) v(2-5) fresh] .
  with ok task show "tables_ok d' \<and> (w = Some WSettled \<longrightarrow> (case task of (i, m) \<Rightarrow> \<lambda>d. message_spent i m d \<and> tables_ok d) d')"
    by simp
qed

text \<open>
  C24: a settled delivery leaves nothing waiting. Whatever the network does to the calls and
  whatever other processes do between them, when a remote worker answers that the delivery of a
  message is settled, then at that moment no attempt of its job waits on the message: the job
  has ended, is gone, or waits on a newer message. Every later copy of the message would be
  discarded.
\<close>

theorem settled_deliveries_are_spent:
  assumes "process_delivery bsize v (i, m) d = (Some WSettled, d')" and "tables_ok d"
    and "orderly (dv_first v)" and "orderly (dv_second v)" and "task_orderly (dv_task v)"
    and "queue_backend (api_cfg (rpc_api (rt_fail (dv_task v)))) = Rabbitmq"
    and "api_uuid (rpc_api (rt_fail (dv_task v))) \<noteq> m"
  shows "message_spent i m d' \<and> begin_attempt cfg c u w inst i m dl d' = ((Discard, None), d')"
  using settled_spent [OF assms] spent_is_discarded by blast

definition admitted_run :: "(clock \<times> store_call) list" where
  "admitted_run = [
     (at_time 0, CReserve (demo_uuid CHR ''1'') (demo_request [])),
     (at_time 1, CQueued (demo_uuid CHR ''2'') (demo_uuid CHR ''1'')),
     (at_time 2, CPublish (\<lambda>_. False) (\<lambda>_ _. True)),
     (at_time 3, CReport ''gpu'' (demo_uuid CHR ''a'') True),
     (at_time 4, CRegister ''gpu'' (demo_uuid CHR ''a''))]"

definition admitted_sys :: sys where
  "admitted_sys = run_calls demo_hash (demo_cfg Rabbitmq) init_sys admitted_run"

lemma admitted_sys_reachable: "(store_step demo_hash (demo_cfg Rabbitmq))\<^sup>*\<^sup>* init_sys admitted_sys"
proof -
  have "run_ok demo_hash (demo_cfg Rabbitmq) init_sys admitted_run" by code_simp
  then show ?thesis unfolding admitted_sys_def by (rule run_calls_steps)
qed

definition rabbit_env :: "time \<Rightarrow> char \<Rightarrow> fate \<Rightarrow> rpc_env" where
  "rabbit_env t u f = \<lparr>rpc_api = download_env\<lparr>api_cfg := demo_cfg Rabbitmq, api_clock := at_time t,
     api_uuid := demo_uuid u\<rparr>, rpc_fate = f, rpc_before = (\<lambda>d. d)\<rparr>"

text \<open>The first reply is lost on the way; the second try gets the same claim.\<close>

definition demo_delivery :: delivery_env where
  "demo_delivery = \<lparr>dv_worker = ''gpu'', dv_instance = demo_uuid CHR ''a'', dv_vals = [bearer @ replicate 32 CHR ''x''],
     dv_id = demo_uuid CHR ''b'', dv_first = rabbit_env 5 CHR ''3'' ReplyLost, dv_stopping = False,
     dv_second = rabbit_env 6 CHR ''4'' Arrives, dv_limit = 1000,
     dv_task = \<lparr>rt_stop = False, rt_beats = [], rt_chunks = [(False, ''abc'')], rt_broken = False, rt_halt = False,
       rt_engine = EngineText ''hi'' [], rt_halt_after = False, rt_complete = rabbit_env 7 CHR ''5'' Arrives,
       rt_halt_fail = False, rt_fail = rabbit_env 8 CHR ''6'' Arrives\<rparr>\<rparr>"

lemma demo_delivery_sound:
  "fst (process_delivery (\<lambda>_ _ _ _. 0) demo_delivery (demo_uuid CHR ''1'', demo_uuid CHR ''2'') (sdb admitted_sys)) = Some WSettled"
  "tables_ok (sdb admitted_sys)" "orderly (dv_first demo_delivery)" "orderly (dv_second demo_delivery)"
  "task_orderly (dv_task demo_delivery)" "queue_backend (api_cfg (rpc_api (rt_fail (dv_task demo_delivery)))) = Rabbitmq"
  "api_uuid (rpc_api (rt_fail (dv_task demo_delivery))) \<noteq> demo_uuid CHR ''2''"
proof -
  show "fst (process_delivery (\<lambda>_ _ _ _. 0) demo_delivery (demo_uuid CHR ''1'', demo_uuid CHR ''2'') (sdb admitted_sys)) =
      Some WSettled" by code_simp
  show "tables_ok (sdb admitted_sys)"
    using reachable_sys_ok [OF admitted_sys_reachable demo_budget] by (simp add: sys_ok_def)
  have "orderly (rabbit_env t u f)" for t u f by (simp add: orderly_def rabbit_env_def)
  then show "orderly (dv_first demo_delivery)" "orderly (dv_second demo_delivery)" "task_orderly (dv_task demo_delivery)"
    by (simp_all add: demo_delivery_def task_orderly_def)
  show "queue_backend (api_cfg (rpc_api (rt_fail (dv_task demo_delivery)))) = Rabbitmq"
    "api_uuid (rpc_api (rt_fail (dv_task demo_delivery))) \<noteq> demo_uuid CHR ''2''"
    by (simp_all add: demo_delivery_def rabbit_env_def demo_cfg_def demo_uuid_def)
qed

theorem settled_deliveries_are_spent_witness:
  "case process_delivery (\<lambda>_ _ _ _. 0) demo_delivery (demo_uuid CHR ''1'', demo_uuid CHR ''2'') (sdb admitted_sys) of
     (out, d') \<Rightarrow> out = Some WSettled \<and> message_spent (demo_uuid CHR ''1'') (demo_uuid CHR ''2'') d'"
proof -
  obtain out d' where p: "process_delivery (\<lambda>_ _ _ _. 0) demo_delivery (demo_uuid CHR ''1'', demo_uuid CHR ''2'')
      (sdb admitted_sys) = (out, d')" by fastforce
  with demo_delivery_sound(1) have out: "out = Some WSettled" by simp
  from settled_deliveries_are_spent [OF p [unfolded out] demo_delivery_sound(2-7)] p out show ?thesis by simp
qed

end
