(* ===== verification/WorkerPool.thy ===== *)
theory WorkerPool
  imports Prelude
begin

text \<open>
  \<open>RemoteWorkerPool\<close> and the threads of its slots: the loop of \<open>RemoteWorker.run_forever\<close>, its
  availability reporter, and the signals, interleaved step by step. A step is what a thread
  does between two points where another may come between: reading the flags, taking the
  availability lock, one call to the coordinator, one entry under the pool's lock. A call made
  under the availability lock takes effect, if it does, while the lock is held. The marker
  files themselves can be written.
\<close>

section \<open>State\<close>

text \<open>
  Where a slot's own thread is. The flag of \<open>Marking\<close>, \<open>Parked\<close> and \<open>Unmarking\<close> only remembers
  whether the coordinator took the withdrawal before it.
\<close>

datatype phase =
  LoopTop | Clearing | Withdraw | Withdrawing | Marking bool | Parked bool | Unmarking bool | Resume
| Rereport | Rereporting | Announce | Register | Registering | StartReporter | Waiting
| Claiming | Working | Consuming | Backoff | Closing | FinalReport | FinalReporting | Closed

datatype reporter = NotStarted | Sleeping | Reporting | Reported | Announcing | Rewithdraw | Rewithdrawing | Ended

datatype holder = Unheld | MainHolds bool | ReporterHolds bool

text \<open>\<open>sl_listed\<close> is what the coordinator last recorded of the slot; \<open>sl_busy\<close>: a task is in process.\<close>

record slot_state =
  sl_phase :: phase
  sl_reporter :: reporter
  sl_lock :: holder
  sl_available :: bool
  sl_drained :: bool
  sl_admitted :: bool
  sl_connected :: bool
  sl_busy :: bool
  sl_listed :: bool

record pool =
  pl_stop :: bool
  pl_drain :: bool
  pl_ready :: "nat set"
  pl_drained :: "nat set"
  pl_marker :: bool
  pl_healthy :: bool
  pl_slots :: "slot_state list"

definition fresh_slot :: slot_state where
  "fresh_slot = \<lparr>sl_phase = LoopTop, sl_reporter = NotStarted, sl_lock = Unheld, sl_available = False, sl_drained = False,
     sl_admitted = False, sl_connected = False, sl_busy = False, sl_listed = False\<rparr>"

text \<open>\<open>RemoteWorkerPool.__init__\<close>, after \<open>main\<close> has removed both files.\<close>

definition fresh_pool :: "nat \<Rightarrow> pool" where
  "fresh_pool n = \<lparr>pl_stop = False, pl_drain = False, pl_ready = {}, pl_drained = {}, pl_marker = False,
     pl_healthy = False, pl_slots = replicate n fresh_slot\<rparr>"

abbreviation on_slot :: "nat \<Rightarrow> (slot_state \<Rightarrow> slot_state) \<Rightarrow> pool \<Rightarrow> pool" where
  "on_slot i f p \<equiv> p\<lparr>pl_slots := (pl_slots p)[i := f (pl_slots p ! i)]\<rparr>"

text \<open>\<open>health\<close> and \<open>mark_drained\<close>\<close>

definition pool_health :: "nat \<Rightarrow> bool \<Rightarrow> pool \<Rightarrow> pool" where
  "pool_health i ready p = (let rs = (if ready then insert i (pl_ready p) else pl_ready p - {i}) in
     p\<lparr>pl_ready := rs, pl_healthy := (card rs = length (pl_slots p) \<and> \<not> pl_stop p \<and> \<not> pl_drain p)\<rparr>)"

definition mark_drained :: "nat \<Rightarrow> bool \<Rightarrow> pool \<Rightarrow> pool" where
  "mark_drained i drained p = (let ds = (if drained then insert i (pl_drained p) else pl_drained p - {i}) in
     p\<lparr>pl_drained := ds, pl_marker := (card ds = length (pl_slots p) \<and> pl_drain p)\<rparr>)"

section \<open>Reports\<close>

text \<open>
  \<open>_report_availability\<close>, in two steps: under the lock it decides what to report, and the call
  ends in one of three ways: the coordinator did not take the report, took it without the
  worker learning so (or the consumer's registration failed), or took it, admitting the
  consumer or not.
\<close>

datatype report_end = NotTaken | TakenOnly | TakenFully bool

definition decided :: "bool \<Rightarrow> nat \<Rightarrow> pool \<Rightarrow> bool" where
  "decided wanted i p \<longleftrightarrow> wanted \<and> \<not> sl_drained (pl_slots p ! i) \<and> \<not> pl_stop p"

definition report_ok :: "report_end \<Rightarrow> bool" where
  "report_ok e \<longleftrightarrow> (case e of TakenFully _ \<Rightarrow> True | _ \<Rightarrow> False)"

definition reported_slot :: "bool \<Rightarrow> bool \<Rightarrow> report_end \<Rightarrow> slot_state \<Rightarrow> slot_state" where
  "reported_slot broker ready e s = (case e of
     NotTaken \<Rightarrow> s\<lparr>sl_lock := Unheld\<rparr>
   | TakenOnly \<Rightarrow> s\<lparr>sl_lock := Unheld, sl_listed := ready\<rparr>
   | TakenFully adm \<Rightarrow> s\<lparr>sl_lock := Unheld, sl_listed := ready,
       sl_admitted := (if ready \<and> broker then adm else sl_admitted s)\<rparr>)"

definition finish_report :: "bool \<Rightarrow> nat \<Rightarrow> bool \<Rightarrow> report_end \<Rightarrow> pool \<Rightarrow> pool" where
  "finish_report broker i ready e p = (let
     s = reported_slot broker ready e (pl_slots p ! i);
     p' = p\<lparr>pl_slots := (pl_slots p)[i := s]\<rparr> in
     if report_ok e then pool_health i (ready \<and> (\<not> broker \<or> sl_connected s \<and> sl_admitted s)) p' else p')"

lemma reported_slot_simps [simp]:
  "sl_phase (reported_slot broker ready e s) = sl_phase s"
  "sl_reporter (reported_slot broker ready e s) = sl_reporter s"
  "sl_drained (reported_slot broker ready e s) = sl_drained s"
  "sl_busy (reported_slot broker ready e s) = sl_busy s"
  "sl_connected (reported_slot broker ready e s) = sl_connected s"
  "sl_lock (reported_slot broker ready e s) = Unheld"
  "sl_listed (reported_slot broker ready e s) = (if e = NotTaken then sl_listed s else ready)"
  by (auto simp: reported_slot_def split: report_end.splits)

section \<open>The loop of a slot\<close>

text \<open>What the outside decides at a step: the end of a report, of the claim, of a task or of the consumer.\<close>

datatype choice = Plain | ReportEnds report_end | GotJob | NoJob | CallFailed | Connected | TaskStarts | TaskEnds | ConsumerEnds

definition goto :: "nat \<Rightarrow> phase \<Rightarrow> pool \<Rightarrow> pool" where
  "goto i ph p = on_slot i (sl_phase_update (\<lambda>_. ph)) p"

definition take_lock :: "nat \<Rightarrow> bool \<Rightarrow> phase \<Rightarrow> pool \<Rightarrow> pool option" where
  "take_lock i wanted ph p = (if sl_lock (pl_slots p ! i) \<noteq> Unheld then None
     else Some (goto i ph (on_slot i (sl_lock_update (\<lambda>_. MainHolds (decided wanted i p))) p)))"

text \<open>The end of a report by the slot's own thread: \<open>k\<close> and \<open>bad\<close> say where the code goes on.\<close>

fun main_reported :: "bool \<Rightarrow> nat \<Rightarrow> choice \<Rightarrow> phase \<Rightarrow> phase \<Rightarrow> pool \<Rightarrow> pool option" where
  "main_reported broker i (ReportEnds e) k bad p = (case sl_lock (pl_slots p ! i) of
     MainHolds ready \<Rightarrow> Some (goto i (if report_ok e then k else bad) (finish_report broker i ready e p))
   | _ \<Rightarrow> None)"
| "main_reported _ _ _ _ _ _ = None"

definition after_drain :: "slot_state \<Rightarrow> phase" where
  "after_drain s = (if sl_reporter s = NotStarted then Register else Waiting)"

text \<open>A withdrawal that fails in any way also clears the health of the slot; the thread goes on.\<close>

fun withdrawal_ends :: "bool \<Rightarrow> nat \<Rightarrow> choice \<Rightarrow> pool \<Rightarrow> pool option" where
  "withdrawal_ends broker i (ReportEnds e) p = (case sl_lock (pl_slots p ! i) of
     MainHolds ready \<Rightarrow> (let p' = goto i (Marking (e \<noteq> NotTaken)) (finish_report broker i ready e p) in
       Some (if report_ok e then p' else pool_health i False p'))
   | _ \<Rightarrow> None)"
| "withdrawal_ends _ _ _ _ = None"

text \<open>\<open>consume_slot\<close> as the slot sees it: what it does to the flags, theory Consumer has the rest.\<close>

definition consuming :: "nat \<Rightarrow> choice \<Rightarrow> pool \<Rightarrow> pool option" where
  "consuming i c p = (let s = pl_slots p ! i in
     if c = CallFailed \<and> \<not> sl_connected s then Some (goto i Backoff p)
     else if c = Connected \<and> \<not> sl_connected s then Some (pool_health i True (on_slot i (sl_connected_update (\<lambda>_. True)) p))
     else if c = TaskStarts \<and> sl_connected s \<and> \<not> sl_busy s \<and> \<not> pl_stop p \<and> \<not> pl_drain p \<and> sl_available s \<and> sl_admitted s
       then Some (on_slot i (sl_busy_update (\<lambda>_. True)) p)
     else if c = ConsumerEnds \<and> (\<not> sl_busy s \<or> pl_stop p)
       then Some (pool_health i False (goto i LoopTop (on_slot i (sl_connected_update (\<lambda>_. False)) p)))
     else None)"

fun main_step :: "bool \<Rightarrow> nat \<Rightarrow> choice \<Rightarrow> phase \<Rightarrow> pool \<Rightarrow> pool option" where
  "main_step broker i c LoopTop p = Some (
     if pl_stop p then goto i Closing p
     else if pl_drain p then goto i Clearing (on_slot i (sl_drained_update (\<lambda>_. True)) p)
     else goto i (after_drain (pl_slots p ! i)) p)"
| "main_step broker i c Clearing p = Some (goto i Withdraw (on_slot i (sl_available_update (\<lambda>_. False)) p))"
| "main_step broker i c Withdraw p = take_lock i False Withdrawing p"
| "main_step broker i c Withdrawing p = withdrawal_ends broker i c p"
| "main_step broker i c (Marking w) p = Some (goto i (Parked w) (mark_drained i True p))"
| "main_step broker i c (Parked w) p = (if \<not> pl_drain p \<or> pl_stop p then Some (goto i (Unmarking w) p) else None)"
| "main_step broker i c (Unmarking w) p = Some (goto i Resume (mark_drained i False p))"
| "main_step broker i c Resume p = Some (
     goto i (if pl_stop p then Closing else Rereport) (on_slot i (sl_drained_update (\<lambda>_. False)) p))"
| "main_step broker i c Rereport p = take_lock i True Rereporting p"
| "main_step broker i c Rereporting p = main_reported broker i c Announce Backoff p"
| "main_step broker i c Announce p = Some (
     goto i (after_drain (pl_slots p ! i)) (on_slot i (sl_available_update (\<lambda>_. True)) p))"
| "main_step broker i c Register p = take_lock i True Registering p"
| "main_step broker i c Registering p = main_reported broker i c StartReporter Backoff p"
| "main_step broker i c StartReporter p = Some (
     goto i Waiting (on_slot i (sl_available_update (\<lambda>_. True) \<circ> sl_reporter_update (\<lambda>_. Sleeping)) p))"
| "main_step broker i c Waiting p = (let s = pl_slots p ! i in Some (
     if \<not> sl_available s then goto i LoopTop p
     else if pl_stop p then goto i Closing p
     else if pl_drain p then goto i LoopTop p
     else if \<not> broker then goto i Claiming p
     else if \<not> sl_admitted s then goto i LoopTop p
     else goto i Consuming p))"
| "main_step broker i c Claiming p = (case c of
     GotJob \<Rightarrow> Some (goto i Working (on_slot i (sl_busy_update (\<lambda>_. True)) p))
   | NoJob \<Rightarrow> Some (goto i LoopTop p)
   | CallFailed \<Rightarrow> Some (goto i Backoff p)
   | _ \<Rightarrow> None)"
| "main_step broker i c Working p =
     (if c = TaskEnds then Some (goto i LoopTop (on_slot i (sl_busy_update (\<lambda>_. False)) p)) else None)"
| "main_step broker i c Consuming p = consuming i c p"
| "main_step broker i c Backoff p = Some (goto i LoopTop p)"
| "main_step broker i c Closing p = (let p' = pool_health i False (p\<lparr>pl_stop := True\<rparr>) in
     Some (goto i (if sl_reporter (pl_slots p ! i) = NotStarted then Closed else FinalReport) p'))"
| "main_step broker i c FinalReport p = take_lock i False FinalReporting p"
| "main_step broker i c FinalReporting p = main_reported broker i c Closed Closed p"
| "main_step broker i c Closed p = None"

section \<open>The reporter\<close>

text \<open>\<open>_report_availability_loop\<close>; any error there withdraws the slot locally.\<close>

definition reporter_failed :: "nat \<Rightarrow> pool \<Rightarrow> pool" where
  "reporter_failed i p = pool_health i False (on_slot i (sl_available_update (\<lambda>_. False)) p)"

definition rgoto :: "nat \<Rightarrow> reporter \<Rightarrow> pool \<Rightarrow> pool" where
  "rgoto i r p = on_slot i (sl_reporter_update (\<lambda>_. r)) p"

definition reporter_takes :: "nat \<Rightarrow> bool \<Rightarrow> reporter \<Rightarrow> pool \<Rightarrow> pool option" where
  "reporter_takes i wanted r p = (if sl_lock (pl_slots p ! i) \<noteq> Unheld then None
     else Some (rgoto i r (on_slot i (sl_lock_update (\<lambda>_. ReporterHolds (decided wanted i p))) p)))"

fun reporter_ends :: "bool \<Rightarrow> nat \<Rightarrow> choice \<Rightarrow> reporter \<Rightarrow> pool \<Rightarrow> pool option" where
  "reporter_ends broker i (ReportEnds e) k p = (case sl_lock (pl_slots p ! i) of
     ReporterHolds ready \<Rightarrow> (let p' = finish_report broker i ready e p in
       Some (if report_ok e then rgoto i k p' else reporter_failed i (rgoto i Sleeping p')))
   | _ \<Rightarrow> None)"
| "reporter_ends _ _ _ _ _ = None"

fun reporter_step :: "bool \<Rightarrow> nat \<Rightarrow> choice \<Rightarrow> reporter \<Rightarrow> pool \<Rightarrow> pool option" where
  "reporter_step broker i c NotStarted p = None"
| "reporter_step broker i c Sleeping p =
     (if pl_stop p then Some (rgoto i Ended p)
      else if sl_drained (pl_slots p ! i) then None
      else reporter_takes i True Reporting p)"
| "reporter_step broker i c Reporting p = reporter_ends broker i c Reported p"
| "reporter_step broker i c Reported p =
     Some (rgoto i (if sl_drained (pl_slots p ! i) then Rewithdraw else Announcing) p)"
| "reporter_step broker i c Announcing p = Some (rgoto i Sleeping (on_slot i (sl_available_update (\<lambda>_. True)) p))"
| "reporter_step broker i c Rewithdraw p = reporter_takes i False Rewithdrawing p"
| "reporter_step broker i c Rewithdrawing p = reporter_ends broker i c Sleeping p"
| "reporter_step broker i c Ended p = None"

section \<open>The pool\<close>

text \<open>
  \<open>TaskDone\<close>: the task of a consumer ends, beside it or, after a stop, when it has left. The pool's own
  thread sets \<open>stop\<close> when a slot's thread has ended, and after a stop removes both files.
\<close>

datatype pool_event =
  MainStep nat choice | ReporterStep nat choice | TaskDone nat
| DrainSignal | ResumeSignal | StopSignal | SlotDied nat | PoolEnds

fun pool_act :: "bool \<Rightarrow> pool_event \<Rightarrow> pool \<Rightarrow> pool option" where
  "pool_act broker (MainStep i c) p =
     (if i < length (pl_slots p) then main_step broker i c (sl_phase (pl_slots p ! i)) p else None)"
| "pool_act broker (ReporterStep i c) p =
     (if i < length (pl_slots p) then reporter_step broker i c (sl_reporter (pl_slots p ! i)) p else None)"
| "pool_act broker (TaskDone i) p =
     (if i < length (pl_slots p) \<and> sl_phase (pl_slots p ! i) \<noteq> Working then Some (on_slot i (sl_busy_update (\<lambda>_. False)) p) else None)"
| "pool_act broker DrainSignal p = Some (p\<lparr>pl_drain := True\<rparr>)"
| "pool_act broker ResumeSignal p = Some (p\<lparr>pl_drain := False\<rparr>)"
| "pool_act broker StopSignal p = Some (p\<lparr>pl_stop := True\<rparr>)"
| "pool_act broker (SlotDied i) p =
     (if i < length (pl_slots p) \<and> sl_phase (pl_slots p ! i) = Closed then Some (p\<lparr>pl_stop := True\<rparr>) else None)"
| "pool_act broker PoolEnds p = (if pl_stop p then Some (p\<lparr>pl_healthy := False, pl_marker := False\<rparr>) else None)"

definition pool_step :: "bool \<Rightarrow> pool \<Rightarrow> pool \<Rightarrow> bool" where
  "pool_step broker p q \<longleftrightarrow> (\<exists>e. pool_act broker e p = Some q)"

definition run_pool :: "bool \<Rightarrow> pool_event list \<Rightarrow> pool \<Rightarrow> pool option" where
  "run_pool broker es p = fold (\<lambda>e r. Option.bind r (pool_act broker e)) es (Some p)"

lemma run_pool_None: "fold (\<lambda>e r. Option.bind r (pool_act broker e)) es None = None"
  by (induction es) auto

lemma run_pool_steps: "run_pool broker es p = Some q \<Longrightarrow> (pool_step broker)\<^sup>*\<^sup>* p q"
proof (induction es arbitrary: p)
  case (Cons e es)
  then obtain r where "pool_act broker e p = Some r" "run_pool broker es r = Some q"
    by (cases "pool_act broker e p") (auto simp: run_pool_def run_pool_None)
  with Cons.IH show ?case by (meson converse_rtranclp_into_rtranclp pool_step_def)
qed (simp add: run_pool_def)

section \<open>The marker\<close>

definition is_parked :: "phase \<Rightarrow> bool" where
  "is_parked ph \<longleftrightarrow> (case ph of Parked _ \<Rightarrow> True | Unmarking _ \<Rightarrow> True | _ \<Rightarrow> False)"

definition is_draining :: "phase \<Rightarrow> bool" where
  "is_draining ph \<longleftrightarrow> is_parked ph \<or> (case ph of Marking _ \<Rightarrow> True | _ \<Rightarrow> ph \<in> {Clearing, Withdraw, Withdrawing, Resume})"

text \<open>The withdrawal before the park was taken by the coordinator.\<close>

definition was_withdrawn :: "phase \<Rightarrow> bool" where
  "was_withdrawn ph \<longleftrightarrow> (case ph of Marking w \<Rightarrow> w | Parked w \<Rightarrow> w | Unmarking w \<Rightarrow> w | _ \<Rightarrow> False)"

definition main_reports :: "phase \<Rightarrow> bool" where
  "main_reports ph \<longleftrightarrow> ph \<in> {Withdrawing, Rereporting, Registering, FinalReporting}"

definition before_reporter :: "phase \<Rightarrow> bool" where
  "before_reporter ph \<longleftrightarrow> ph \<in> {Register, Registering, StartReporter}"

definition reporter_reports :: "reporter \<Rightarrow> bool" where
  "reporter_reports r \<longleftrightarrow> r \<in> {Reporting, Rewithdrawing}"

fun main_holds :: "holder \<Rightarrow> bool" where
  "main_holds (MainHolds b) = True"
| "main_holds _ = False"

fun reporter_holds :: "holder \<Rightarrow> bool" where
  "reporter_holds (ReporterHolds b) = True"
| "reporter_holds _ = False"

definition slot_ok :: "bool \<Rightarrow> bool \<Rightarrow> slot_state \<Rightarrow> bool" where
  "slot_ok stop marked s \<longleftrightarrow>
     (marked \<longleftrightarrow> is_parked (sl_phase s)) \<and>
     (sl_drained s \<longleftrightarrow> is_draining (sl_phase s)) \<and>
     (main_reports (sl_phase s) \<longleftrightarrow> main_holds (sl_lock s)) \<and>
     (sl_phase s = Withdrawing \<longrightarrow> sl_lock s = MainHolds False) \<and>
     (reporter_reports (sl_reporter s) \<longleftrightarrow> reporter_holds (sl_lock s)) \<and>
     (sl_busy s \<longrightarrow> sl_phase s \<in> {Working, Consuming} \<or> stop) \<and>
     (sl_busy s \<and> sl_phase s = Consuming \<longrightarrow> sl_connected s \<or> stop) \<and>
     (before_reporter (sl_phase s) \<longrightarrow> sl_reporter s = NotStarted) \<and>
     (was_withdrawn (sl_phase s) \<longrightarrow> \<not> sl_listed s \<and> sl_lock s \<noteq> ReporterHolds True)"

definition pool_ok :: "nat \<Rightarrow> pool \<Rightarrow> bool" where
  "pool_ok n p \<longleftrightarrow> length (pl_slots p) = n \<and> pl_drained p \<subseteq> {..<n} \<and> pl_ready p \<subseteq> {..<n} \<and>
     (pl_marker p \<longrightarrow> pl_drained p = {..<n}) \<and> (pl_healthy p \<longrightarrow> pl_ready p = {..<n}) \<and>
     (\<forall>i<n. slot_ok (pl_stop p) (i \<in> pl_drained p) (pl_slots p ! i))"

lemmas phase_defs = is_parked_def is_draining_def was_withdrawn_def main_reports_def before_reporter_def reporter_reports_def

lemma slot_ok_stop: "slot_ok stop m s \<Longrightarrow> (stop \<longrightarrow> stop') \<Longrightarrow> slot_ok stop' m s"
  by (cases stop; cases stop'; simp add: slot_ok_def)

lemma pool_okD: "pool_ok n p \<Longrightarrow> i < n \<Longrightarrow> slot_ok (pl_stop p) (i \<in> pl_drained p) (pl_slots p ! i)"
  by (simp add: pool_ok_def)

lemma full_card: "A \<subseteq> {..<n} \<Longrightarrow> card A = n \<Longrightarrow> A = {..<(n::nat)}"
  by (rule card_subset_eq) simp_all

lemma pool_ok_on_slot:
  assumes "pool_ok n p" and "i < n" and "slot_ok (pl_stop p) (i \<in> pl_drained p) (f (pl_slots p ! i))"
  shows "pool_ok n (on_slot i f p)"
  using assms by (auto simp: pool_ok_def nth_list_update)

lemma pool_ok_health: "pool_ok n p \<Longrightarrow> i < n \<Longrightarrow> pool_ok n (pool_health i r p)"
  by (auto simp: pool_ok_def pool_health_def Let_def dest: full_card [rotated])

lemma pool_ok_mark:
  assumes "pool_ok n p" and "i < n" and "slot_ok (pl_stop p) b (f (pl_slots p ! i))"
  shows "pool_ok n (on_slot i f (mark_drained i b p))"
proof -
  let ?ds = "if b then insert i (pl_drained p) else pl_drained p - {i}"
  from assms(1,2) have ds: "?ds \<subseteq> {..<n}" and len: "length (pl_slots p) = n" by (auto simp: pool_ok_def)
  have slots: "slot_ok (pl_stop p) (j \<in> ?ds) ((pl_slots p)[i := f (pl_slots p ! i)] ! j)" if "j < n" for j
    using assms(3) that len pool_okD [OF assms(1) that] by (cases b; cases "j = i") simp_all
  from full_card [OF ds] slots ds len assms(1) show ?thesis
    by (simp add: pool_ok_def mark_drained_def Let_def)
qed

lemma pool_ok_flags: "pool_ok n p \<Longrightarrow> pool_ok n (p\<lparr>pl_drain := d\<rparr>) \<and> pool_ok n (p\<lparr>pl_stop := True\<rparr>)"
  by (auto simp: pool_ok_def intro: slot_ok_stop)

lemma goto_health: "on_slot i f (pool_health i r p) = pool_health i r (on_slot i f p)"
  by (simp add: pool_health_def Let_def)

lemma on_slot_twice: "i < length (pl_slots p) \<Longrightarrow> on_slot i f (on_slot i g p) = on_slot i (f \<circ> g) p"
  by simp

text \<open>A report of the slot's thread or of its reporter, and where the code goes then.\<close>

lemma pool_ok_report:
  assumes "pool_ok n p" and "i < n"
    and "slot_ok (pl_stop p) (i \<in> pl_drained p) (f (reported_slot broker ready e (pl_slots p ! i)))"
  shows "pool_ok n (on_slot i f (finish_report broker i ready e p))"
proof -
  have i: "i < length (pl_slots p)" using assms(1,2) by (simp add: pool_ok_def)
  have on: "pool_ok n (on_slot i (f \<circ> reported_slot broker ready e) p)"
    by (rule pool_ok_on_slot [OF assms(1,2)]) (simp add: assms(3))
  then show ?thesis
    using pool_ok_health [OF on assms(2)] i by (simp add: finish_report_def Let_def goto_health)
qed

lemma take_lock_ok:
  assumes "pool_ok n p" and "i < n" and "take_lock i wanted ph p = Some q"
    and "\<And>b. slot_ok (pl_stop p) (i \<in> pl_drained p)
          ((pl_slots p ! i)\<lparr>sl_lock := MainHolds (wanted \<and> b), sl_phase := ph\<rparr>)"
  shows "pool_ok n q"
proof -
  let ?b = "\<not> sl_drained (pl_slots p ! i) \<and> \<not> pl_stop p"
  let ?g = "\<lambda>s. s\<lparr>sl_lock := MainHolds (wanted \<and> ?b), sl_phase := ph\<rparr>"
  have i: "i < length (pl_slots p)" using assms(1,2) by (simp add: pool_ok_def)
  have "q = on_slot i ?g p" using assms(3) i by (auto simp: take_lock_def goto_def decided_def split: if_splits)
  with pool_ok_on_slot [OF assms(1,2), of ?g, OF assms(4)] show ?thesis by simp
qed

lemma main_reported_ok:
  assumes "pool_ok n p" and "i < n" and "main_reported broker i c k bad p = Some q"
    and "\<And>ready e. sl_lock (pl_slots p ! i) = MainHolds ready \<Longrightarrow>
      slot_ok (pl_stop p) (i \<in> pl_drained p)
        ((reported_slot broker ready e (pl_slots p ! i))\<lparr>sl_phase := if report_ok e then k else bad\<rparr>)"
  shows "pool_ok n q"
proof (cases c)
  case (ReportEnds e)
  with assms(3) obtain ready where "sl_lock (pl_slots p ! i) = MainHolds ready"
    "q = goto i (if report_ok e then k else bad) (finish_report broker i ready e p)"
    by (auto split: holder.splits)
  with pool_ok_report [OF assms(1,2), of "sl_phase_update (\<lambda>_. if report_ok e then k else bad)"] assms(4)
  show ?thesis by (simp add: goto_def)
qed (use assms(3) in auto)

lemma withdrawal_ok:
  assumes "pool_ok n p" and "i < n" and "withdrawal_ends broker i c p = Some q" and "sl_phase (pl_slots p ! i) = Withdrawing"
  shows "pool_ok n q"
proof (cases c)
  case (ReportEnds e)
  note s = pool_okD [OF assms(1,2)]
  from assms(4) s have lock: "sl_lock (pl_slots p ! i) = MainHolds False" by (simp add: slot_ok_def)
  with assms(3) ReportEnds have q:
    "q = (let p' = goto i (Marking (e \<noteq> NotTaken)) (finish_report broker i False e p) in
       if report_ok e then p' else pool_health i False p')"
    by (simp add: Let_def)
  have "pool_ok n (goto i (Marking (e \<noteq> NotTaken)) (finish_report broker i False e p))"
    unfolding goto_def by (rule pool_ok_report [OF assms(1,2)])
      (use s assms(4) lock in \<open>auto simp: slot_ok_def phase_defs\<close>)
  with q pool_ok_health [OF _ assms(2)] show ?thesis by (simp add: Let_def)
qed (use assms(3) in auto)

text \<open>A step that changes the slot, and perhaps its health.\<close>

lemma pool_ok_upd:
  assumes "pool_ok n p" and "i < n" and "slot_ok (pl_stop p) (i \<in> pl_drained p) s"
  shows "pool_ok n (p\<lparr>pl_slots := (pl_slots p)[i := s]\<rparr>)"
    and "pool_ok n (pool_health i r (p\<lparr>pl_slots := (pl_slots p)[i := s]\<rparr>))"
  using pool_ok_on_slot [OF assms(1,2), of "\<lambda>_. s"] pool_ok_health [OF _ assms(2)] assms(3) by simp_all

lemma consuming_ok:
  assumes "pool_ok n p" and "i < n" and "consuming i c p = Some q" and "sl_phase (pl_slots p ! i) = Consuming"
  shows "pool_ok n q"
proof -
  have i: "i < length (pl_slots p)" using assms(1,2) by (simp add: pool_ok_def)
  note s = pool_okD [OF assms(1,2)]
  note upd = pool_ok_upd [OF assms(1,2)]
  from assms(3) consider
      "\<not> sl_connected (pl_slots p ! i)" "q = goto i Backoff p"
    | "q = pool_health i True (on_slot i (sl_connected_update (\<lambda>_. True)) p)"
    | "sl_connected (pl_slots p ! i)" "q = on_slot i (sl_busy_update (\<lambda>_. True)) p"
    | "\<not> sl_busy (pl_slots p ! i) \<or> pl_stop p" "q = pool_health i False (goto i LoopTop (on_slot i (sl_connected_update (\<lambda>_. False)) p))"
    by (auto simp: consuming_def Let_def split: if_splits)
  then show ?thesis
  proof cases
    case 1
    then show ?thesis using s assms(4) by (auto simp: goto_def slot_ok_def phase_defs intro!: upd)
  next
    case 2
    then show ?thesis using s assms(4) by (auto simp: slot_ok_def phase_defs intro!: upd)
  next
    case 3
    then show ?thesis using s assms(4) by (auto simp: slot_ok_def phase_defs intro!: upd)
  next
    case 4
    then show ?thesis using s assms(4) i by (auto simp: goto_def slot_ok_def phase_defs intro!: upd)
  qed
qed

lemma main_step_ok:
  assumes ok: "pool_ok n p" and i: "i < n" and step: "main_step broker i c (sl_phase (pl_slots p ! i)) p = Some q"
  shows "pool_ok n q"
proof -
  have len: "i < length (pl_slots p)" using ok i by (simp add: pool_ok_def)
  note s = pool_okD [OF ok i] and upd = pool_ok_upd [OF ok i] and lock = take_lock_ok [OF ok i]
    and rep = main_reported_ok [OF ok i]
  note d = slot_ok_def phase_defs goto_def after_drain_def
  show ?thesis
  proof (cases "sl_phase (pl_slots p ! i)")
    case LoopTop
    with step s len show ?thesis by (auto simp: d split: if_splits intro!: upd)
  next
    case Clearing
    with step s len show ?thesis by (auto simp: d intro!: upd)
  next
    case Withdraw
    with step have "take_lock i False Withdrawing p = Some q" by simp
    then show ?thesis by (rule lock) (use s Withdraw step in \<open>auto simp: d take_lock_def split: if_splits\<close>)
  next
    case Withdrawing
    with step withdrawal_ok [OF ok i] show ?thesis by simp
  next
    case (Marking w)
    with step have "q = on_slot i (sl_phase_update (\<lambda>_. Parked w)) (mark_drained i True p)" by (simp add: goto_def)
    with pool_ok_mark [OF ok i, of True "sl_phase_update (\<lambda>_. Parked w)"] s Marking show ?thesis by (simp add: d)
  next
    case (Parked w)
    with step s len show ?thesis by (auto simp: d split: if_splits intro!: upd)
  next
    case (Unmarking w)
    with step have "q = on_slot i (sl_phase_update (\<lambda>_. Resume)) (mark_drained i False p)" by (simp add: goto_def)
    with pool_ok_mark [OF ok i, of False "sl_phase_update (\<lambda>_. Resume)"] s Unmarking show ?thesis by (simp add: d)
  next
    case Resume
    with step s len show ?thesis by (auto simp: d split: if_splits intro!: upd)
  next
    case Rereport
    with step have "take_lock i True Rereporting p = Some q" by simp
    then show ?thesis by (rule lock) (use s Rereport step in \<open>auto simp: d take_lock_def split: if_splits\<close>)
  next
    case Rereporting
    with step have "main_reported broker i c Announce Backoff p = Some q" by simp
    then show ?thesis by (rule rep) (use s Rereporting in \<open>auto simp: d\<close>)
  next
    case Announce
    with step s len show ?thesis
      by (cases "sl_reporter (pl_slots p ! i) = NotStarted") (auto simp: d intro!: upd)
  next
    case Register
    with step have "take_lock i True Registering p = Some q" by simp
    then show ?thesis by (rule lock) (use s Register step in \<open>auto simp: d take_lock_def split: if_splits\<close>)
  next
    case Registering
    with step have "main_reported broker i c StartReporter Backoff p = Some q" by simp
    then show ?thesis by (rule rep) (use s Registering in \<open>auto simp: d\<close>)
  next
    case StartReporter
    with step s len show ?thesis by (auto simp: d intro!: upd)
  next
    case Waiting
    with step s len show ?thesis by (auto simp: d Let_def split: if_splits intro!: upd)
  next
    case Claiming
    with step s len show ?thesis by (auto simp: d split: choice.splits intro!: upd)
  next
    case Working
    with step s len show ?thesis by (auto simp: d split: if_splits intro!: upd)
  next
    case Consuming
    with step consuming_ok [OF ok i] show ?thesis by simp
  next
    case Backoff
    with step s len show ?thesis by (auto simp: d intro!: upd)
  next
    case Closing
    have ok': "pool_ok n (p\<lparr>pl_stop := True\<rparr>)" using pool_ok_flags [OF ok] by blast
    from Closing step have "q = goto i (if sl_reporter (pl_slots p ! i) = NotStarted then Closed else FinalReport)
        (pool_health i False (p\<lparr>pl_stop := True\<rparr>))" by (simp add: Let_def)
    then have "q = pool_health i False (on_slot i (sl_phase_update
        (\<lambda>_. if sl_reporter (pl_slots p ! i) = NotStarted then Closed else FinalReport)) (p\<lparr>pl_stop := True\<rparr>))"
      by (simp only: goto_def goto_health)
    with pool_ok_upd(2) [OF ok' i] s Closing show ?thesis by (auto simp: d)
  next
    case FinalReport
    with step have "take_lock i False FinalReporting p = Some q" by simp
    then show ?thesis by (rule lock) (use s FinalReport step in \<open>auto simp: d take_lock_def split: if_splits\<close>)
  next
    case FinalReporting
    with step have "main_reported broker i c Closed Closed p = Some q" by simp
    then show ?thesis by (rule rep) (use s FinalReporting in \<open>auto simp: d\<close>)
  qed (use step in simp)
qed

lemma reporter_takes_ok:
  assumes "pool_ok n p" and "i < n" and "reporter_takes i wanted r p = Some q" and "reporter_reports r"
    and "sl_reporter (pl_slots p ! i) \<noteq> NotStarted"
  shows "pool_ok n q"
proof -
  have len: "i < length (pl_slots p)" using assms(1,2) by (simp add: pool_ok_def)
  note s = pool_okD [OF assms(1,2)]
  let ?s = "(pl_slots p ! i)\<lparr>sl_lock := ReporterHolds (decided wanted i p), sl_reporter := r\<rparr>"
  from assms(3) len have q: "sl_lock (pl_slots p ! i) = Unheld" "q = p\<lparr>pl_slots := (pl_slots p)[i := ?s]\<rparr>"
    by (auto simp: reporter_takes_def rgoto_def split: if_splits)
  have "is_draining (sl_phase (pl_slots p ! i))" if "was_withdrawn (sl_phase (pl_slots p ! i))"
    using that by (auto simp: phase_defs split: phase.splits)
  then have "was_withdrawn (sl_phase (pl_slots p ! i)) \<Longrightarrow> \<not> decided wanted i p"
    using s by (simp add: slot_ok_def decided_def)
  moreover have "\<not> before_reporter (sl_phase (pl_slots p ! i))" using s assms(5) by (simp add: slot_ok_def)
  ultimately have "slot_ok (pl_stop p) (i \<in> pl_drained p) ?s" using s q(1) assms(4)
    by (simp add: slot_ok_def reporter_reports_def)
  with pool_ok_upd(1) [OF assms(1,2)] q(2) show ?thesis by simp
qed

lemma reporter_ends_ok:
  assumes "pool_ok n p" and "i < n" and "reporter_ends broker i c k p = Some q"
    and "reporter_reports (sl_reporter (pl_slots p ! i))" and "k \<in> {Reported, Sleeping}"
  shows "pool_ok n q"
proof (cases c)
  case (ReportEnds e)
  note s = pool_okD [OF assms(1,2)]
  from assms(3) ReportEnds obtain ready where lock: "sl_lock (pl_slots p ! i) = ReporterHolds ready"
    and q: "q = (let p' = finish_report broker i ready e p in
      if report_ok e then rgoto i k p' else reporter_failed i (rgoto i Sleeping p'))"
    by (auto simp: Let_def split: holder.splits)
  have "sl_reporter (pl_slots p ! i) \<noteq> NotStarted" using assms(4) by (auto simp: reporter_reports_def)
  with s have nb: "\<not> before_reporter (sl_phase (pl_slots p ! i))" by (simp add: slot_ok_def)
  have slot: "slot_ok (pl_stop p) (i \<in> pl_drained p) (f (reported_slot broker ready e (pl_slots p ! i)))"
    if "f = sl_reporter_update (\<lambda>_. r) \<or> f = sl_available_update (\<lambda>_. False) \<circ> sl_reporter_update (\<lambda>_. r)"
      "r \<in> {Reported, Sleeping}" for f r
    using that(1)
  proof
    assume "f = sl_reporter_update (\<lambda>_. r)"
    with that(2) s assms(4) lock nb show ?thesis by (cases ready; cases r; simp add: slot_ok_def reporter_reports_def)
  next
    assume "f = sl_available_update (\<lambda>_. False) \<circ> sl_reporter_update (\<lambda>_. r)"
    with that(2) s assms(4) lock nb show ?thesis by (cases ready; cases r; simp add: slot_ok_def reporter_reports_def)
  qed
  have rep: "pool_ok n (on_slot i f (finish_report broker i ready e p))"
    if "f = sl_reporter_update (\<lambda>_. r) \<or> f = sl_available_update (\<lambda>_. False) \<circ> sl_reporter_update (\<lambda>_. r)"
      "r \<in> {Reported, Sleeping}" for f r
    using pool_ok_report [OF assms(1,2), of f broker ready e] slot [OF that] by blast
  show ?thesis
  proof (cases "report_ok e")
    case True
    with q rep [of "sl_reporter_update (\<lambda>_. k)" k] assms(5) show ?thesis by (simp add: Let_def rgoto_def)
  next
    case False
    have len: "i < length (pl_slots (finish_report broker i ready e p))"
      using assms(1,2) by (simp add: pool_ok_def finish_report_def Let_def pool_health_def)
    from False q rep [of "sl_available_update (\<lambda>_. False) \<circ> sl_reporter_update (\<lambda>_. Sleeping)" Sleeping]
      on_slot_twice [OF len] pool_ok_health [OF _ assms(2)] show ?thesis
      by (simp add: Let_def rgoto_def reporter_failed_def)
  qed
qed (use assms(3) in auto)

lemma reporter_step_ok:
  assumes ok: "pool_ok n p" and i: "i < n" and step: "reporter_step broker i c (sl_reporter (pl_slots p ! i)) p = Some q"
  shows "pool_ok n q"
proof -
  have len: "i < length (pl_slots p)" using ok i by (simp add: pool_ok_def)
  note s = pool_okD [OF ok i] and upd = pool_ok_upd [OF ok i]
  note d = slot_ok_def reporter_reports_def rgoto_def
  show ?thesis
  proof (cases "sl_reporter (pl_slots p ! i)")
    case Sleeping
    show ?thesis
    proof (cases "pl_stop p")
      case True
      with Sleeping step s len show ?thesis by (auto simp: d intro!: upd)
    next
      case False
      with Sleeping step have "reporter_takes i True Reporting p = Some q" by (simp split: if_splits)
      then show ?thesis by (rule reporter_takes_ok [OF ok i]) (use Sleeping in \<open>simp_all add: d\<close>)
    qed
  next
    case Reporting
    with step reporter_ends_ok [OF ok i, of broker c Reported] show ?thesis by (simp add: d)
  next
    case Reported
    let ?s = "(pl_slots p ! i)\<lparr>sl_reporter := if sl_drained (pl_slots p ! i) then Rewithdraw else Announcing\<rparr>"
    from s Reported have "slot_ok (pl_stop p) (i \<in> pl_drained p) ?s"
      by (cases "sl_drained (pl_slots p ! i)"; simp add: d)
    moreover have "q = p\<lparr>pl_slots := (pl_slots p)[i := ?s]\<rparr>" using Reported step by (simp add: rgoto_def)
    ultimately show ?thesis using upd(1) by simp
  next
    case Announcing
    let ?s = "(pl_slots p ! i)\<lparr>sl_available := True, sl_reporter := Sleeping\<rparr>"
    from s Announcing have "slot_ok (pl_stop p) (i \<in> pl_drained p) ?s" by (simp add: d)
    moreover have "q = p\<lparr>pl_slots := (pl_slots p)[i := ?s]\<rparr>" using Announcing step len by (simp add: rgoto_def)
    ultimately show ?thesis using upd(1) by simp
  next
    case Rewithdraw
    with step have "reporter_takes i False Rewithdrawing p = Some q" by simp
    then show ?thesis by (rule reporter_takes_ok [OF ok i]) (use Rewithdraw in \<open>simp_all add: d\<close>)
  next
    case Rewithdrawing
    with step reporter_ends_ok [OF ok i, of broker c Sleeping] show ?thesis by (simp add: d)
  qed (use step in simp_all)
qed

lemma pool_act_ok:
  assumes ok: "pool_ok n p" and step: "pool_act broker e p = Some q"
  shows "pool_ok n q"
proof (cases e)
  case (MainStep i c)
  with step ok main_step_ok [OF ok] show ?thesis by (auto simp: pool_ok_def split: if_splits)
next
  case (ReporterStep i c)
  with step ok reporter_step_ok [OF ok] show ?thesis by (auto simp: pool_ok_def split: if_splits)
next
  case (TaskDone i)
  with step ok have i: "i < n" "q = p\<lparr>pl_slots := (pl_slots p)[i := (pl_slots p ! i)\<lparr>sl_busy := False\<rparr>]\<rparr>"
    by (auto simp: pool_ok_def split: if_splits)
  have "slot_ok (pl_stop p) (i \<in> pl_drained p) ((pl_slots p ! i)\<lparr>sl_busy := False\<rparr>)"
    using pool_okD [OF ok i(1)] by (simp add: slot_ok_def)
  with pool_ok_upd(1) [OF ok i(1)] i(2) show ?thesis by simp
qed (use step ok pool_ok_flags [OF ok] in \<open>auto simp: pool_ok_def split: if_splits\<close>)

lemma fresh_pool_ok: "pool_ok n (fresh_pool n)"
  by (simp add: pool_ok_def fresh_pool_def fresh_slot_def slot_ok_def phase_defs)

interpretation pool: transition_invariant "\<lambda>p. p = fresh_pool n" "pool_step broker" "pool_ok n" for n broker
  by unfold_locales (auto simp: fresh_pool_ok pool_step_def intro: pool_act_ok)


text \<open>Two slots register; the first runs a task to its end while the other is already parked.\<close>

definition drain_run :: "pool_event list" where
  "drain_run = (let start = \<lambda>i. [MainStep i Plain, MainStep i Plain, MainStep i (ReportEnds (TakenFully False)), MainStep i Plain];
      park = \<lambda>i. [MainStep i Plain, MainStep i Plain, MainStep i Plain, MainStep i (ReportEnds (TakenFully False)), MainStep i Plain] in
    start 0 @ start 1 @ [MainStep 0 Plain, MainStep 0 GotJob, DrainSignal, MainStep 1 Plain] @ park 1 @
    [MainStep 0 TaskEnds] @ park 0)"


end
