(* ===== verification/Inference.thy ===== *)
theory Inference
  imports WorkerApi
begin

text \<open>
  \<open>whisper/inference.py\<close>: the set-up of the engine and one transcription, for the local and the
  remote worker. The model itself (faster-whisper) is what it yields: the duration and the
  segments; times are rational numbers.
\<close>

section \<open>Presets\<close>

text \<open>
  The built-in prompts are Russian sentences that nothing reads; they are named here. A request
  may bring its own.
\<close>

datatype prompt = VoicePrompt | LecturePrompt | MeetingPrompt | OwnPrompt string

record decode_params =
  dp_language :: string
  dp_beam_size :: int
  dp_temperature :: rat
  dp_vad_filter :: bool
  dp_min_silence_ms :: int
  dp_speech_pad_ms :: int
  dp_condition_on_previous :: bool
  dp_prompt :: prompt
  dp_repetition_penalty :: rat
  dp_hallucination_silence :: "rat option"
  dp_no_speech :: rat

definition voice_params :: decode_params where
  "voice_params = \<lparr>dp_language = ''ru'', dp_beam_size = 5, dp_temperature = 0, dp_vad_filter = True, dp_min_silence_ms = 500,
     dp_speech_pad_ms = 200, dp_condition_on_previous = True, dp_prompt = VoicePrompt, dp_repetition_penalty = 12 / 10,
     dp_hallucination_silence = None, dp_no_speech = 5 / 10\<rparr>"

definition lecture_params :: decode_params where
  "lecture_params = \<lparr>dp_language = ''ru'', dp_beam_size = 7, dp_temperature = 0, dp_vad_filter = True, dp_min_silence_ms = 500,
     dp_speech_pad_ms = 200, dp_condition_on_previous = True, dp_prompt = LecturePrompt, dp_repetition_penalty = 12 / 10,
     dp_hallucination_silence = Some 3, dp_no_speech = 5 / 10\<rparr>"

definition meeting_params :: decode_params where
  "meeting_params = \<lparr>dp_language = ''ru'', dp_beam_size = 5, dp_temperature = 0, dp_vad_filter = True, dp_min_silence_ms = 300,
     dp_speech_pad_ms = 150, dp_condition_on_previous = True, dp_prompt = MeetingPrompt, dp_repetition_penalty = 12 / 10,
     dp_hallucination_silence = None, dp_no_speech = 4 / 10\<rparr>"

definition presets :: "(string \<times> decode_params) list" where
  "presets = [(''auto'', voice_params), (''voice'', voice_params), (''lecture'', lecture_params), (''meeting'', meeting_params)]"

definition decode_options :: "string \<Rightarrow> string \<Rightarrow> string \<Rightarrow> decode_params" where
  "decode_options pres lang own = (let
     p = (case map_of presets pres of None \<Rightarrow> voice_params | Some p \<Rightarrow> p);
     p1 = (if lang \<noteq> [] then p\<lparr>dp_language := lang\<rparr> else p) in
     if own \<noteq> [] then p1\<lparr>dp_prompt := OwnPrompt own\<rparr> else p1)"

section \<open>Setting the engine up\<close>

record engine_config =
  en_model :: string
  en_device :: string
  en_compute :: string
  en_threads :: int
  en_workers :: int
  en_local_only :: bool

text \<open>\<open>str.lower\<close> on the code points of \<open>PyText\<close>, as far as it can yield ASCII.\<close>

definition lower_char :: "char \<Rightarrow> char" where
  "lower_char c = (if is_upper c then char_of ((of_char c :: nat) + 32) else c)"

definition engine_setup :: "int option \<Rightarrow> env \<Rightarrow> (config_error, engine_config) result" where
  "engine_setup wanted env = (let device = map lower_char (py_strip (getenv env ''WHISPER_DEVICE'' ''cpu'')) in
     guard_setting (device \<in> {''cpu'', ''cuda''}) ''WHISPER_DEVICE'' (
     res_bind (getenv_int env ''WHISPER_CPU_THREADS'' ''2'') (\<lambda>threads.
     guard_setting (1 \<le> threads) ''WHISPER_CPU_THREADS'' (
     res_bind (worker_concurrency (case wanted of Some n \<Rightarrow> py_str_int n | None \<Rightarrow> getenv env ''WORKER_CONCURRENCY'' ''1'')) (\<lambda>n.
     Inr \<lparr>en_model = getenv env ''WHISPER_MODEL'' ''small'', en_device = device,
       en_compute = getenv env ''WHISPER_COMPUTE_TYPE'' (if device = ''cpu'' then ''int8'' else ''float16''),
       en_threads = threads, en_workers = n,
       en_local_only = (getenv env ''WHISPER_LOCAL_FILES_ONLY'' ''0'' = ''1'')\<rparr>)))))"

section \<open>One transcription\<close>

text \<open>
  The segments the model yields, each with whether the task was to stop when it came. The
  result keeps the text of each segment and, for lectures, the segments; \<open>None\<close> is
  \<open>InferenceStopped\<close>. The progress reported on the way comes beside it.
\<close>

record model_segment =
  ms_start :: rat
  ms_end :: rat
  ms_text :: string

definition progress_of :: "rat \<Rightarrow> model_segment \<Rightarrow> rat" where
  "progress_of duration g = min (max (ms_end g / duration * 100) 0) 99"

fun decode_segments ::
  "bool \<Rightarrow> rat \<Rightarrow> bool \<Rightarrow> (bool \<times> model_segment) list \<Rightarrow> (string list \<times> model_segment list) option \<times> rat list" where
  "decode_segments lecture duration stop_end [] = (if stop_end then None else Some ([], []), [])"
| "decode_segments lecture duration stop_end ((stop, g) # gs) =
     (if stop then (None, [])
      else (let t = py_strip (ms_text g) in
        case decode_segments lecture duration stop_end gs of (r, ps) \<Rightarrow>
          (map_option (\<lambda>(ts, ss). (t # ts, (if lecture then [g\<lparr>ms_text := t\<rparr>] else []) @ ss)) r,
           (if duration \<noteq> 0 then [progress_of duration g] else []) @ ps)))"

definition transcribe_audio ::
  "string \<Rightarrow> bool \<Rightarrow> rat option \<Rightarrow> (bool \<times> model_segment) list \<Rightarrow> bool \<Rightarrow> (string \<times> model_segment list) option \<times> rat list" where
  "transcribe_audio pres stop_first duration gs stop_end =
     (if stop_first then (None, [])
      else (case decode_segments (pres = ''lecture'') (max (case duration of None \<Rightarrow> 0 | Some x \<Rightarrow> x) 0) stop_end gs of
          (r, ps) \<Rightarrow> (map_option (\<lambda>(ts, ss). (py_strip (join_with '' '' ts), ss)) r, ps)))"

lemma decode_progress:
  "p \<in> set (snd (decode_segments lecture duration stop_end gs)) \<Longrightarrow> 0 \<le> p \<and> p \<le> 99"
proof (induction lecture duration stop_end gs rule: decode_segments.induct)
  case (2 lecture duration stop_end stop g gs)
  then show ?case
    by (auto simp: Let_def progress_of_def split_beta split: if_splits)
qed simp

lemma decode_result:
  "fst (decode_segments lecture duration stop_end gs) =
   (if stop_end \<or> list_ex fst gs then None
    else Some (map (py_strip \<circ> ms_text \<circ> snd) gs,
      if lecture then map (\<lambda>(_, g). g\<lparr>ms_text := py_strip (ms_text g)\<rparr>) gs else []))"
  by (induction lecture duration stop_end gs rule: decode_segments.induct) (auto simp: Let_def split_beta)

text \<open>
  What the engine reports is what the protocol takes. A transcription yields a result exactly
  when no look found it stopped: the stripped texts in order, joined by blanks, with segments
  for lectures only. And every progress it reports on the way, also of a stopped one, passes
  the endpoint's check: a heartbeat with it is never refused for its value.
\<close>

theorem transcriptions_fit_the_protocol:
  "fst (transcribe_audio pres stop_first duration gs stop_end) =
     (if stop_first \<or> list_ex fst gs \<or> stop_end then None
      else Some (py_strip (join_with '' '' (map (py_strip \<circ> ms_text \<circ> snd) gs)),
        if pres = ''lecture'' then map (\<lambda>(_, g). g\<lparr>ms_text := py_strip (ms_text g)\<rparr>) gs else [])) \<and>
   list_all (\<lambda>p. fst (api_heartbeat e vals i token (Finite p) d) \<noteq> Inl (Abort INVALID_ARGUMENT ''Progress must be within 0..99''))
     (snd (transcribe_audio pres stop_first duration gs stop_end))"
proof
  let ?dur = "max (case duration of None \<Rightarrow> 0 | Some x \<Rightarrow> x) 0"
  show "fst (transcribe_audio pres stop_first duration gs stop_end) =
     (if stop_first \<or> list_ex fst gs \<or> stop_end then None
      else Some (py_strip (join_with '' '' (map (py_strip \<circ> ms_text \<circ> snd) gs)),
        if pres = ''lecture'' then map (\<lambda>(_, g). g\<lparr>ms_text := py_strip (ms_text g)\<rparr>) gs else []))"
    using decode_result [of "pres = ''lecture''" ?dur stop_end gs]
    by (auto simp: transcribe_audio_def split: prod.split)
  have "0 \<le> p \<and> p \<le> 99" if "p \<in> set (snd (transcribe_audio pres stop_first duration gs stop_end))" for p
    using that decode_progress [of p "pres = ''lecture''" ?dur stop_end gs]
    by (auto simp: transcribe_audio_def split: if_splits prod.splits)
  moreover have "fst (api_heartbeat e vals i token (Finite p) d) \<noteq> Inl (Abort INVALID_ARGUMENT ''Progress must be within 0..99'')"
    if "0 \<le> p \<and> p \<le> 99" for p
    using that by (auto simp: api_heartbeat_def auth_call_def abort_def split: sum.splits option.splits prod.splits)
  ultimately show "list_all (\<lambda>p. fst (api_heartbeat e vals i token (Finite p) d) \<noteq> Inl (Abort INVALID_ARGUMENT ''Progress must be within 0..99''))
     (snd (transcribe_audio pres stop_first duration gs stop_end))"
    by (simp add: list_all_iff)
qed

end
