(* ===== verification/Updater.thy ===== *)
theory Updater
  imports Json
begin

text \<open>
  \<open>scripts/worker_updater.py\<close> with \<open>release\<close> of \<open>scripts/worker_release.py\<close>: the reconciler that
  replaces the containers of remote workers by the approved release. The Docker daemon, the
  journal's disk and the clock are what the \<open>world\<close> answers; the program keeps a trace of what
  it asked and did, in order. A crash is a prefix of the trace.
\<close>

section \<open>Releases\<close>

definition release_label :: string where
  "release_label = ''io.transcriber.release.''"

definition image_prefix :: "string \<Rightarrow> string \<Rightarrow> string" where
  "image_prefix registry role = registry @ ''-worker-'' @ role @ ''@sha256:''"

definition approved_image :: "string \<Rightarrow> string \<Rightarrow> string \<Rightarrow> bool" where
  "approved_image registry role img \<longleftrightarrow> prefix (image_prefix registry role) img \<and>
     class_match is_lower_hex 64 64 (drop (length (image_prefix registry role)) img)"

text \<open>\<open>None\<close> is an exception; a label that is no text raises in the regular expression.\<close>

definition label_text :: "(string \<times> json) list \<Rightarrow> string \<Rightarrow> string option" where
  "label_text labels k = (case map_of labels k of None \<Rightarrow> Some [] | Some (JStr s) \<Rightarrow> Some s | Some _ \<Rightarrow> None)"

definition release :: "(string \<times> json) list \<Rightarrow> string \<Rightarrow> (string \<times> (string \<times> string) list) option" where
  "release labels registry =
     Option.bind (label_text labels (release_label @ ''revision'')) (\<lambda>revision.
     if \<not> class_match is_lower_hex 40 40 revision then None
     else Option.bind (label_text labels (release_label @ ''cpu'')) (\<lambda>cpu.
       if \<not> approved_image registry ''cpu'' cpu then None
       else Option.bind (label_text labels (release_label @ ''gpu'')) (\<lambda>gpu.
         if \<not> approved_image registry ''gpu'' gpu then None
         else Some (revision, [(''cpu'', cpu), (''gpu'', gpu)]))))"

section \<open>Containers\<close>

text \<open>
  What the code reads of an inspection. \<open>ct_name\<close> is without its leading slashes; \<open>ct_config\<close>
  and \<open>ct_host\<close> are the dictionaries \<open>Config\<close> and \<open>HostConfig\<close>.
\<close>

record container =
  ct_id :: string
  ct_name :: string
  ct_image :: string
  ct_config :: "(string \<times> json) list"
  ct_host :: "(string \<times> json) list"
  ct_running :: bool
  ct_started :: "string option"
  ct_health :: "string option"

record image_info =
  im_id :: string
  im_config :: "(string \<times> json) list"

fun or_dict :: "json option \<Rightarrow> (string \<times> json) list" where
  "or_dict (Some (JObj ps)) = ps"
| "or_dict _ = []"

fun or_list :: "json option \<Rightarrow> json list" where
  "or_list (Some (JList js)) = js"
| "or_list _ = []"

definition ct_labels :: "container \<Rightarrow> (string \<times> json) list" where
  "ct_labels c = or_dict (map_of (ct_config c) ''Labels'')"

definition role_label :: string where
  "role_label = ''io.transcriber.worker-role''"

definition opt_in :: string where
  "opt_in = ''io.transcriber.autodeploy''"

definition role_of :: "container \<Rightarrow> string option" where
  "role_of c = (case map_of (ct_labels c) role_label of Some (JStr r) \<Rightarrow> Some r | _ \<Rightarrow> None)"

definition managed :: "string \<Rightarrow> container \<Rightarrow> bool" where
  "managed project c \<longleftrightarrow> (let labels = ct_labels c in
     map_of labels ''com.docker.compose.project'' = Some (JStr project) \<and>
     (\<exists>r \<in> {''cpu'', ''gpu''}. role_of c = Some r \<and>
        map_of labels ''com.docker.compose.service'' = Some (JStr (''worker-'' @ r))) \<and>
     map_of labels opt_in = Some (JStr ''true''))"

definition healthy :: "container \<Rightarrow> bool" where
  "healthy c \<longleftrightarrow> ct_health c = Some ''healthy''"

section \<open>The configuration of a replacement\<close>

text \<open>\<open>{**a, **b}\<close>, up to the order of keys\<close>

definition dict_union :: "(string \<times> json) list \<Rightarrow> (string \<times> json) list \<Rightarrow> (string \<times> json) list" where
  "dict_union a b = foldr (\<lambda>(k, v). AList.update k v) b a"

fun truthy :: "json \<Rightarrow> bool" where
  "truthy JNull = False"
| "truthy (JBool b) = b"
| "truthy (JInt i) = (i \<noteq> 0)"
| "truthy (JFloat t) = True"
| "truthy (JStr s) = (s \<noteq> [])"
| "truthy (JList js) = (js \<noteq> [])"
| "truthy (JObj ps) = (ps \<noteq> [])"

definition pop_inherited :: "(string \<times> json) list \<Rightarrow> string \<Rightarrow> (string \<times> json) list \<Rightarrow> (string \<times> json) list" where
  "pop_inherited defaults k config = (case map_of defaults k of None \<Rightarrow> config
     | Some v \<Rightarrow> if (case map_of config k of None \<Rightarrow> JNull | Some u \<Rightarrow> u) = v then AList.delete k config else config)"

definition shares_network :: "(string \<times> json) list \<Rightarrow> bool" where
  "shares_network host \<longleftrightarrow> (case map_of host ''NetworkMode'' of Some (JStr s) \<Rightarrow> prefix ''container:'' s | _ \<Rightarrow> False)"

text \<open>
  \<open>replacement\<close>: of the old container's configuration the operator's labels, variables and
  commands stay, what the old image supplied gives way to the new image's. An image's dictionary
  holds no float where truth is asked.
\<close>

definition replacement_labels ::
  "(string \<times> json) list \<Rightarrow> (string \<times> json) list \<Rightarrow> (string \<times> json) list \<Rightarrow> (string \<times> json) list" where
  "replacement_labels old_defaults new_defaults labels =
     dict_union (or_dict (map_of new_defaults ''Labels''))
       (filter (\<lambda>(k, v). map_of (or_dict (map_of old_defaults ''Labels'')) k \<noteq> Some v) labels)"

definition with_default_command :: "(string \<times> json) list \<Rightarrow> (string \<times> json) list \<Rightarrow> (string \<times> json) list" where
  "with_default_command new_defaults config = (case (map_of config ''Entrypoint'', map_of config ''Cmd'', map_of new_defaults ''Cmd'') of
     (Some e, None, Some v) \<Rightarrow> if truthy e then AList.update ''Cmd'' v config else config
   | _ \<Rightarrow> config)"

definition replacement ::
  "container \<Rightarrow> string \<Rightarrow> string \<Rightarrow> (string \<times> json) list \<Rightarrow> (string \<times> json) list \<Rightarrow> (string \<times> json) list" where
  "replacement old img image_id old_defaults new_defaults = (let
     c0 = AList.update ''Image'' (JStr img) (ct_config old);
     labels = replacement_labels old_defaults new_defaults (ct_labels old);
     env = filter (\<lambda>v. v \<notin> set (or_list (map_of old_defaults ''Env''))) (or_list (map_of c0 ''Env''));
     c1 = AList.update ''Env'' (JList env) c0;
     c2 = fold (pop_inherited old_defaults) [''Cmd'', ''Entrypoint'', ''WorkingDir''] c1;
     c3 = with_default_command new_defaults c2;
     c4 = AList.update ''Labels'' (JObj (AList.update ''com.docker.compose.image'' (JStr image_id) labels)) c3;
     host = AList.delete ''ConsoleSize'' (ct_host old);
     c5 = (if shares_network host then AList.delete ''Domainname'' (AList.delete ''Hostname'' c4) else c4) in
     AList.update ''HostConfig'' (JObj host) c5)"

section \<open>The journal and the trace\<close>

record pending =
  pd_old :: string
  pd_started :: "string option"
  pd_name :: string
  pd_service :: string
  pd_image :: string

record journal =
  jn_pending :: "pending option"
  jn_failed :: "(string \<times> string) list"

datatype action = KillDrain | KillResume | StartIt | StopIt | RenameTo string

datatype event =
  Inspected string "container option"
| Acted string action
| RemovedIt string
| Pulled string image_info
| AskedDrained string bool
| ReadImage string
| Created string "(string \<times> json) list"
| Saved journal
| Listed

text \<open>The answers of the world; \<open>None\<close> or \<open>False\<close> is an error. A save may fail after it replaced the file.\<close>

datatype save_end = SaveOk | SaveFailed | SaveUnsure

record 'd world =
  w_inspect :: "string \<Rightarrow> 'd \<Rightarrow> container option option \<times> 'd"
  w_act :: "string \<Rightarrow> action \<Rightarrow> 'd \<Rightarrow> bool \<times> 'd"
  w_remove :: "string \<Rightarrow> 'd \<Rightarrow> bool \<times> 'd"
  w_pull :: "string \<Rightarrow> 'd \<Rightarrow> image_info option \<times> 'd"
  w_drained :: "string \<Rightarrow> 'd \<Rightarrow> bool option \<times> 'd"
  w_image :: "string \<Rightarrow> 'd \<Rightarrow> (string \<times> json) list option \<times> 'd"
  w_create :: "string \<Rightarrow> (string \<times> json) list \<Rightarrow> 'd \<Rightarrow> string option \<times> 'd"
  w_list :: "'d \<Rightarrow> string list option \<times> 'd"
  w_save :: "journal \<Rightarrow> 'd \<Rightarrow> save_end \<times> 'd"

record 'd ust =
  us_world :: 'd
  us_state :: journal
  us_trace :: "event list"

section \<open>The program\<close>

type_synonym ('a, 'd) prog = "'d ust \<Rightarrow> 'a option \<times> 'd ust"

definition give :: "'a \<Rightarrow> ('a, 'd) prog" where
  "give x s = (Some x, s)"

definition raise :: "('a, 'd) prog" where
  "raise s = (None, s)"

definition andthen :: "('a, 'd) prog \<Rightarrow> ('a \<Rightarrow> ('b, 'd) prog) \<Rightarrow> ('b, 'd) prog" where
  "andthen m k s = (case m s of (None, t) \<Rightarrow> (None, t) | (Some x, t) \<Rightarrow> k x t)"

text \<open>A question is traced with its answer, a command when it is issued.\<close>

definition ask :: "('d \<Rightarrow> 'a option \<times> 'd) \<Rightarrow> ('a \<Rightarrow> event) \<Rightarrow> ('a, 'd) prog" where
  "ask q ev s = (case q (us_world s) of
     (None, d) \<Rightarrow> (None, s\<lparr>us_world := d\<rparr>)
   | (Some x, d) \<Rightarrow> (Some x, s\<lparr>us_world := d, us_trace := us_trace s @ [ev x]\<rparr>))"

definition issue :: "('d \<Rightarrow> bool \<times> 'd) \<Rightarrow> event \<Rightarrow> (unit, 'd) prog" where
  "issue q ev s = (case q (us_world s) of (ok, d) \<Rightarrow>
     (if ok then Some () else None, s\<lparr>us_world := d, us_trace := us_trace s @ [ev]\<rparr>))"

definition inspect :: "'d world \<Rightarrow> string \<Rightarrow> (container option, 'd) prog" where
  "inspect w n = ask (w_inspect w n) (Inspected n)"

definition act :: "'d world \<Rightarrow> string \<Rightarrow> action \<Rightarrow> (unit, 'd) prog" where
  "act w i a = issue (w_act w i a) (Acted i a)"

definition remove_it :: "'d world \<Rightarrow> string \<Rightarrow> (unit, 'd) prog" where
  "remove_it w i = issue (w_remove w i) (RemovedIt i)"

definition create :: "'d world \<Rightarrow> string \<Rightarrow> (string \<times> json) list \<Rightarrow> (string, 'd) prog" where
  "create w n config s = (case w_create w n config (us_world s) of
     (r, d) \<Rightarrow> (r, s\<lparr>us_world := d, us_trace := us_trace s @ [Created n config]\<rparr>))"

definition save :: "'d world \<Rightarrow> (unit, 'd) prog" where
  "save w s = (case w_save w (us_state s) (us_world s) of (e, d) \<Rightarrow>
     (if e = SaveOk then Some () else None,
      s\<lparr>us_world := d, us_trace := us_trace s @ (if e = SaveFailed then [] else [Saved (us_state s)])\<rparr>))"

definition set_pending :: "pending option \<Rightarrow> (unit, 'd) prog" where
  "set_pending p s = (Some (), s\<lparr>us_state := us_state s\<lparr>jn_pending := p\<rparr>\<rparr>)"

definition set_failed :: "string \<Rightarrow> string \<Rightarrow> (unit, 'd) prog" where
  "set_failed role img s = (Some (), s\<lparr>us_state := us_state s\<lparr>jn_failed := AList.update role img (jn_failed (us_state s))\<rparr>\<rparr>)"

section \<open>Recovery\<close>

definition roll_back :: "'d world \<Rightarrow> string \<Rightarrow> pending \<Rightarrow> container option \<Rightarrow> container option \<Rightarrow> (unit, 'd) prog" where
  "roll_back w project p old new = (case old of
     None \<Rightarrow> raise
   | Some b \<Rightarrow> if \<not> managed project b then raise else
       andthen (case new of None \<Rightarrow> give () | Some n \<Rightarrow> if \<not> managed project n then raise else remove_it w (ct_id n)) (\<lambda>_.
       andthen (act w (ct_id b) (RenameTo (pd_name p))) (\<lambda>_.
       andthen (act w (ct_id b) StartIt) (\<lambda>_.
       set_failed (pd_service p) (pd_image p)))))"

definition settle :: "'d world \<Rightarrow> string \<Rightarrow> pending \<Rightarrow> container option \<Rightarrow> container option \<Rightarrow> (unit, 'd) prog" where
  "settle w project p old new = (case new of
     None \<Rightarrow> roll_back w project p old new
   | Some n \<Rightarrow>
       if ct_id n = pd_old p then
         (if \<not> managed project n then raise
          else if \<not> ct_running n then act w (ct_id n) StartIt
          else if ct_started n = pd_started p then act w (ct_id n) KillResume
          else give ())
       else if managed project n \<and> healthy n then
         (case old of None \<Rightarrow> give ()
          | Some b \<Rightarrow> if \<not> managed project b then raise else remove_it w (ct_id b))
       else roll_back w project p old new)"

definition recover :: "'d world \<Rightarrow> string \<Rightarrow> (unit, 'd) prog" where
  "recover w project s = (case jn_pending (us_state s) of
     None \<Rightarrow> (Some (), s)
   | Some p \<Rightarrow>
       andthen (inspect w (pd_old p)) (\<lambda>old.
       andthen (inspect w (pd_name p)) (\<lambda>new.
       andthen (settle w project p old new) (\<lambda>_.
       andthen (set_pending None) (\<lambda>_.
       save w)))) s)"

section \<open>The update of one container\<close>

text \<open>
  The two waiting loops are given what ends them: at each turn whether the process stops (or the
  deadline has passed), and for the second both apart. A list that runs out is a stop.
\<close>

fun wait_drained :: "'d world \<Rightarrow> string \<Rightarrow> bool list \<Rightarrow> (bool, 'd) prog" where
  "wait_drained w i [] = ask (w_drained w i) (AskedDrained i)"
| "wait_drained w i (b # bs) = andthen (ask (w_drained w i) (AskedDrained i)) (\<lambda>x.
     if x then give True else if b then give False else wait_drained w i bs)"

fun wait_healthy :: "'d world \<Rightarrow> string \<Rightarrow> (bool \<times> bool) list \<Rightarrow> (unit, 'd) prog" where
  "wait_healthy w i [] = give ()"
| "wait_healthy w i ((stop, late) # bs) = (if stop then give () else
     andthen (inspect w i) (\<lambda>new. case new of
       None \<Rightarrow> give ()
     | Some n \<Rightarrow> if healthy n \<or> \<not> ct_running n \<or> late then give () else wait_healthy w i bs))"

definition backup_name :: "pending \<Rightarrow> string" where
  "backup_name p = pd_name p @ ''-rollback-'' @ take 12 (pd_old p)"

text \<open>From the stop of the old container to the end of the wait for the new one.\<close>

definition replace_it ::
  "'d world \<Rightarrow> container \<Rightarrow> pending \<Rightarrow> image_info \<Rightarrow> (bool \<times> bool) list \<Rightarrow> (unit, 'd) prog" where
  "replace_it w old p target hs =
     andthen (act w (pd_old p) StopIt) (\<lambda>_.
     andthen (act w (pd_old p) (RenameTo (backup_name p))) (\<lambda>_.
     andthen (ask (w_image w (ct_image old)) (\<lambda>_. ReadImage (ct_image old))) (\<lambda>defaults.
     let config = replacement old (pd_image p) (im_id target) defaults (im_config target) in
     andthen (create w (pd_name p) config) (\<lambda>created.
     andthen (act w created StartIt) (\<lambda>_.
     wait_healthy w created hs)))))"

definition drain_and_replace ::
  "'d world \<Rightarrow> string \<Rightarrow> container \<Rightarrow> pending \<Rightarrow> image_info \<Rightarrow> bool list \<Rightarrow> (bool \<times> bool) list \<Rightarrow> (unit, 'd) prog" where
  "drain_and_replace w project old p target ds hs =
     andthen (act w (pd_old p) KillDrain) (\<lambda>_.
     andthen (wait_drained w (pd_old p) ds) (\<lambda>drained.
     if \<not> drained then recover w project
     else andthen (set_pending (Some p)) (\<lambda>_.
       andthen (save w) (\<lambda>_.
       andthen (replace_it w old p target hs) (\<lambda>_.
       recover w project)))))"

definition or_recover :: "'d world \<Rightarrow> string \<Rightarrow> (unit, 'd) prog \<Rightarrow> (unit, 'd) prog" where
  "or_recover w project m s = (case m s of
     (Some x, t) \<Rightarrow> (Some x, t)
   | (None, t) \<Rightarrow> andthen (recover w project) (\<lambda>_. raise) t)"

definition update_it ::
  "'d world \<Rightarrow> string \<Rightarrow> container \<Rightarrow> string \<Rightarrow> string \<Rightarrow> bool list \<Rightarrow> (bool \<times> bool) list \<Rightarrow> (unit, 'd) prog" where
  "update_it w project old role img ds hs s =
     (if map_of (jn_failed (us_state s)) role = Some img then (Some (), s)
      else andthen (ask (w_pull w img) (Pulled img)) (\<lambda>target.
        if ct_image old = im_id target \<or> map_of (ct_labels old) ''io.transcriber.drain-protocol'' \<noteq> Some (JStr ''1'') \<or>
           \<not> healthy old then give ()
        else (let p = \<lparr>pd_old = ct_id old, pd_started = ct_started old, pd_name = ct_name old,
                 pd_service = role, pd_image = img\<rparr> in
          andthen (set_pending (Some p)) (\<lambda>_.
          andthen (save w) (\<lambda>_.
          or_recover w project (drain_and_replace w project old p target ds hs))))) s)"

fun update_all ::
  "'d world \<Rightarrow> string \<Rightarrow> (string \<times> string) list \<Rightarrow> (string \<Rightarrow> bool list) \<Rightarrow> (string \<Rightarrow> (bool \<times> bool) list) \<Rightarrow> string list
   \<Rightarrow> (unit, 'd) prog" where
  "update_all w project images ds hs [] = give ()"
| "update_all w project images ds hs (i # is) =
     andthen (inspect w i) (\<lambda>old.
     andthen (case old of None \<Rightarrow> give ()
       | Some c \<Rightarrow> (case role_of c of
           Some role \<Rightarrow> (if ct_running c \<and> managed project c
             then (case map_of images role of Some img \<Rightarrow> update_it w project c role img (ds i) (hs i) | None \<Rightarrow> raise)
             else give ())
         | None \<Rightarrow> give ())) (\<lambda>_.
     update_all w project images ds hs is))"

definition reconcile ::
  "'d world \<Rightarrow> string \<Rightarrow> string \<Rightarrow> (string \<Rightarrow> bool list) \<Rightarrow> (string \<Rightarrow> (bool \<times> bool) list) \<Rightarrow> (unit, 'd) prog" where
  "reconcile w project registry ds hs =
     andthen (recover w project) (\<lambda>_.
     andthen (ask (w_pull w (registry @ ''-release:stable'')) (Pulled (registry @ ''-release:stable''))) (\<lambda>marker.
     case release (or_dict (map_of (im_config marker) ''Labels'')) registry of
       None \<Rightarrow> raise
     | Some (revision, images) \<Rightarrow>
         andthen (ask (w_list w) (\<lambda>_. Listed)) (\<lambda>ids. update_all w project images ds hs ids)))"

section \<open>What a trace has to look like\<close>

text \<open>
  The reference for a recovery: what it does, in order, for what it found under the journal's
  old identifier and name; \<open>None\<close> where it has to refuse.
\<close>

definition recovery_plan :: "string \<Rightarrow> pending \<Rightarrow> container option \<Rightarrow> container option \<Rightarrow> event list option" where
  "recovery_plan project p old new = (
     let restore = (\<lambda>first. case old of Some b \<Rightarrow> if managed project b
           then Some (first @ [Acted (ct_id b) (RenameTo (pd_name p)), Acted (ct_id b) StartIt]) else None
         | None \<Rightarrow> None) in
     case new of
       None \<Rightarrow> restore []
     | Some n \<Rightarrow>
         if \<not> managed project n then None
         else if ct_id n = pd_old p then
           Some (if \<not> ct_running n then [Acted (ct_id n) StartIt]
             else if ct_started n = pd_started p then [Acted (ct_id n) KillResume] else [])
         else if healthy n then
           (case old of None \<Rightarrow> Some [] | Some b \<Rightarrow> if managed project b then Some [RemovedIt (ct_id b)] else None)
         else restore [RemovedIt (ct_id n)])"

definition looked :: "pending \<Rightarrow> container option \<Rightarrow> container option \<Rightarrow> event list" where
  "looked p old new = [Inspected (pd_old p) old, Inspected (pd_name p) new]"

text \<open>
  What may come after a part of the trace. A container is removed right after a look at both:
  the old one only if the new one is managed, another and healthy, the new one only if the old
  one is there and managed. The old one is stopped right after it said it was drained and the
  journal was written; its replacement is created right after it was stopped and renamed, with
  an approved image. The journal's record is closed only behind a complete recovery plan.
\<close>

fun allowed :: "string \<Rightarrow> string \<Rightarrow> event list \<Rightarrow> event \<Rightarrow> bool" where
  "allowed project registry pre (RemovedIt i) \<longleftrightarrow> (\<exists>p b n. suffix (looked p (Some b) (Some n)) pre \<and>
     managed project b \<and> managed project n \<and> ct_id n \<noteq> pd_old p \<and> i = (if healthy n then ct_id b else ct_id n))"
| "allowed project registry pre (Acted i a) \<longleftrightarrow> (a = StopIt \<longrightarrow>
     (\<exists>j p. suffix [AskedDrained i True, Saved j] pre \<and> jn_pending j = Some p \<and> pd_old p = i))"
| "allowed project registry pre (Created n config) \<longleftrightarrow> (\<exists>j p img.
     suffix [AskedDrained (pd_old p) True, Saved j, Acted (pd_old p) StopIt, Acted (pd_old p) (RenameTo (backup_name p)), ReadImage img] pre \<and>
     jn_pending j = Some p \<and> pd_name p = n \<and> map_of config ''Image'' = Some (JStr (pd_image p)) \<and>
     approved_image registry (pd_service p) (pd_image p))"
| "allowed project registry pre (Saved j) \<longleftrightarrow> (jn_pending j = None \<longrightarrow>
     (\<exists>p old new es. recovery_plan project p old new = Some es \<and> suffix (looked p old new @ es) pre))"
| "allowed project registry pre _ \<longleftrightarrow> True"

definition follows :: "(event list \<Rightarrow> event \<Rightarrow> bool) \<Rightarrow> event list \<Rightarrow> bool" where
  "follows A tr \<longleftrightarrow> (\<forall>pre e post. tr = pre @ e # post \<longrightarrow> A pre e)"

lemma follows_Nil: "follows A []"
  by (simp add: follows_def)

lemma follows_snoc: "follows A (tr @ [e]) \<longleftrightarrow> follows A tr \<and> A tr e"
proof -
  have "tr @ [e] = pre @ x # post \<longleftrightarrow> (\<exists>p'. post = p' @ [e] \<and> tr = pre @ x # p') \<or> (post = [] \<and> pre = tr \<and> x = e)"
    for pre x post by (cases post rule: rev_cases) auto
  then show ?thesis unfolding follows_def by metis
qed

text \<open>Triples: from a trace that follows the policy and a state with \<open>P\<close>.\<close>

definition triple ::
  "(event list \<Rightarrow> event \<Rightarrow> bool) \<Rightarrow> ('d ust \<Rightarrow> bool) \<Rightarrow> ('a, 'd) prog \<Rightarrow> ('a \<Rightarrow> 'd ust \<Rightarrow> bool) \<Rightarrow> bool" where
  "triple A P m Q \<longleftrightarrow> (\<forall>s r t. follows A (us_trace s) \<longrightarrow> P s \<longrightarrow> m s = (r, t) \<longrightarrow>
     follows A (us_trace t) \<and> (\<forall>x. r = Some x \<longrightarrow> Q x t))"

lemma tripleI:
  "(\<And>s r t. follows A (us_trace s) \<Longrightarrow> P s \<Longrightarrow> m s = (r, t) \<Longrightarrow> follows A (us_trace t) \<and> (\<forall>x. r = Some x \<longrightarrow> Q x t)) \<Longrightarrow>
   triple A P m Q"
  by (simp add: triple_def)

lemma triple_give: "(\<And>s. P s \<Longrightarrow> Q x s) \<Longrightarrow> triple A P (give x) Q"
  by (auto simp: triple_def give_def)

lemma triple_raise: "triple A P raise Q"
  by (auto simp: triple_def raise_def)

lemma tripleD:
  "triple A P m Q \<Longrightarrow> follows A (us_trace s) \<Longrightarrow> P s \<Longrightarrow> m s = (r, t) \<Longrightarrow> follows A (us_trace t) \<and> (\<forall>x. r = Some x \<longrightarrow> Q x t)"
  unfolding triple_def by blast

lemma triple_andthen:
  assumes "triple A P m R" and "\<And>x. triple A (R x) (k x) Q"
  shows "triple A P (andthen m k) Q"
proof (rule tripleI)
  fix s r t assume s: "follows A (us_trace s)" "P s" "andthen m k s = (r, t)"
  obtain a u where u: "m s = (a, u)" by fastforce
  note first = tripleD [OF assms(1) s(1,2) u]
  show "follows A (us_trace t) \<and> (\<forall>x. r = Some x \<longrightarrow> Q x t)"
  proof (cases a)
    case None
    with u s(3) first show ?thesis by (simp add: andthen_def)
  next
    case (Some x)
    with u s(3) have "k x u = (r, t)" by (simp add: andthen_def)
    with first Some tripleD [OF assms(2)] show ?thesis by blast
  qed
qed

lemma triple_weaken:
  assumes "triple A P' m Q'" and "\<And>s. P s \<Longrightarrow> P' s" and "\<And>x s. Q' x s \<Longrightarrow> Q x s"
  shows "triple A P m Q"
proof (rule tripleI)
  fix s r t assume s: "follows A (us_trace s)" "P s" "m s = (r, t)"
  from tripleD [OF assms(1) s(1) assms(2) [OF s(2)] s(3)] assms(3)
  show "follows A (us_trace t) \<and> (\<forall>x. r = Some x \<longrightarrow> Q x t)" by simp
qed

lemma triple_ask:
  "(\<And>s x. P s \<Longrightarrow> A (us_trace s) (ev x)) \<Longrightarrow>
   (\<And>s x d. P s \<Longrightarrow> Q x (s\<lparr>us_world := d, us_trace := us_trace s @ [ev x]\<rparr>)) \<Longrightarrow> triple A P (ask q ev) Q"
  by (rule tripleI) (auto simp: ask_def follows_snoc split: prod.splits option.splits)

lemma triple_issue:
  "(\<And>s. P s \<Longrightarrow> A (us_trace s) ev) \<Longrightarrow>
   (\<And>s d. P s \<Longrightarrow> Q () (s\<lparr>us_world := d, us_trace := us_trace s @ [ev]\<rparr>)) \<Longrightarrow> triple A P (issue q ev) Q"
  by (rule tripleI) (auto simp: issue_def follows_snoc split: prod.splits if_splits)

lemma triple_create:
  "(\<And>s. P s \<Longrightarrow> A (us_trace s) (Created n config)) \<Longrightarrow>
   (\<And>s x d. P s \<Longrightarrow> Q x (s\<lparr>us_world := d, us_trace := us_trace s @ [Created n config]\<rparr>)) \<Longrightarrow> triple A P (create w n config) Q"
  by (rule tripleI) (auto simp: create_def follows_snoc split: prod.splits)

lemma triple_save:
  "(\<And>s. P s \<Longrightarrow> A (us_trace s) (Saved (us_state s))) \<Longrightarrow>
   (\<And>s d. P s \<Longrightarrow> Q () (s\<lparr>us_world := d, us_trace := us_trace s @ [Saved (us_state s)]\<rparr>)) \<Longrightarrow> triple A P (save w) Q"
  by (rule tripleI) (auto simp: save_def follows_snoc split: prod.splits if_splits)

lemma triple_pending:
  "(\<And>s. P s \<Longrightarrow> Q () (s\<lparr>us_state := us_state s\<lparr>jn_pending := p\<rparr>\<rparr>)) \<Longrightarrow> triple A P (set_pending p) Q"
  by (rule tripleI) (auto simp: set_pending_def)

lemma triple_failed:
  "(\<And>s. P s \<Longrightarrow> Q () (s\<lparr>us_state := us_state s\<lparr>jn_failed := AList.update role img (jn_failed (us_state s))\<rparr>\<rparr>)) \<Longrightarrow>
   triple A P (set_failed role img) Q"
  by (rule tripleI) (auto simp: set_failed_def)

text \<open>One more event behind a known end of the trace.\<close>

definition ends :: "event list \<Rightarrow> 'd ust \<Rightarrow> bool" where
  "ends es s \<longleftrightarrow> suffix es (us_trace s)"

lemma ends_Nil [simp]: "ends [] s"
  by (simp add: ends_def)

lemma ends_snoc [simp]: "ends (es @ [e]) (s\<lparr>us_world := d, us_trace := us_trace s @ [e]\<rparr>) \<longleftrightarrow> ends es s"
  by (simp add: ends_def)

lemma ends_state [simp]: "ends es (s\<lparr>us_state := j\<rparr>) \<longleftrightarrow> ends es s"
  by (simp add: ends_def)

lemmas triple_rules = triple_give triple_raise triple_ask triple_issue triple_create triple_save triple_pending triple_failed

section \<open>Recovery follows its plan\<close>

lemma andthen_give [simp]: "andthen (give x) k = k x"
  by (simp add: andthen_def give_def fun_eq_iff)

lemma andthen_raise [simp]: "andthen raise k = raise"
  by (simp add: andthen_def raise_def fun_eq_iff)

lemma triple_ex: "(\<And>j. triple A (P j) m Q) \<Longrightarrow> triple A (\<lambda>s. \<exists>j. P j s) m Q"
  unfolding triple_def by blast

lemma triple_act:
  "a \<noteq> StopIt \<Longrightarrow> triple (allowed project registry) (ends es) (act w i a) (\<lambda>_. ends (es @ [Acted i a]))"
  unfolding act_def by (rule triple_issue) simp_all

lemma triple_inspect:
  "triple (allowed project registry) (ends es) (inspect w n) (\<lambda>c. ends (es @ [Inspected n c]))"
  unfolding inspect_def by (rule triple_ask) simp_all

lemma triple_remove:
  "(\<And>pre. suffix es pre \<Longrightarrow> allowed project registry pre (RemovedIt i)) \<Longrightarrow>
   triple (allowed project registry) (ends es) (remove_it w i) (\<lambda>_. ends (es @ [RemovedIt i]))"
  unfolding remove_it_def by (rule triple_issue) (simp_all add: ends_def)

lemma ends_failed: "triple A (ends es) (set_failed role img) (\<lambda>_. ends es)"
  by (rule triple_failed) simp

definition planned :: "string \<Rightarrow> pending \<Rightarrow> container option \<Rightarrow> container option \<Rightarrow> 'd ust \<Rightarrow> bool" where
  "planned project p old new s \<longleftrightarrow> (\<exists>es. recovery_plan project p old new = Some es \<and> ends (looked p old new @ es) s)"

lemma restore_plan:
  assumes "recovery_plan project p (Some b) new = Some (first @ [Acted (ct_id b) (RenameTo (pd_name p)), Acted (ct_id b) StartIt])"
  shows "triple (allowed project registry) (ends (looked p (Some b) new @ first))
    (andthen (act w (ct_id b) (RenameTo (pd_name p))) (\<lambda>_. andthen (act w (ct_id b) StartIt) (\<lambda>_. set_failed role img)))
    (\<lambda>_. planned project p (Some b) new)"
proof -
  let ?es = "looked p (Some b) new @ first" and ?A = "allowed project registry"
  have "triple ?A (ends ((?es @ [Acted (ct_id b) (RenameTo (pd_name p))]) @ [Acted (ct_id b) StartIt])) (set_failed role img)
      (\<lambda>_. planned project p (Some b) new)"
    by (rule triple_failed) (use assms in \<open>auto simp: planned_def\<close>)
  then have "triple ?A (ends (?es @ [Acted (ct_id b) (RenameTo (pd_name p))]))
      (andthen (act w (ct_id b) StartIt) (\<lambda>_. set_failed role img)) (\<lambda>_. planned project p (Some b) new)"
    by (rule triple_andthen [OF triple_act, rotated]) simp
  then show ?thesis by (rule triple_andthen [OF triple_act, rotated]) simp
qed

lemma roll_back_plan:
  assumes "\<And>n. new = Some n \<Longrightarrow> ct_id n \<noteq> pd_old p \<and> (managed project n \<longrightarrow> \<not> healthy n)"
  shows "triple (allowed project registry) (ends (looked p old new)) (roll_back w project p old new) (\<lambda>_. planned project p old new)"
proof (cases old)
  case None
  then show ?thesis by (simp add: roll_back_def triple_raise)
next
  case (Some b)
  show ?thesis
  proof (cases "managed project b")
    case b: True
    show ?thesis
    proof (cases new)
      case None
      with Some b show ?thesis
        unfolding roll_back_def
        using restore_plan [of project p b None "[]" registry w "pd_service p" "pd_image p"]
        by (simp add: recovery_plan_def)
    next
      case new: (Some n)
      show ?thesis
      proof (cases "managed project n")
        case True
        with assms new have n: "ct_id n \<noteq> pd_old p" "\<not> healthy n" by auto
        have rm: "triple (allowed project registry) (ends (looked p old new)) (remove_it w (ct_id n))
            (\<lambda>_. ends (looked p (Some b) new @ [RemovedIt (ct_id n)]))"
          unfolding Some by (rule triple_remove) (use new b True n in auto)
        have "recovery_plan project p (Some b) new = Some ([RemovedIt (ct_id n)] @
            [Acted (ct_id b) (RenameTo (pd_name p)), Acted (ct_id b) StartIt])"
          using new b True n by (simp add: recovery_plan_def)
        with triple_andthen [OF rm restore_plan] Some new b True show ?thesis by (simp add: roll_back_def)
      next
        case False
        then show ?thesis using Some new b by (simp add: roll_back_def triple_raise)
      qed
    qed
  qed (simp add: Some roll_back_def triple_raise)
qed

lemma settle_plan:
  fixes w :: "'d world"
  shows "triple (allowed project registry) (ends (looked p old new)) (settle w project p old new) (\<lambda>_. planned project p old new)"
proof (cases new)
  case None
  with roll_back_plan [of None p project registry old w] show ?thesis by (simp add: settle_def)
next
  case (Some n)
  let ?A = "allowed project registry" and ?E = "looked p old (Some n)"
  show ?thesis
  proof (cases "ct_id n = pd_old p")
    case same: True
    show ?thesis
    proof (cases "managed project n")
      case True
      have plan: "planned project p old (Some n) s" if "ends (?E @ es) s"
        "es = (if \<not> ct_running n then [Acted (ct_id n) StartIt]
          else if ct_started n = pd_started p then [Acted (ct_id n) KillResume] else [])" for es and s :: "'d ust"
        using that same True by (auto simp: planned_def recovery_plan_def)
      have act: "triple ?A (ends ?E) (act w (ct_id n) a) (\<lambda>_. planned project p old (Some n))"
        if "a = StartIt \<and> \<not> ct_running n \<or> a = KillResume \<and> ct_running n \<and> ct_started n = pd_started p" for a
        by (rule triple_weaken [OF triple_act, of _ "ends ?E"]) (use that plan in auto)
      have give: "triple ?A (ends ?E) (give () :: (unit, 'd) prog) (\<lambda>_. planned project p old (Some n))"
        if "ct_running n" "ct_started n \<noteq> pd_started p"
        by (rule triple_give) (use plan [of "[]"] that in simp)
      show ?thesis using Some same True act give by (simp add: settle_def)
    qed (simp add: Some same settle_def triple_raise)
  next
    case other: False
    show ?thesis
    proof (cases "managed project n \<and> healthy n")
      case True
      show ?thesis
      proof (cases old)
        case None
        with Some other True show ?thesis
          by (auto simp: settle_def planned_def recovery_plan_def intro!: triple_give)
      next
        case old: (Some b)
        show ?thesis
        proof (cases "managed project b")
          case b: True
          have "triple ?A (ends (looked p (Some b) (Some n))) (remove_it w (ct_id b))
              (\<lambda>_. ends (looked p (Some b) (Some n) @ [RemovedIt (ct_id b)]))"
            by (rule triple_remove) (use other True b in auto)
          then have "triple ?A (ends (looked p (Some b) (Some n))) (remove_it w (ct_id b)) (\<lambda>_. planned project p (Some b) (Some n))"
            by (rule triple_weaken) (use other True b in \<open>auto simp: planned_def recovery_plan_def\<close>)
          with Some other True old b show ?thesis by (simp add: settle_def)
        qed (use Some other True old in \<open>simp add: settle_def triple_raise\<close>)
      qed
    next
      case False
      with Some other roll_back_plan [of "Some n" p project registry old w] show ?thesis by (auto simp: settle_def)
    qed
  qed
qed

lemma recover_triple: "triple (allowed project registry) P (recover w project) (\<lambda>_ _. True)"
proof (rule tripleI)
  fix s r t
  assume s: "follows (allowed project registry) (us_trace s)" "recover w project s = (r, t)"
  show "follows (allowed project registry) (us_trace t) \<and> (\<forall>x. r = Some x \<longrightarrow> True)"
  proof (cases "jn_pending (us_state s)")
    case None
    with s show ?thesis by (simp add: recover_def)
  next
    case (Some p)
    let ?A = "allowed project registry"
    let ?last = "andthen (set_pending None) (\<lambda>_. save w)"
    have last: "triple ?A (planned project p old new) ?last (\<lambda>_ _. True)" for old new
    proof (rule triple_andthen)
      show "triple ?A (planned project p old new) (set_pending None)
          (\<lambda>_ s. planned project p old new s \<and> jn_pending (us_state s) = None)"
        by (rule triple_pending) (simp add: planned_def)
      show "triple ?A (\<lambda>s. planned project p old new s \<and> jn_pending (us_state s) = None) (save w) (\<lambda>_ _. True)"
        by (rule triple_save) (auto simp: planned_def ends_def)
    qed
    have after: "triple ?A (ends ([Inspected (pd_old p) old] @ [Inspected (pd_name p) new]))
        (andthen (settle w project p old new) (\<lambda>_. ?last)) (\<lambda>_ _. True)" for old new
      using triple_andthen [OF settle_plan last] by (simp add: looked_def)
    have second: "triple ?A (ends ([] @ [Inspected (pd_old p) old]))
        (andthen (inspect w (pd_name p)) (\<lambda>new. andthen (settle w project p old new) (\<lambda>_. ?last))) (\<lambda>_ _. True)" for old
      using triple_andthen [OF triple_inspect after] by simp
    have "triple ?A (ends []) (andthen (inspect w (pd_old p)) (\<lambda>old. andthen (inspect w (pd_name p))
        (\<lambda>new. andthen (settle w project p old new) (\<lambda>_. ?last)))) (\<lambda>_ _. True)"
      by (rule triple_andthen [OF triple_inspect second])
    from tripleD [OF this s(1)] s(2) Some show ?thesis by (simp add: recover_def)
  qed
qed

section \<open>Updates\<close>

lemma wait_drained_triple:
  "triple (allowed project registry) (\<lambda>_. True) (wait_drained w i ds) (\<lambda>x s. x \<longrightarrow> ends [AskedDrained i True] s)"
proof (induction ds)
  case Nil
  show ?case unfolding wait_drained.simps by (rule triple_ask) (auto simp: ends_def)
next
  case (Cons b ds)
  have ask: "triple (allowed project registry) (\<lambda>_. True) (ask (w_drained w i) (AskedDrained i))
      (\<lambda>x s. x \<longrightarrow> ends [AskedDrained i True] s)"
    by (rule triple_ask) (auto simp: ends_def)
  have "triple (allowed project registry) (\<lambda>s. x \<longrightarrow> ends [AskedDrained i True] s)
      (if x then give True else if b then give False else wait_drained w i ds) (\<lambda>x s. x \<longrightarrow> ends [AskedDrained i True] s)" for x
    using triple_weaken [OF Cons.IH, where P = "\<lambda>_. True" and Q = "\<lambda>x s. x \<longrightarrow> ends [AskedDrained i True] s"]
    by (auto intro: triple_give)
  then show ?case unfolding wait_drained.simps by (rule triple_andthen [OF ask])
qed

lemma wait_healthy_triple: "triple (allowed project registry) P (wait_healthy w i hs) (\<lambda>_ _. True)"
proof (induction w i hs arbitrary: P rule: wait_healthy.induct)
  case (1 w i)
  show ?case by (simp add: triple_give)
next
  case (2 w i stop late bs)
  have look: "triple (allowed project registry) P (inspect w i) (\<lambda>_ _. True)"
    unfolding inspect_def by (rule triple_ask) simp_all
  show ?case
  proof (cases stop)
    case False
    with 2 show ?thesis
      by (auto intro!: triple_andthen [OF look] triple_give split: option.splits)
  qed (simp add: triple_give)
qed

lemma replacement_image: "map_of (replacement old img image_id od nd) ''Image'' = Some (JStr img)"
proof -
  have pop: "k \<noteq> ''Image'' \<Longrightarrow> map_of (pop_inherited od k c) ''Image'' = map_of c ''Image''" for k c
    by (simp add: pop_inherited_def AList.delete_conv' split: option.split)
  have cmd: "map_of (with_default_command nd c) ''Image'' = map_of c ''Image''" for c
    by (simp add: with_default_command_def AList.update_conv' split: option.split)
  show ?thesis
    by (simp add: replacement_def Let_def AList.update_conv' AList.delete_conv' pop cmd)
qed

lemma replace_triple:
  assumes "jn_pending j = Some p" and "approved_image registry (pd_service p) (pd_image p)"
  shows "triple (allowed project registry) (ends [AskedDrained (pd_old p) True, Saved j]) (replace_it w old p target hs) (\<lambda>_ _. True)"
proof -
  let ?A = "allowed project registry" and ?e0 = "[AskedDrained (pd_old p) True, Saved j]"
  let ?stop = "Acted (pd_old p) StopIt" and ?ren = "Acted (pd_old p) (RenameTo (backup_name p))"
  have stop: "triple ?A (ends ?e0) (act w (pd_old p) StopIt) (\<lambda>_. ends (?e0 @ [?stop]))"
    unfolding act_def
  proof (rule triple_issue)
    show "?A (us_trace s) ?stop" if "ends ?e0 s" for s
      using that assms(1) by (auto simp: ends_def)
  qed (rule ends_snoc [THEN iffD2])
  have img: "triple ?A (ends es) (ask (w_image w i) (\<lambda>_. ReadImage i)) (\<lambda>_. ends (es @ [ReadImage i]))" for es i
    by (rule triple_ask) simp_all
  have create: "triple ?A (ends (((?e0 @ [?stop]) @ [?ren]) @ [ReadImage i]))
      (create w (pd_name p) (replacement old (pd_image p) (im_id target) d (im_config target))) (\<lambda>_ _. True)" for i d
  proof (rule triple_create)
    show "?A (us_trace s) (Created (pd_name p) (replacement old (pd_image p) (im_id target) d (im_config target)))"
      if "ends (((?e0 @ [?stop]) @ [?ren]) @ [ReadImage i]) s" for s
      using that assms unfolding allowed.simps by (auto simp: ends_def replacement_image)
  qed simp
  have start: "triple ?A (\<lambda>_. True) (act w i StartIt) (\<lambda>_ _. True)" for i
    using triple_act [of StartIt project registry "[]" w i] by (simp add: triple_def)
  show ?thesis
    unfolding replace_it_def Let_def
    by (rule triple_andthen [OF stop], rule triple_andthen [OF triple_act], simp, rule triple_andthen [OF img],
        rule triple_andthen [OF create], rule triple_andthen [OF start], rule wait_healthy_triple)
qed

lemma saved_pending:
  "triple (allowed project registry) (\<lambda>s. ends es s \<and> jn_pending (us_state s) = Some p) (save w)
     (\<lambda>_ s. \<exists>j. jn_pending j = Some p \<and> ends (es @ [Saved j]) s)"
proof (rule triple_save)
  show "\<exists>j. jn_pending j = Some p \<and> ends (es @ [Saved j]) (s\<lparr>us_world := d, us_trace := us_trace s @ [Saved (us_state s)]\<rparr>)"
    if "ends es s \<and> jn_pending (us_state s) = Some p" for s :: "'a ust" and d
    using that by (auto simp: ends_def)
qed simp

lemma set_pending_triple:
  "triple A (ends es) (set_pending (Some p)) (\<lambda>_ s. ends es s \<and> jn_pending (us_state s) = Some p)"
  by (rule triple_pending) simp

lemma update_triple:
  assumes "approved_image registry role img"
  shows "triple (allowed project registry) (\<lambda>_. True) (update_it w project old role img ds hs) (\<lambda>_ _. True)"
proof (rule tripleI)
  let ?A = "allowed project registry"
  let ?p = "\<lparr>pd_old = ct_id old, pd_started = ct_started old, pd_name = ct_name old, pd_service = role, pd_image = img\<rparr>"
  fix s r t
  assume s: "follows ?A (us_trace s)" "update_it w project old role img ds hs s = (r, t)"
  have kill: "triple ?A P (act w i KillDrain) (\<lambda>_ _. True)" for P i
    unfolding act_def by (rule triple_issue) simp_all
  have replace: "triple ?A (\<lambda>s. \<exists>j. jn_pending j = Some ?p \<and> ends ([AskedDrained (pd_old ?p) True] @ [Saved j]) s)
      (replace_it w old ?p target hs) (\<lambda>_ _. True)" for target
  proof (rule triple_ex)
    show "triple ?A (\<lambda>s. jn_pending j = Some ?p \<and> ends ([AskedDrained (pd_old ?p) True] @ [Saved j]) s)
        (replace_it w old ?p target hs) (\<lambda>_ _. True)" for j
      using replace_triple [of j ?p registry project w old target hs] assms
      by (cases "jn_pending j = Some ?p") (simp_all add: triple_def)
  qed
  have go: "triple ?A (ends [AskedDrained (pd_old ?p) True])
      (andthen (set_pending (Some ?p)) (\<lambda>_. andthen (save w) (\<lambda>_. andthen (replace_it w old ?p target hs) (\<lambda>_. recover w project))))
      (\<lambda>_ _. True)" for target
    by (rule triple_andthen [OF set_pending_triple], rule triple_andthen [OF saved_pending],
        rule triple_andthen [OF replace], rule recover_triple)
  have "triple ?A (\<lambda>s. drained \<longrightarrow> ends [AskedDrained (pd_old ?p) True] s)
      (if \<not> drained then recover w project
       else andthen (set_pending (Some ?p)) (\<lambda>_. andthen (save w) (\<lambda>_. andthen (replace_it w old ?p target hs) (\<lambda>_. recover w project))))
      (\<lambda>_ _. True)" for drained target
    using go recover_triple by (cases drained) simp_all
  then have drain: "triple ?A P (drain_and_replace w project old ?p target ds hs) (\<lambda>_ _. True)" for target P
    unfolding drain_and_replace_def
    by (intro triple_andthen [OF kill] triple_andthen [OF wait_drained_triple])
  have guarded: "triple ?A P (or_recover w project (drain_and_replace w project old ?p target ds hs)) (\<lambda>_ _. True)" for target P
  proof (rule tripleI)
    fix s r t
    assume s: "follows ?A (us_trace s)" "P s" "or_recover w project (drain_and_replace w project old ?p target ds hs) s = (r, t)"
    obtain a u where u: "drain_and_replace w project old ?p target ds hs s = (a, u)" by fastforce
    from tripleD [OF drain [of "\<lambda>_. True" target] s(1) TrueI u] have u_ok: "follows ?A (us_trace u)" by blast
    have "triple ?A (\<lambda>_. True) (andthen (recover w project) (\<lambda>_. raise :: (unit, 'a) prog)) (\<lambda>_ _. True)"
      by (rule triple_andthen [OF recover_triple triple_raise])
    from tripleD [OF this u_ok] s(3) u u_ok show "follows ?A (us_trace t) \<and> (\<forall>x. r = Some x \<longrightarrow> True)"
      by (cases a) (auto simp: or_recover_def)
  qed
  have pull: "triple ?A (\<lambda>_. True) (ask (w_pull w img) (Pulled img)) (\<lambda>_. ends [])"
    by (rule triple_ask) simp_all
  have "triple ?A (\<lambda>_. True) (andthen (ask (w_pull w img) (Pulled img)) (\<lambda>target.
        if ct_image old = im_id target \<or> map_of (ct_labels old) ''io.transcriber.drain-protocol'' \<noteq> Some (JStr ''1'') \<or> \<not> healthy old
        then give () else (let p = ?p in andthen (set_pending (Some p)) (\<lambda>_. andthen (save w) (\<lambda>_.
          or_recover w project (drain_and_replace w project old p target ds hs)))))) (\<lambda>_ _. True)"
  proof (rule triple_andthen [OF pull])
    have "triple ?A (ends []) (andthen (set_pending (Some ?p)) (\<lambda>_. andthen (save w) (\<lambda>_.
        or_recover w project (drain_and_replace w project old ?p target ds hs)))) (\<lambda>_ _. True)" for target
      by (rule triple_andthen [OF set_pending_triple], rule triple_andthen [OF saved_pending], rule guarded)
    then show "triple ?A (ends []) (if ct_image old = im_id target \<or>
        map_of (ct_labels old) ''io.transcriber.drain-protocol'' \<noteq> Some (JStr ''1'') \<or> \<not> healthy old
        then give () else (let p = ?p in andthen (set_pending (Some p)) (\<lambda>_. andthen (save w) (\<lambda>_.
          or_recover w project (drain_and_replace w project old p target ds hs))))) (\<lambda>_ _. True)" for target
      by (simp add: Let_def triple_give)
  qed
  from tripleD [OF this s(1)] s show "follows ?A (us_trace t) \<and> (\<forall>x. r = Some x \<longrightarrow> True)"
    by (cases "map_of (jn_failed (us_state s)) role = Some img") (simp_all add: update_it_def)
qed

lemma release_approved:
  "release labels registry = Some (revision, images) \<Longrightarrow> map_of images role = Some img \<Longrightarrow> approved_image registry role img"
  by (auto simp: release_def bind_eq_Some_conv split: if_splits)

lemma update_all_triple:
  assumes "\<And>role img. map_of images role = Some img \<Longrightarrow> approved_image registry role img"
  shows "triple (allowed project registry) P (update_all w project images ds hs is) (\<lambda>_ _. True)"
proof (induction "is" arbitrary: P)
  case Nil
  show ?case by (simp add: triple_give)
next
  case (Cons i "is")
  have look: "triple (allowed project registry) P (inspect w i) (\<lambda>_ _. True)"
    unfolding inspect_def by (rule triple_ask) simp_all
  have one: "triple (allowed project registry) (\<lambda>_. True) (case old of None \<Rightarrow> give ()
       | Some c \<Rightarrow> (case role_of c of
           Some role \<Rightarrow> (if ct_running c \<and> managed project c
             then (case map_of images role of Some img \<Rightarrow> update_it w project c role img (ds i) (hs i) | None \<Rightarrow> raise)
             else give ())
         | None \<Rightarrow> give ())) (\<lambda>_ _. True)" for old
    by (auto split: option.splits intro!: triple_give triple_raise update_triple assms)
  show ?case unfolding update_all.simps by (rule triple_andthen [OF look], rule triple_andthen [OF one], rule Cons.IH)
qed

lemma reconcile_triple: "triple (allowed project registry) P (reconcile w project registry ds hs) (\<lambda>_ _. True)"
proof -
  let ?A = "allowed project registry" and ?m = "registry @ ''-release:stable''"
  have pull: "triple ?A (\<lambda>_. True) (ask (w_pull w ?m) (Pulled ?m)) (\<lambda>_ _. True)" by (rule triple_ask) simp_all
  have ls: "triple ?A (\<lambda>_. True) (ask (w_list w) (\<lambda>_. Listed)) (\<lambda>_ _. True)" by (rule triple_ask) simp_all
  have "triple ?A (\<lambda>_. True) (case release labels registry of None \<Rightarrow> raise
     | Some (revision, images) \<Rightarrow> andthen (ask (w_list w) (\<lambda>_. Listed)) (\<lambda>ids. update_all w project images ds hs ids)) (\<lambda>_ _. True)"
    for labels
    by (auto split: option.split intro!: triple_raise triple_andthen [OF ls] update_all_triple release_approved)
  then show ?thesis unfolding reconcile_def
    by (intro triple_andthen [OF recover_triple] triple_andthen [OF pull])
qed

text \<open>
  C27: updates follow the journal. Whatever Docker, the disk and the clock answer, and wherever
  the updater crashes: it stops a worker only right after the worker said it was drained and the
  journal was written; it creates a replacement only for that worker and only with an image of the
  approved release; it removes the old container only when a managed, healthy other one has its
  name, and a failed replacement only while the managed old one is there; and it closes the
  journal's record only after a complete plan of recovery.
\<close>

theorem updates_follow_the_journal:
  assumes "us_trace (snd (reconcile w project registry ds hs \<lparr>us_world = d, us_state = j, us_trace = []\<rparr>)) = before @ e # behind"
  shows "allowed project registry before e"
proof -
  let ?s = "\<lparr>us_world = d, us_state = j, us_trace = []\<rparr>"
  obtain r t where t: "reconcile w project registry ds hs ?s = (r, t)" by fastforce
  have "follows (allowed project registry) (us_trace ?s)" by (simp add: follows_Nil)
  from tripleD [OF reconcile_triple [where P = "\<lambda>_. True"] this TrueI t] assms t show ?thesis
    by (auto simp: follows_def)
qed

section \<open>A run\<close>

definition demo_labels :: "(string \<times> json) list" where
  "demo_labels = [(''com.docker.compose.project'', JStr ''p''), (''com.docker.compose.service'', JStr ''worker-cpu''),
     (opt_in, JStr ''true''), (role_label, JStr ''cpu''), (''io.transcriber.drain-protocol'', JStr ''1''),
     (''base'', JStr ''old'')]"

definition demo_container :: "string \<Rightarrow> bool \<Rightarrow> container" where
  "demo_container i ok = \<lparr>ct_id = i, ct_name = ''w'', ct_image = i, ct_config = [(''Labels'', JObj demo_labels)], ct_host = [],
     ct_running = True, ct_started = None, ct_health = (if ok then Some ''healthy'' else Some ''starting'')\<rparr>"

definition demo_image :: "string \<Rightarrow> string" where
  "demo_image role = image_prefix ''r'' role @ replicate 64 CHR ''a''"

definition demo_marker :: "(string \<times> json) list" where
  "demo_marker = [(release_label @ ''revision'', JStr (replicate 40 CHR ''0'')),
     (release_label @ ''cpu'', JStr (demo_image ''cpu'')), (release_label @ ''gpu'', JStr (demo_image ''gpu''))]"

text \<open>
  Docker after a crash behind the creation of the replacement: the old worker is stopped and
  renamed, the new one has its name. The next pull fails.
\<close>

definition demo_world :: "bool \<Rightarrow> unit world" where
  "demo_world ok = \<lparr>
     w_inspect = (\<lambda>n d. (Some (Some (if n = ''old'' then demo_container ''old'' True else demo_container ''new'' ok)), d)),
     w_act = (\<lambda>_ _ d. (True, d)), w_remove = (\<lambda>_ d. (True, d)), w_pull = (\<lambda>_ d. (None, d)),
     w_drained = (\<lambda>_ d. (Some True, d)), w_image = (\<lambda>_ d. (Some [], d)), w_create = (\<lambda>_ _ d. (Some ''new'', d)),
     w_list = (\<lambda>d. (Some [''old''], d)), w_save = (\<lambda>_ d. (SaveOk, d))\<rparr>"

definition demo_journal :: journal where
  "demo_journal = \<lparr>jn_pending = Some \<lparr>pd_old = ''old'', pd_started = None, pd_name = ''w'', pd_service = ''cpu'',
     pd_image = demo_image ''cpu''\<rparr>, jn_failed = []\<rparr>"

definition demo_start :: "unit ust" where
  "demo_start = \<lparr>us_world = (), us_state = demo_journal, us_trace = []\<rparr>"

theorem updates_follow_the_journal_witness:
  "let tr = us_trace (snd (reconcile (demo_world True) ''p'' ''r'' (\<lambda>_. []) (\<lambda>_. []) demo_start)) in
     length tr = 4 \<and> tr ! 2 = RemovedIt ''old'' \<and> allowed ''p'' ''r'' (take 2 tr) (RemovedIt ''old'')"
proof -
  let ?tr = "us_trace (snd (reconcile (demo_world True) ''p'' ''r'' (\<lambda>_. []) (\<lambda>_. []) demo_start))"
  have rec: "fst (recover (demo_world True) ''p'' demo_start) = Some ()" by code_simp
  have trace: "us_trace (snd (recover (demo_world True) ''p'' demo_start)) ! 2 = RemovedIt ''old''"
    "length (us_trace (snd (recover (demo_world True) ''p'' demo_start))) = 4" by code_simp+
  obtain t where t: "recover (demo_world True) ''p'' demo_start = (Some (), t)"
    using rec by (cases "recover (demo_world True) ''p'' demo_start") simp
  have "w_pull (demo_world True) n d = (None, d)" for n d by (simp add: demo_world_def)
  with t have "?tr = us_trace t" by (simp add: reconcile_def andthen_def ask_def)
  with t trace have tr: "?tr ! 2 = RemovedIt ''old''" "length ?tr = 4" by simp_all
  then have split: "?tr = take 2 ?tr @ RemovedIt ''old'' # drop 3 ?tr"
    using id_take_nth_drop [of 2 ?tr] by simp
  with tr updates_follow_the_journal [of "demo_world True" "''p''" "''r''" "\<lambda>_. []" "\<lambda>_. []" "()" demo_journal]
  show ?thesis unfolding Let_def demo_start_def by blast
qed

text \<open>
  A stop that reaches the updater while it waits for a replacement to become healthy ends the
  wait, the recovery rolls the replacement back as failed, and the role is never updated to that
  image again, also after the updater restarts.
\<close>

lemma stopped_wait_blames_the_image:
  "wait_healthy w i ((True, late) # hs) = give () \<and>
   map_of (jn_failed (us_state (snd (recover (demo_world False) ''p'' demo_start)))) ''cpu'' = Some (demo_image ''cpu'') \<and>
   (map_of (jn_failed (us_state s)) role = Some img \<longrightarrow> update_it w project old role img ds hs' s = (Some (), s))"
proof -
  have "map_of (jn_failed (us_state (snd (recover (demo_world False) ''p'' demo_start)))) ''cpu'' = Some (demo_image ''cpu'')"
    by code_simp
  then show ?thesis by (simp add: update_it_def)
qed

section \<open>What a replacement keeps\<close>

lemma dict_union_conv: "map_of (dict_union a b) = map_of a ++ map_of b"
  by (induction b) (auto simp: dict_union_def AList.update_conv' fun_eq_iff map_add_def)

lemma filter_pairs_conv:
  "distinct (map fst ls) \<Longrightarrow> map_of (filter (\<lambda>(k, v). f k \<noteq> Some v) ls) k =
   (case map_of ls k of None \<Rightarrow> None | Some v \<Rightarrow> if f k = Some v then None else Some v)"
proof (induction ls)
  case (Cons kv ls)
  then show ?case by (cases kv) (auto simp: map_of_eq_None_iff split: option.splits)
qed simp

lemma pop_inherited_other: "k' \<noteq> k \<Longrightarrow> map_of (pop_inherited od k c) k' = map_of c k'"
  by (simp add: pop_inherited_def AList.delete_conv' split: option.split)

lemma default_command_other: "k \<noteq> ''Cmd'' \<Longrightarrow> map_of (with_default_command nd c) k = map_of c k"
  by (simp add: with_default_command_def AList.update_conv' split: option.split)



end
