(* ===== verification/Metrics.thy ===== *)
theory Metrics
  imports StoreSystem Admission
begin

text \<open>
  \<open>whisper/metrics.py\<close> and \<open>JobStore.metrics_snapshot\<close>: the read-only snapshot of the tables,
  what the endpoint renders of it and the text it serves. Ages are in seconds, exact.
\<close>

section \<open>The snapshot\<close>

text \<open>\<open>COALESCE(MAX(...), 0)\<close>\<close>

definition max_or_zero :: "int list \<Rightarrow> int" where
  "max_or_zero xs = (if xs = [] then 0 else Max (set xs))"

text \<open>\<open>metrics_jobs.sql\<close>: one row for each status that occurs. Aggregates skip nulls.\<close>

record status_report =
  sr_status :: status
  sr_jobs :: int
  sr_retried :: int
  sr_oldest :: int
  sr_expired :: int
  sr_unacked :: int
  sr_oldest_unacked :: int

definition unacked :: "job \<Rightarrow> bool" where
  "unacked r \<longleftrightarrow> retain_until_ack r \<and> acknowledged_at r = None"

definition status_report_of :: "time \<Rightarrow> job list \<Rightarrow> status \<Rightarrow> status_report" where
  "status_report_of now rs s = (let g = filter (\<lambda>r. status r = s) rs in \<lparr>
     sr_status = s, sr_jobs = int (length g), sr_retried = int (count_where (\<lambda>r. 0 < attempts r) g),
     sr_oldest = max_or_zero (map (\<lambda>r. now - created_at r) g),
     sr_expired = int (count_where (\<lambda>r. status r = Running \<and> \<not> later (lease_expires_at r) now) g),
     sr_unacked = int (count_where unacked g),
     sr_oldest_unacked = max_or_zero (map (\<lambda>r. now - the (finished_at r)) (filter (\<lambda>r. unacked r \<and> finished_at r \<noteq> None) g))\<rparr>)"

definition metrics_jobs :: "time \<Rightarrow> db \<Rightarrow> status_report list" where
  "metrics_jobs now d = map (status_report_of now (jobs d)) (remdups (map status (jobs d)))"

text \<open>\<open>metrics_workers.sql\<close>\<close>

record online_row =
  rr_worker :: string
  rr_online :: bool
  rr_instances :: int
  rr_idle :: int
  rr_age :: int

definition metrics_workers :: "time \<Rightarrow> db \<Rightarrow> online_row list" where
  "metrics_workers now d = map (\<lambda>p. let
     w = wr_worker_id p; ready = filter (\<lambda>a. av_worker_id a = w \<and> now < ready_until a) (workers d) in
     \<lparr>rr_worker = w, rr_online = (ready \<noteq> []), rr_instances = int (length ready),
       rr_idle = int (count_where (\<lambda>a. (now < demand_until a \<or> later (consumer_until a) now) \<and>
          \<not> slot_held now w (av_instance_id a) d) ready),
       rr_age = now - wr_reported_at p\<rparr>) (reports d)"

text \<open>\<open>metrics_running.sql\<close>; the age is null when no attempt of the group has a start.\<close>

record running_row =
  rn_worker :: string
  rn_active :: int
  rn_progress :: rat
  rn_age :: "int option"

definition attempt_start :: "job \<Rightarrow> time option" where
  "attempt_start r = (case attempt_started_at r of Some t \<Rightarrow> Some t | None \<Rightarrow> started_at r)"

definition running_row_of :: "time \<Rightarrow> job list \<Rightarrow> string \<Rightarrow> running_row" where
  "running_row_of now rs w = (let g = filter (\<lambda>r. before_slash (lease_owner r) = w) rs;
     starts = List.map_filter attempt_start g in \<lparr>
     rn_worker = w, rn_active = int (length g), rn_progress = sum_list (map progress_percent g) / of_nat (length g),
     rn_age = (if starts = [] then None else Some (Max (set (map (\<lambda>t. now - t) starts))))\<rparr>)"

definition metrics_running :: "time \<Rightarrow> db \<Rightarrow> running_row list" where
  "metrics_running now d = (let rs = filter (live now) (jobs d) in
     map (running_row_of now rs) (remdups (map (before_slash \<circ> lease_owner) rs)))"

text \<open>\<open>metrics_outbox.sql\<close>: the count and the age of the oldest; nothing outside broker mode.\<close>

definition metrics_outbox :: "backend \<Rightarrow> time \<Rightarrow> db \<Rightarrow> int \<times> int" where
  "metrics_outbox b now d = (let ms = filter (\<lambda>m. b = Rabbitmq \<and> published_at m = None \<and> available_at m \<le> now) (outbox d) in
     (int (length ms), max_or_zero (map (\<lambda>m. now - available_at m) ms)))"

record snapshot =
  sn_jobs :: "status_report list"
  sn_workers :: "online_row list"
  sn_running :: "running_row list"
  sn_observations :: "(observation \<times> int) list"
  sn_outbox :: "int \<times> int"

definition metrics_snapshot :: "store_config \<Rightarrow> time \<Rightarrow> db \<Rightarrow> snapshot" where
  "metrics_snapshot cfg now d = \<lparr>sn_jobs = metrics_jobs now d, sn_workers = metrics_workers now d,
     sn_running = metrics_running now d, sn_observations = map (\<lambda>x. (x, now - last_at x)) (observations d),
     sn_outbox = metrics_outbox (queue_backend cfg) now d\<rparr>"

section \<open>Lines\<close>

text \<open>
  \<open>Missing\<close> is \<open>None\<close>, which cannot be rendered. A definition has its name, kind and help
  text. Durations in the tables are microseconds.
\<close>

datatype metric_value = Value rat | NotANumber | Missing

datatype line =
  Define string string string
| Sample string "(string \<times> string) list" metric_value

definition num :: "int \<Rightarrow> metric_value" where
  "num n = Value (of_int n)"

definition age :: "int \<Rightarrow> metric_value" where
  "age us = Value (of_int us / 1000000)"

definition gauge :: "string \<Rightarrow> string \<Rightarrow> metric_value \<Rightarrow> line list" where
  "gauge n help v = [Define n ''gauge'' help, Sample n [] v]"

text \<open>\<open>jobs.get(status, {}).get(field, 0)\<close>\<close>

definition status_field :: "snapshot \<Rightarrow> status \<Rightarrow> (status_report \<Rightarrow> int) \<Rightarrow> int" where
  "status_field sn s f = (case find (\<lambda>r. sr_status r = s) (sn_jobs sn) of None \<Rightarrow> 0 | Some r \<Rightarrow> f r)"

definition job_lines :: "snapshot \<Rightarrow> line list" where
  "job_lines sn =
     Define ''jobs'' ''gauge'' ''Currently retained jobs, including terminal jobs awaiting cleanup.'' #
     map (\<lambda>s. Sample ''jobs'' [(''status'', status_text s)] (num (status_field sn s sr_jobs)))
       [Accepted, Downloading, Queued, Running, Done, Failed] @
     gauge ''queue_oldest_wait_seconds'' ''Age since submission of the oldest queued job; zero for an empty queue.''
       (age (status_field sn Queued sr_oldest)) @
     gauge ''queue_retry_jobs'' ''Queued jobs that have already been attempted.'' (num (status_field sn Queued sr_retried)) @
     gauge ''expired_leases'' ''Running rows whose lease has expired and require recovery.'' (num (status_field sn Running sr_expired)) @
     gauge ''results_unacknowledged''
       ''Retained terminal results not yet durably acknowledged by the client; not Telegram delivery confirmation.''
       (num (status_field sn Done sr_unacked + status_field sn Failed sr_unacked)) @
     gauge ''results_oldest_unacknowledged_seconds''
       ''Age since completion of the oldest retained unacknowledged terminal result.''
       (age (max (status_field sn Done sr_oldest_unacked) (status_field sn Failed sr_oldest_unacked)))"

definition storage_lines :: "(string \<times> int) list \<Rightarrow> line list" where
  "storage_lines st = concat (map (\<lambda>(k, v). gauge (''storage_'' @ k) ''Job volume capacity in bytes.'' (num v)) st)"

definition outbox_lines :: "snapshot \<Rightarrow> line list" where
  "outbox_lines sn =
     gauge ''outbox_pending'' ''Ready outbox messages awaiting confirmed RabbitMQ publication.'' (num (fst (sn_outbox sn))) @
     gauge ''outbox_oldest_seconds'' ''Age of the oldest ready unpublished outbox message.'' (age (snd (sn_outbox sn)))"

section \<open>Workers\<close>

definition worker_metrics :: "(string \<times> string) list" where
  "worker_metrics = [
     (''worker_online'', ''At least one unexpired ready report exists for this worker ID.''),
     (''worker_state'', ''Worker state: 0 offline, 1 ready and idle, 2 ready and busy. Busy means a valid job lease.''),
     (''worker_instances'', ''Number of currently ready execution slots; multiple slots may share one process/model.''),
     (''worker_last_report_age_seconds'', ''Age of the last availability report, NaN if never observed.''),
     (''worker_active_jobs'', ''Jobs currently held by this worker with an unexpired lease.''),
     (''worker_progress_percent'', ''Mean reported progress of currently leased jobs, zero when idle.''),
     (''worker_attempt_age_seconds'', ''Age of the oldest currently leased attempt, zero when idle.'')]"

definition policy_metrics :: "(string \<times> string) list" where
  "policy_metrics = [
     (''worker_priority'', ''Configured pool priority; lower numbers win.''),
     (''worker_capacity'', ''Configured maximum concurrent jobs for the pool.''),
     (''worker_free_slots'', ''Ready idle slots with fresh work requests or RabbitMQ admission, bounded by pool capacity.'')]"

definition define_all :: "(string \<times> string) list \<Rightarrow> line list" where
  "define_all ms = map (\<lambda>(n, help). Define n ''gauge'' help) ms"

definition worker_row :: "snapshot \<Rightarrow> string \<Rightarrow> online_row option" where
  "worker_row sn w = find (\<lambda>r. rr_worker r = w) (sn_workers sn)"

definition active_row :: "snapshot \<Rightarrow> string \<Rightarrow> running_row option" where
  "active_row sn w = find (\<lambda>r. rn_worker r = w) (sn_running sn)"

definition active_of :: "snapshot \<Rightarrow> string \<Rightarrow> int" where
  "active_of sn w = (case active_row sn w of None \<Rightarrow> 0 | Some a \<Rightarrow> rn_active a)"

definition worker_values :: "snapshot \<Rightarrow> string \<Rightarrow> metric_value list" where
  "worker_values sn w = (let
     online = (case worker_row sn w of None \<Rightarrow> False | Some r \<Rightarrow> rr_online r) in
     [num (if online then 1 else 0),
      num (if online then (if active_of sn w \<noteq> 0 then 2 else 1) else 0),
      num (case worker_row sn w of None \<Rightarrow> 0 | Some r \<Rightarrow> rr_instances r),
      (case worker_row sn w of None \<Rightarrow> NotANumber | Some r \<Rightarrow> age (rr_age r)),
      num (active_of sn w),
      (case active_row sn w of None \<Rightarrow> Value 0 | Some a \<Rightarrow> Value (rn_progress a)),
      (case active_row sn w of None \<Rightarrow> Value 0 | Some a \<Rightarrow> (case rn_age a of None \<Rightarrow> Missing | Some t \<Rightarrow> age t))])"

definition free_slots :: "snapshot \<Rightarrow> policy \<Rightarrow> string \<Rightarrow> int" where
  "free_slots sn p w = max 0 (min (case worker_row sn w of None \<Rightarrow> 0 | Some r \<Rightarrow> rr_idle r) (max_concurrency p - active_of sn w))"

definition policy_values :: "snapshot \<Rightarrow> policy \<Rightarrow> string \<Rightarrow> metric_value list" where
  "policy_values sn p w = [num (priority p), num (max_concurrency p), num (free_slots sn p w)]"

definition samples :: "(string \<times> string) list \<Rightarrow> (string \<times> string) list \<Rightarrow> metric_value list \<Rightarrow> line list" where
  "samples ms labels vs = map2 (\<lambda>m v. Sample (fst m) labels v) ms vs"

definition worker_lines :: "snapshot \<Rightarrow> policies \<Rightarrow> string \<times> string \<Rightarrow> line list" where
  "worker_lines sn pols wr = (case wr of (w, role) \<Rightarrow> let labels = [(''worker_id'', w), (''worker_role'', role)] in
     samples worker_metrics labels (worker_values sn w) @
     (case map_of pols w of None \<Rightarrow> [] | Some p \<Rightarrow> samples policy_metrics labels (policy_values sn p w)))"

section \<open>Counters and histograms\<close>

definition metric_buckets :: "int list" where
  "metric_buckets = [1, 5, 15, 30, 60, 120, 300, 600, 1800, 3600, 10800]"

definition counters :: "(string \<times> string) list" where
  "counters = [(''submitted'', ''jobs_submitted''), (''completed'', ''jobs_completed''), (''failed'', ''jobs_failed''),
     (''cancelled'', ''jobs_cancelled''), (''attempts'', ''attempts''), (''retries'', ''retry_attempts''),
     (''attempt_failures'', ''attempt_failures''), (''lease_expirations'', ''lease_expirations'')]"

definition histograms :: "(string \<times> string) list" where
  "histograms = [(''queue_wait'', ''job_queue_wait_seconds''), (''processing'', ''job_processing_seconds''),
     (''turnaround'', ''job_turnaround_seconds'')]"

definition metric_labels :: "string list \<Rightarrow> string list" where
  "metric_labels ws = ws @ [''ingress'', ''other'']"

type_synonym totals = "(string \<times> string) \<Rightarrow> (int \<times> int \<times> int list) option"

definition zero_totals :: "string list \<Rightarrow> totals" where
  "zero_totals ws k = (if fst k \<in> set (metric_labels ws) \<and> snd k \<in> set (map fst (counters @ histograms))
     then Some (0, 0, replicate (length metric_buckets) 0) else None)"

definition label_of :: "string list \<Rightarrow> string \<Rightarrow> string" where
  "label_of ws w = (if w \<notin> set ws \<and> w \<noteq> ''ingress'' then ''other'' else w)"

text \<open>The loop over the observations; \<open>None\<close> is the error of \<open>zip\<close> with lists of different length.\<close>

fun collect :: "string list \<Rightarrow> (observation \<times> int) list \<Rightarrow> totals \<Rightarrow> totals option" where
  "collect ws [] t = Some t"
| "collect ws ((x, a) # xs) t = (let k = (label_of ws (ob_worker_id x), ob_event x) in
     case t k of
       None \<Rightarrow> collect ws xs t
     | Some (n, s, bs) \<Rightarrow>
         if length bs \<noteq> length (buckets x) then None
         else collect ws xs (t(k \<mapsto> (n + total x, s + seconds_sum x, map2 (+) bs (buckets x)))))"

definition spaced :: "string \<Rightarrow> string" where
  "spaced s = map (\<lambda>c. if c = CHR ''_'' then CHR '' '' else c) s"

definition counter_lines :: "string list \<Rightarrow> totals \<Rightarrow> line list" where
  "counter_lines ws t = concat (map (\<lambda>(e, n).
     Define (n @ ''_total'') ''counter''
       (''Durable '' @ spaced e @ '' observations since monitoring migration; survives job cleanup.'') #
     map (\<lambda>w. Sample (n @ ''_total'') [(''worker_id'', w)]
       (case t (w, e) of None \<Rightarrow> Missing | Some (c, _, _) \<Rightarrow> num c)) (metric_labels ws)) counters)"

definition histogram_samples :: "string \<Rightarrow> string \<Rightarrow> int \<times> int \<times> int list \<Rightarrow> line list" where
  "histogram_samples n w v = (case v of (c, s, bs) \<Rightarrow>
     map2 (\<lambda>b k. Sample (n @ ''_bucket'') [(''worker_id'', w), (''le'', py_str_int b)] (num k)) metric_buckets bs @
     [Sample (n @ ''_bucket'') [(''worker_id'', w), (''le'', ''+Inf'')] (num c),
      Sample (n @ ''_count'') [(''worker_id'', w)] (num c),
      Sample (n @ ''_sum'') [(''worker_id'', w)] (age s)])"

definition histogram_family :: "string list \<Rightarrow> totals \<Rightarrow> string \<Rightarrow> string \<Rightarrow> line list" where
  "histogram_family ws t e n =
     Define n ''histogram''
       (''Durable '' @ e @ '' duration in seconds; queue_wait observes first claim, processing and turnaround observe successful jobs.'') #
     concat (map (\<lambda>w. case t (w, e) of None \<Rightarrow> [] | Some v \<Rightarrow> histogram_samples n w v) (metric_labels ws))"

definition histogram_lines :: "string list \<Rightarrow> totals \<Rightarrow> line list" where
  "histogram_lines ws t = concat (map (\<lambda>(e, n). histogram_family ws t e n) histograms)"

text \<open>The ages of the completions whose key the totals have.\<close>

definition completion_ages :: "(observation \<times> int) list \<Rightarrow> int list" where
  "completion_ages xs = map snd (filter (\<lambda>(x, _). ob_event x = ''completed'') xs)"

definition completion_lines :: "snapshot \<Rightarrow> line list" where
  "completion_lines sn = gauge ''last_completion_age_seconds''
     ''Seconds since last observed successful completion, NaN before the first completion.''
     (case completion_ages (sn_observations sn) of [] \<Rightarrow> NotANumber | as \<Rightarrow> age (Min (set as)))"

definition render_metrics ::
  "snapshot \<Rightarrow> (string \<times> string) list \<Rightarrow> policies \<Rightarrow> (string \<times> int) list \<Rightarrow> line list option" where
  "render_metrics sn ws pols st = (case collect (map fst ws) (sn_observations sn) (zero_totals (map fst ws)) of
     None \<Rightarrow> None
   | Some t \<Rightarrow> Some (job_lines sn @ storage_lines st @ outbox_lines sn @ define_all worker_metrics @
       (if pols \<noteq> [] then define_all policy_metrics else []) @
       concat (map (worker_lines sn pols) (sort_key fst ws)) @
       counter_lines (map fst ws) t @ histogram_lines (map fst ws) t @ completion_lines sn))"

section \<open>Text\<close>

text \<open>
  The text of a line; \<open>show\<close> is \<open>str\<close> of a float. \<open>sample\<close> sorts the labels, and every
  caller gives them in that order but for \<open>le\<close>.
\<close>

definition labels_text :: "(string \<times> string) list \<Rightarrow> string" where
  "labels_text labels = (if labels = [] then [] else
     ''{'' @ join_with '','' (map (\<lambda>(k, v). k @ ''='' @ json_dumps (JStr v)) (sort_key fst labels)) @ ''}'')"

fun value_text :: "(rat \<Rightarrow> string) \<Rightarrow> metric_value \<Rightarrow> string option" where
  "value_text shows (Value x) = Some (shows x)"
| "value_text shows NotANumber = Some ''NaN''"
| "value_text shows Missing = None"

fun line_texts :: "(rat \<Rightarrow> string) \<Rightarrow> line \<Rightarrow> string list option" where
  "line_texts shows (Define n kind help) = Some [''# HELP transcriber_'' @ n @ '' '' @ help, ''# TYPE transcriber_'' @ n @ '' '' @ kind]"
| "line_texts shows (Sample n labels v) =
     map_option (\<lambda>t. [''transcriber_'' @ n @ labels_text labels @ '' '' @ t]) (value_text shows v)"

fun metrics_text :: "(rat \<Rightarrow> string) \<Rightarrow> line list \<Rightarrow> string option" where
  "metrics_text shows [] = Some []"
| "metrics_text shows (l # ls) = Option.bind (line_texts shows l) (\<lambda>ts.
     map_option (\<lambda>rest. concat (map (\<lambda>t. t @ [CHR 0x0A]) ts) @ rest) (metrics_text shows ls))"

section \<open>The endpoint\<close>

text \<open>The labelled workers: the policies or else the preferred ones, and the fallback.\<close>

definition monitored_workers :: "env \<Rightarrow> policies \<Rightarrow> (config_error, (string \<times> string) list) result" where
  "monitored_workers env pols = (let
     preferred = filter (\<lambda>v. v \<noteq> []) (map py_strip (py_split CHR '','' (getenv env ''PREFERRED_WORKER_IDS'' [])));
     ids = (if pols \<noteq> [] then map fst pols else rev (remdups (rev preferred)));
     ws = AList.update (getenv env ''FALLBACK_WORKER_ID'' ''server-fallback'') ''fallback'' (map (\<lambda>w. (w, ''preferred'')) ids) in
     guard_setting (\<not> (129 < length ws \<or> list_ex (\<lambda>(w, _). w \<in> {''ingress'', ''other''} \<or> \<not> worker_id_ok w) ws)) ''WORKER_IDS''
       (Inr ws))"

text \<open>
  \<open>do_GET\<close>: the payload is kept for five seconds. \<open>fetched\<close> is what a snapshot taken now would
  render, \<open>None\<close> if anything fails; \<open>after\<close> is the clock after it.
\<close>

record endpoint =
  ep_payload :: string
  ep_cached_at :: int

datatype http_reply = NotFound404 | Served200 string | Unavailable503

definition metrics_get :: "string \<Rightarrow> int \<Rightarrow> int \<Rightarrow> string option \<Rightarrow> endpoint \<Rightarrow> http_reply \<times> endpoint" where
  "metrics_get path now after fetched e =
     (if path \<noteq> ''/metrics'' then (NotFound404, e)
      else if secs 5 \<le> now - ep_cached_at e then (case fetched of
          None \<Rightarrow> (Unavailable503, e)
        | Some p \<Rightarrow> (Served200 p, \<lparr>ep_payload = p, ep_cached_at = after\<rparr>))
      else (Served200 (ep_payload e), e))"

end
