(* ===== verification/MetricsProps.thy ===== *)
theory MetricsProps
  imports Metrics Guarantees
begin

text \<open>
  What the monitoring page says: the totals it collects are cumulative histograms, its counters
  and its gauge of jobs add up to the tables, and it can always be rendered.
\<close>

section \<open>What the totals hold\<close>

definition row_key_of :: "string list \<Rightarrow> observation \<Rightarrow> string \<times> string" where
  "row_key_of ws x = (label_of ws (ob_worker_id x), ob_event x)"

definition rows_total :: "string list \<Rightarrow> string \<times> string \<Rightarrow> (observation \<times> int) list \<Rightarrow> int" where
  "rows_total ws k xs = (\<Sum>(x, a) \<leftarrow> xs. if row_key_of ws x = k then total x else 0)"

definition cumulative :: "int \<times> int \<times> int list \<Rightarrow> bool" where
  "cumulative v \<longleftrightarrow> length (snd (snd v)) = length metric_buckets \<and> sorted (snd (snd v)) \<and>
     (\<forall>b \<in> set (snd (snd v)). 0 \<le> b \<and> b \<le> fst v)"

lemma bounds_agree: "metric_buckets = observe_bounds"
  by (simp add: metric_buckets_def observe_bounds_def)

lemma cumulative_add:
  assumes "cumulative (n, s, bs)" and "hist_ok x"
  shows "length bs = length (buckets x)" and "cumulative (n + total x, s', map2 (+) bs (buckets x))"
proof -
  show len: "length bs = length (buckets x)"
    using assms by (simp add: cumulative_def hist_ok_def bounds_agree)
  have "0 \<le> a + b \<and> a + b \<le> n + total x" if "(a, b) \<in> set (zip bs (buckets x))" for a b
    using set_zip_leftD [OF that] set_zip_rightD [OF that] assms by (auto simp: cumulative_def hist_ok_def add_mono)
  then show "cumulative (n + total x, s', map2 (+) bs (buckets x))"
    using assms len sorted_map2_plus [of bs "buckets x"] by (auto simp: cumulative_def hist_ok_def)
qed

lemma collect_totals:
  assumes "list_all (hist_ok \<circ> fst) xs" and "\<And>k v. t k = Some v \<Longrightarrow> cumulative v"
  shows "\<exists>t'. collect ws xs t = Some t' \<and> (\<forall>k v. t' k = Some v \<longrightarrow> cumulative v) \<and>
    (\<forall>k. map_option fst (t' k) = map_option (\<lambda>v. fst v + rows_total ws k xs) (t k))"
  using assms
proof (induction xs arbitrary: t)
  case Nil
  then show ?case by (auto simp: rows_total_def intro!: exI [of _ t] option.map_cong)
next
  case (Cons xa xs)
  obtain x a where xa: "xa = (x, a)" by fastforce
  let ?k = "row_key_of ws x"
  have x: "hist_ok x" and xs: "list_all (hist_ok \<circ> fst) xs" using Cons.prems(1) xa by (simp_all add: comp_def)
  have key: "(label_of ws (ob_worker_id x), ob_event x) = ?k" by (simp add: row_key_of_def)
  show ?case
  proof (cases "t ?k")
    case None
    from Cons.IH [where t = t, OF xs] Cons.prems(2) obtain t' where t': "collect ws xs t = Some t'"
      "\<forall>k v. t' k = Some v \<longrightarrow> cumulative v"
      "\<forall>k. map_option fst (t' k) = map_option (\<lambda>v. fst v + rows_total ws k xs) (t k)" by blast
    have "map_option (\<lambda>v. fst v + rows_total ws k xs) (t k) = map_option (\<lambda>v. fst v + rows_total ws k (xa # xs)) (t k)" for k
      using None by (cases "k = ?k") (auto simp: rows_total_def xa)
    with t' None key show ?thesis by (auto simp: xa Let_def)
  next
    case (Some v)
    obtain n s bs where v: "v = (n, s, bs)" by (cases v) auto
    let ?v = "(n + total x, s + seconds_sum x, map2 (+) bs (buckets x))"
    note c = cumulative_add [OF Cons.prems(2) [OF Some, unfolded v] x]
    have "cumulative u" if "(t(?k \<mapsto> ?v)) k = Some u" for k u
      using that c(2) Cons.prems(2) by (auto split: if_splits)
    with Cons.IH [where t = "t(?k \<mapsto> ?v)", OF xs] obtain t' where t': "collect ws xs (t(?k \<mapsto> ?v)) = Some t'"
      "\<forall>k v. t' k = Some v \<longrightarrow> cumulative v"
      "\<forall>k. map_option fst (t' k) = map_option (\<lambda>v. fst v + rows_total ws k xs) ((t(?k \<mapsto> ?v)) k)" by blast
    have "map_option (\<lambda>v. fst v + rows_total ws k xs) ((t(?k \<mapsto> ?v)) k) = map_option (\<lambda>v. fst v + rows_total ws k (xa # xs)) (t k)" for k
      using Some v by (cases "k = ?k") (auto simp: rows_total_def xa)
    with t' Some v key c(1) show ?thesis by (auto simp: xa Let_def)
  qed
qed

text \<open>Over all labels, nothing is counted twice and nothing is left out.\<close>

lemma label_in: "label_of ws w \<in> set (metric_labels ws)"
  by (simp add: label_of_def metric_labels_def)

lemma sum_no_label: "l \<notin> set ls \<Longrightarrow> (\<Sum>w \<leftarrow> ls. if l = w then c else 0) = (0 :: int)"
  by (induction ls) auto

lemma sum_one_label: "distinct ls \<Longrightarrow> l \<in> set ls \<Longrightarrow> (\<Sum>w \<leftarrow> ls. if l = w then c else 0) = (c :: int)"
  by (induction ls) (auto simp: sum_no_label)

lemma labels_total:
  assumes "distinct (metric_labels ws)"
  shows "(\<Sum>w \<leftarrow> metric_labels ws. rows_total ws (w, e) xs) = event_total e (map fst xs)"
proof (induction xs)
  case Nil
  show ?case by (simp add: rows_total_def event_total_def sum_list_0)
next
  case (Cons xa xs)
  obtain x a where xa: "xa = (x, a)" by fastforce
  have "(\<Sum>w \<leftarrow> metric_labels ws. rows_total ws (w, e) (xa # xs)) =
      (\<Sum>w \<leftarrow> metric_labels ws. (if label_of ws (ob_worker_id x) = w then (if ob_event x = e then total x else 0) else 0)) +
      (\<Sum>w \<leftarrow> metric_labels ws. rows_total ws (w, e) xs)"
    by (auto simp: rows_total_def row_key_of_def xa sum_list_addf [symmetric] intro!: arg_cong [where f = sum_list])
  with Cons.IH sum_one_label [OF assms label_in] show ?case by (simp add: event_total_def xa)
qed

section \<open>The page adds up\<close>

text \<open>The sum of the samples of a metric.\<close>

fun line_value :: "string \<Rightarrow> line \<Rightarrow> rat" where
  "line_value n (Sample m labels (Value x)) = (if m = n then x else 0)"
| "line_value n _ = 0"

definition sum_samples :: "string \<Rightarrow> line list \<Rightarrow> rat" where
  "sum_samples n ls = sum_list (map (line_value n) ls)"

lemma sum_samples_simps [simp]:
  "sum_samples n [] = 0"
  "sum_samples n (l # ls) = line_value n l + sum_samples n ls"
  "sum_samples n (ls @ ms) = sum_samples n ls + sum_samples n ms"
  by (simp_all add: sum_samples_def)

text \<open>The names a list of lines has samples of.\<close>

definition sample_names :: "line list \<Rightarrow> string set" where
  "sample_names ls = {m. \<exists>labels v. Sample m labels v \<in> set ls}"

lemma sample_names_simps [simp]:
  "sample_names [] = {}"
  "sample_names (Define m k h # ls) = sample_names ls"
  "sample_names (Sample m labels v # ls) = insert m (sample_names ls)"
  "sample_names (ls @ ms) = sample_names ls \<union> sample_names ms"
  "sample_names (gauge m h v) = {m}"
  by (auto simp: sample_names_def gauge_def)

lemma sample_names_concat [simp]: "sample_names (concat lss) = (\<Union>ls \<in> set lss. sample_names ls)"
  by (auto simp: sample_names_def)

lemma line_value_other: "n \<noteq> m \<Longrightarrow> line_value n (Sample m labels v) = 0"
  by (cases v) simp_all

lemma sum_samples_other: "n \<notin> sample_names ls \<Longrightarrow> sum_samples n ls = 0"
proof (induction ls)
  case (Cons l ls)
  then show ?case by (cases l) (auto simp: line_value_other)
qed simp

lemma sample_of_samples: "Sample m labels v \<in> set (samples ms ls vs) \<Longrightarrow> m \<in> fst ` set ms"
  by (auto simp: samples_def dest: set_zip_leftD)

definition worker_names :: "string set" where
  "worker_names = fst ` set (worker_metrics @ policy_metrics)"

lemma sample_names_lines:
  "sample_names (storage_lines st) \<subseteq> range (\<lambda>k. ''storage_'' @ k)"
  "sample_names (outbox_lines sn) = {''outbox_pending'', ''outbox_oldest_seconds''}"
  "sample_names (define_all ms) = {}"
  "sample_names (worker_lines sn pols wr) \<subseteq> worker_names"
  "sample_names (completion_lines sn) = {''last_completion_age_seconds''}"
  using sample_of_samples
  by (auto simp: storage_lines_def outbox_lines_def completion_lines_def define_all_def sample_names_def gauge_def
      worker_lines_def worker_names_def image_Un Let_def split: option.splits prod.splits)

lemma sum_labelled:
  "sum_samples n (map (\<lambda>w. Sample n (labels w) (case t (w, e) of None \<Rightarrow> Missing | Some (c, _, _) \<Rightarrow> num c)) ws) =
     of_int (\<Sum>w \<leftarrow> ws. case t (w, e) of None \<Rightarrow> 0 | Some v \<Rightarrow> fst v)"
  by (induction ws) (simp_all add: num_def split: option.split prod.split)

lemma sum_unlabelled:
  "n \<noteq> m \<Longrightarrow> sum_samples n (map (\<lambda>w. Sample m (labels w) (v w)) ws) = 0"
  by (rule sum_samples_other) (auto simp: sample_names_def)

lemma sum_no_name: "n \<notin> set (map snd cs) \<Longrightarrow> (\<Sum>(e', n') \<leftarrow> cs. if n' = n then c e' else 0) = (0 :: rat)"
  by (induction cs) auto

lemma sum_one_name:
  "(e, n) \<in> set cs \<Longrightarrow> distinct (map snd cs) \<Longrightarrow> (\<Sum>(e', n') \<leftarrow> cs. if n' = n then c e' else 0) = (c e :: rat)"
proof (induction cs)
  case (Cons x cs)
  show ?case
  proof (cases "x = (e, n)")
    case True
    with Cons.prems show ?thesis by (simp add: sum_no_name)
  next
    case False
    with Cons.prems(1) have "(e, n) \<in> set cs" by simp
    moreover from this Cons.prems(2) have "n \<noteq> snd x"
      using image_eqI [of n snd "(e, n)" "set cs"] by (metis distinct.simps(2) list.map(2) list.set_map snd_conv)
    ultimately show ?thesis using Cons by (auto simp: split_beta)
  qed
qed simp

lemma sum_counter:
  assumes "(e, n) \<in> set counters"
  shows "sum_samples (n @ ''_total'') (counter_lines ws t) =
    of_int (\<Sum>w \<leftarrow> metric_labels ws. case t (w, e) of None \<Rightarrow> 0 | Some v \<Rightarrow> fst v)"
proof -
  have others: "sum_samples n (map (\<lambda>w. Sample m [(''worker_id'', w)] (case t (w, e) of None \<Rightarrow> Missing | Some (c, _, _) \<Rightarrow> num c))
      (metric_labels ws)) = (if m = n then of_int (\<Sum>w \<leftarrow> metric_labels ws. case t (w, e) of None \<Rightarrow> 0 | Some v \<Rightarrow> fst v) else 0)" for n m e
    by (cases "n = m") (use sum_labelled [of m "\<lambda>w. [(''worker_id'', w)]" t e "metric_labels ws"] in \<open>simp_all add: sum_unlabelled\<close>)
  have sum: "sum_samples (n @ ''_total'') (concat (map (\<lambda>(e, n). Define (n @ ''_total'') ''counter''
        (''Durable '' @ spaced e @ '' observations since monitoring migration; survives job cleanup.'') #
        map (\<lambda>w. Sample (n @ ''_total'') [(''worker_id'', w)]
          (case t (w, e) of None \<Rightarrow> Missing | Some (c, _, _) \<Rightarrow> num c)) (metric_labels ws)) cs)) =
      (\<Sum>(e', n') \<leftarrow> cs. if n' = n
        then of_int (\<Sum>w \<leftarrow> metric_labels ws. case t (w, e') of None \<Rightarrow> 0 | Some v \<Rightarrow> fst v) else 0)" for cs
    by (induction cs) (auto simp: others)
  have "sum_samples (n @ ''_total'') (counter_lines ws t) = (\<Sum>(e', n') \<leftarrow> counters. if n' = n
      then of_int (\<Sum>w \<leftarrow> metric_labels ws. case t (w, e') of None \<Rightarrow> 0 | Some v \<Rightarrow> fst v) else 0)"
    unfolding counter_lines_def by (rule sum)
  also have "\<dots> = of_int (\<Sum>w \<leftarrow> metric_labels ws. case t (w, e) of None \<Rightarrow> 0 | Some v \<Rightarrow> fst v)"
    using assms by (rule sum_one_name) (simp add: counters_def)
  finally show ?thesis .
qed

definition histogram_names :: "string set" where
  "histogram_names = (\<Union>h \<in> set histograms. {snd h @ ''_bucket'', snd h @ ''_count'', snd h @ ''_sum''})"

lemma sample_of_histogram:
  "Sample m labels x \<in> set (histogram_samples n w v) \<Longrightarrow> m \<in> {n @ ''_bucket'', n @ ''_count'', n @ ''_sum''}"
  by (auto simp: histogram_samples_def split: prod.splits dest: set_zip_leftD)

lemma sample_of_family:
  "Sample m labels x \<in> set (histogram_family ws t e n) \<Longrightarrow> m \<in> {n @ ''_bucket'', n @ ''_count'', n @ ''_sum''}"
  unfolding histogram_family_def by (auto split: option.split_asm dest!: sample_of_histogram)

lemma sample_of_histograms:
  assumes "Sample m labels x \<in> set (histogram_lines ws t)"
  shows "m \<in> histogram_names"
proof -
  obtain e n where "(e, n) \<in> set histograms" "Sample m labels x \<in> set (histogram_family ws t e n)"
    using assms by (auto simp: histogram_lines_def)
  with sample_of_family [OF this(2)] show ?thesis
    unfolding histogram_names_def by (intro UN_I [of "(e, n)"]) simp_all
qed

definition other_names :: "snapshot \<Rightarrow> string set" where
  "other_names sn = sample_names (job_lines sn) \<union> range (\<lambda>k. ''storage_'' @ k) \<union> worker_names \<union>
    {''outbox_pending'', ''outbox_oldest_seconds'', ''last_completion_age_seconds''} \<union> histogram_names"

lemma counter_only:
  assumes "(e, n) \<in> set counters"
  shows "n @ ''_total'' \<notin> other_names sn"
proof -
  have "n @ ''_total'' \<notin> histogram_names"
    using assms by (auto simp: histogram_names_def histograms_def counters_def)
  moreover have "n @ ''_total'' \<notin> worker_names"
    using assms by (auto simp: worker_names_def worker_metrics_def policy_metrics_def counters_def)
  moreover have "n @ ''_total'' \<notin> range (\<lambda>k. ''storage_'' @ k)" using assms by (auto simp: counters_def)
  moreover have "n @ ''_total'' \<notin> sample_names (job_lines sn)"
    using assms by (auto simp: counters_def job_lines_def)
  moreover have "n @ ''_total'' \<notin> {''outbox_pending'', ''outbox_oldest_seconds'', ''last_completion_age_seconds''}"
    using assms by (auto simp: counters_def)
  ultimately show ?thesis unfolding other_names_def by simp
qed

lemma other_lines_names:
  "sample_names (job_lines sn) \<subseteq> other_names sn"
  "sample_names (storage_lines st) \<subseteq> other_names sn"
  "sample_names (outbox_lines sn) \<subseteq> other_names sn"
  "sample_names (define_all ms) \<subseteq> other_names sn"
  "sample_names (concat (map (worker_lines sn pols) us)) \<subseteq> other_names sn"
  "sample_names (histogram_lines ws t) \<subseteq> other_names sn"
  "sample_names (completion_lines sn) \<subseteq> other_names sn"
proof -
  show "sample_names (concat (map (worker_lines sn pols) us)) \<subseteq> other_names sn"
    unfolding sample_names_concat other_names_def set_map using sample_names_lines(4) by blast
  show "sample_names (histogram_lines ws t) \<subseteq> other_names sn"
    unfolding other_names_def using sample_of_histograms by (auto simp: sample_names_def)
qed (use sample_names_lines(1) in \<open>auto simp: other_names_def sample_names_lines\<close>)

lemma other_lines:
  assumes "(e, n) \<in> set counters"
  shows "sum_samples (n @ ''_total'') (job_lines sn) = 0" "sum_samples (n @ ''_total'') (storage_lines st) = 0"
    "sum_samples (n @ ''_total'') (outbox_lines sn) = 0" "sum_samples (n @ ''_total'') (define_all ms) = 0"
    "sum_samples (n @ ''_total'') (concat (map (worker_lines sn pols) us)) = 0"
    "sum_samples (n @ ''_total'') (histogram_lines ws t) = 0" "sum_samples (n @ ''_total'') (completion_lines sn) = 0"
  by (rule sum_samples_other, rule contra_subsetD [OF _ counter_only [OF assms, of sn]], rule other_lines_names)+

lemma labels_given:
  assumes "\<And>w. w \<in> set ls \<Longrightarrow> map_option fst (t (w, e)) = Some (f w)"
  shows "(\<Sum>w \<leftarrow> ls. case t (w, e) of None \<Rightarrow> 0 | Some v \<Rightarrow> fst v) = sum_list (map f ls)"
  by (intro arg_cong [where f = sum_list] map_cong refl) (use assms in \<open>fastforce split: option.split\<close>)

text \<open>The page is rendered, and each counter adds up to its total in the table.\<close>

lemma page_counters:
  assumes "obs_ok obs" and "sn_observations sn = map (\<lambda>x. (x, a x)) obs" and "distinct (metric_labels (map fst ws))"
  shows "\<exists>t ls. render_metrics sn ws pols st = Some ls \<and>
    collect (map fst ws) (sn_observations sn) (zero_totals (map fst ws)) = Some t \<and> (\<forall>k v. t k = Some v \<longrightarrow> cumulative v) \<and>
    (\<forall>(e, n) \<in> set counters. sum_samples (n @ ''_total'') ls = of_int (event_total e obs))"
proof -
  let ?ws = "map fst ws" and ?xs = "sn_observations sn"
  have "cumulative v" if "zero_totals ?ws k = Some v" for k v
    using that by (auto simp: zero_totals_def cumulative_def split: if_splits)
  with collect_totals [of ?xs "zero_totals ?ws" ?ws] assms(1,2) obtain t where t: "collect ?ws ?xs (zero_totals ?ws) = Some t"
    "\<forall>k v. t k = Some v \<longrightarrow> cumulative v"
    "\<And>k. map_option fst (t k) = map_option (\<lambda>v. fst v + rows_total ?ws k ?xs) (zero_totals ?ws k)"
    by (auto simp: obs_ok_def list_all_iff)
  obtain ls where ls: "render_metrics sn ws pols st = Some ls" using t(1) by (simp add: render_metrics_def)
  have "sum_samples (n @ ''_total'') ls = of_int (event_total e obs)" if c: "(e, n) \<in> set counters" for e n
  proof -
    have "map_option fst (t (w, e)) = Some (rows_total ?ws (w, e) ?xs)" if "w \<in> set (metric_labels ?ws)" for w
      using t(3) [of "(w, e)"] that image_eqI [of e fst "(e, n)" "set counters"] c by (simp add: zero_totals_def)
    then have "(\<Sum>w \<leftarrow> metric_labels ?ws. case t (w, e) of None \<Rightarrow> 0 | Some v \<Rightarrow> fst v) = event_total e (map fst ?xs)"
      using labels_total [OF assms(3)] by (subst labels_given) auto
    moreover have "map fst ?xs = obs" by (simp add: assms(2) comp_def)
    ultimately have total: "sum_samples (n @ ''_total'') (counter_lines ?ws t) = of_int (event_total e obs)"
      using sum_counter [OF c] by simp
    have "sum_samples (n @ ''_total'') ls = sum_samples (n @ ''_total'') (counter_lines ?ws t)"
      using other_lines [OF c] ls t(1) by (auto simp: render_metrics_def)
    with total show ?thesis by simp
  qed
  with t ls show ?thesis by blast
qed

text \<open>The gauge \<open>jobs\<close> is the number of rows.\<close>

lemma find_status:
  "find (\<lambda>r. sr_status r = s) (map (status_report_of now rs) l) = (if s \<in> set l then Some (status_report_of now rs s) else None)"
  by (induction l) (auto simp: status_report_of_def Let_def)

lemma jobs_field: "status_field (metrics_snapshot cfg now d) s sr_jobs = int (length (filter (\<lambda>r. status r = s) (jobs d)))"
  by (auto simp: status_field_def metrics_snapshot_def metrics_jobs_def find_status status_report_of_def Let_def filter_empty_conv)

lemma statuses_partition: "(\<Sum>s \<leftarrow> [Accepted, Downloading, Queued, Running, Done, Failed]. length (filter (\<lambda>r. status r = s) rs)) = length rs"
proof (induction rs)
  case (Cons r rs)
  then show ?case by (cases "status r") simp_all
qed simp

lemma jobs_gauge:
  "sum_samples ''jobs'' (job_lines (metrics_snapshot cfg now d)) = of_nat (length (jobs d))"
proof -
  have "sum_samples ''jobs'' (job_lines (metrics_snapshot cfg now d)) =
      of_nat (\<Sum>s \<leftarrow> [Accepted, Downloading, Queued, Running, Done, Failed]. length (filter (\<lambda>r. status r = s) (jobs d)))"
    by (simp add: job_lines_def gauge_def line_value_other jobs_field num_def)
  then show ?thesis by (simp only: statuses_partition)
qed

lemma jobs_only:
  "''jobs'' \<notin> sample_names (storage_lines st)" "''jobs'' \<notin> sample_names (outbox_lines sn)"
  "''jobs'' \<notin> sample_names (define_all ms)" "''jobs'' \<notin> sample_names (concat (map (worker_lines sn pols) us))"
  "''jobs'' \<notin> sample_names (counter_lines ws t)" "''jobs'' \<notin> sample_names (histogram_lines ws t)"
  "''jobs'' \<notin> sample_names (completion_lines sn)"
proof -
  show "''jobs'' \<notin> sample_names (storage_lines st)" using sample_names_lines(1) [of st] by auto
  have "''jobs'' \<notin> worker_names" by (simp add: worker_names_def worker_metrics_def policy_metrics_def)
  then show "''jobs'' \<notin> sample_names (concat (map (worker_lines sn pols) us))"
    unfolding sample_names_concat set_map using sample_names_lines(4) by blast
  have "''jobs'' \<notin> histogram_names" by (simp add: histogram_names_def histograms_def)
  then show "''jobs'' \<notin> sample_names (histogram_lines ws t)"
    using sample_of_histograms by (auto simp: sample_names_def)
  show "''jobs'' \<notin> sample_names (counter_lines ws t)" by (auto simp: counter_lines_def counters_def sample_names_def)
qed (simp_all add: sample_names_lines)

section \<open>The page can be rendered\<close>

definition no_missing :: "line list \<Rightarrow> bool" where
  "no_missing ls \<longleftrightarrow> (\<forall>n labels. Sample n labels Missing \<notin> set ls)"

lemma no_missing_text: "no_missing ls \<Longrightarrow> metrics_text shows ls \<noteq> None"
proof (induction ls)
  case (Cons l ls)
  have "line_texts shows l \<noteq> None"
  proof (cases l)
    case (Sample n labels v)
    with Cons.prems show ?thesis by (cases v) (auto simp: no_missing_def)
  qed simp
  with Cons show ?case by (auto simp: no_missing_def)
qed simp

lemma no_missing_simps [simp]:
  "no_missing []" "no_missing (Define n k h # ls) = no_missing ls"
  "no_missing (Sample n labels v # ls) \<longleftrightarrow> v \<noteq> Missing \<and> no_missing ls"
  "no_missing (ls @ ms) \<longleftrightarrow> no_missing ls \<and> no_missing ms"
  "no_missing (concat lss) \<longleftrightarrow> (\<forall>ls \<in> set lss. no_missing ls)"
  "no_missing (gauge n h v) \<longleftrightarrow> v \<noteq> Missing"
  "num i \<noteq> Missing" "age i \<noteq> Missing"
  by (auto simp: no_missing_def gauge_def num_def age_def)

text \<open>A running job has its start, so every group of attempts has an age.\<close>

lemma running_age:
  assumes "tables_ok d" and "a \<in> set (metrics_running now d)"
  shows "rn_age a \<noteq> None"
proof -
  let ?rs = "filter (live now) (jobs d)"
  obtain r where r: "r \<in> set ?rs" and a: "a = running_row_of now ?rs (before_slash (lease_owner r))"
    using assms(2) by (auto simp: metrics_running_def Let_def)
  then have "started_at r \<noteq> None" using assms(1) by (auto simp: tables_ok_def job_ok_def live_def)
  then have "List.map_filter attempt_start (filter (\<lambda>q. before_slash (lease_owner q) = before_slash (lease_owner r)) ?rs) \<noteq> []"
    using r by (auto simp: List.map_filter_def filter_empty_conv attempt_start_def split: option.splits intro!: bexI [of _ r])
  then show ?thesis by (simp add: a running_row_of_def Let_def)
qed

lemma no_missing_workers:
  assumes "tables_ok d"
  shows "no_missing (worker_lines (metrics_snapshot cfg now d) pols wr)"
proof -
  let ?sn = "metrics_snapshot cfg now d"
  have "rn_age a \<noteq> None" if "active_row ?sn w = Some a" for w a
    using that running_age [OF assms, of a now]
    by (auto simp: active_row_def metrics_snapshot_def find_Some_iff)
  then have vs: "Missing \<notin> set (worker_values ?sn w)" for w
    by (cases "active_row ?sn w") (force simp: worker_values_def Let_def num_def age_def split: option.splits)+
  have ps: "Missing \<notin> set (policy_values ?sn p w)" for p w
    by (simp add: policy_values_def num_def)
  have "Sample n labels Missing \<notin> set (samples ms ls us)" if "Missing \<notin> set us" for n labels ms ls us
    using that by (auto simp: samples_def dest: set_zip_rightD)
  with vs ps show ?thesis
    by (auto simp: worker_lines_def Let_def no_missing_def split: option.splits prod.splits)
qed

lemma no_missing_histograms: "no_missing (histogram_lines ws t)"
proof -
  have "no_missing (histogram_samples n w v)" for n w v
    by (auto simp: histogram_samples_def no_missing_def num_def age_def split: prod.splits)
  then show ?thesis by (auto simp: histogram_lines_def histogram_family_def split: option.splits)
qed

lemma no_missing_counters:
  assumes "\<And>w e n. w \<in> set (metric_labels ws) \<Longrightarrow> (e, n) \<in> set counters \<Longrightarrow> t (w, e) \<noteq> None"
  shows "no_missing (counter_lines ws t)"
  using assms by (fastforce simp: counter_lines_def no_missing_def num_def split: option.splits)

lemma collect_keeps_keys: "collect ws xs t = Some t' \<Longrightarrow> t k \<noteq> None \<Longrightarrow> t' k \<noteq> None"
proof (induction xs arbitrary: t)
  case (Cons xa xs)
  obtain x a where "xa = (x, a)" by fastforce
  with Cons show ?case by (fastforce simp: Let_def split: option.splits prod.splits if_splits)
qed simp

lemma page_rendered:
  assumes "tables_ok d" and "render_metrics (metrics_snapshot cfg now d) ws pols st = Some ls"
  shows "no_missing ls"
proof -
  let ?sn = "metrics_snapshot cfg now d" and ?ws = "map fst ws"
  obtain t where t: "collect ?ws (sn_observations ?sn) (zero_totals ?ws) = Some t"
    and ls: "ls = job_lines ?sn @ storage_lines st @ outbox_lines ?sn @ define_all worker_metrics @
      (if pols \<noteq> [] then define_all policy_metrics else []) @ concat (map (worker_lines ?sn pols) (sort_key fst ws)) @
      counter_lines ?ws t @ histogram_lines ?ws t @ completion_lines ?sn"
    using assms(2) by (auto simp: render_metrics_def split: option.splits)
  have "t (w, e) \<noteq> None" if "w \<in> set (metric_labels ?ws)" "(e, n) \<in> set counters" for w e n
    using collect_keeps_keys [OF t, of "(w, e)"] that image_eqI [of e fst "(e, n)" "set counters"]
    by (auto simp: zero_totals_def)
  then have "no_missing (counter_lines ?ws t)" by (rule no_missing_counters)
  moreover have "no_missing (define_all ms)" for ms by (auto simp: define_all_def no_missing_def)
  moreover have "no_missing (job_lines ?sn)" by (auto simp: job_lines_def no_missing_def gauge_def num_def age_def)
  moreover have "no_missing (storage_lines st)" by (auto simp: storage_lines_def)
  moreover have "no_missing (completion_lines ?sn)" by (auto simp: completion_lines_def age_def split: list.split)
  ultimately show ?thesis
    by (simp add: ls no_missing_workers [OF assms(1)] no_missing_histograms outbox_lines_def)
qed

section \<open>The page of a reachable state\<close>

text \<open>
  C32: the monitoring page tells the truth about jobs. In every reachable state, for any labelled
  workers without duplicates, the page is rendered without error; its gauge \<open>jobs\<close> sums to the
  number of retained jobs, and over all worker labels the submissions it reports are its
  completions, failures and cancellations plus the jobs that are still open, whatever cleanup
  has deleted.
\<close>

theorem monitoring_adds_up:
  assumes "(store_step h cfg)\<^sup>*\<^sup>* init_sys s" and "0 < default_max_attempts cfg"
    and "distinct (metric_labels (map fst ws))"
  shows "\<exists>ls. render_metrics (metrics_snapshot cfg now (sdb s)) ws pols st = Some ls \<and> metrics_text shows ls \<noteq> None \<and>
    sum_samples ''jobs'' ls = of_nat (length (jobs (sdb s))) \<and>
    sum_samples ''jobs_submitted_total'' ls = sum_samples ''jobs_completed_total'' ls + sum_samples ''jobs_failed_total'' ls +
      sum_samples ''jobs_cancelled_total'' ls + of_nat (open_jobs (jobs (sdb s)))"
proof -
  let ?sn = "metrics_snapshot cfg now (sdb s)"
  note ok = reachable_sys_ok [OF assms(1,2), unfolded sys_ok_def]
  then have tables: "tables_ok (sdb s)" by simp
  then have obs: "obs_ok (observations (sdb s))" by (simp add: tables_ok_def)
  have "sn_observations ?sn = map (\<lambda>x. (x, now - last_at x)) (observations (sdb s))" by (simp add: metrics_snapshot_def)
  from page_counters [OF obs this assms(3), of pols st] obtain t ls where ls: "render_metrics ?sn ws pols st = Some ls"
    and c: "\<forall>(e, n) \<in> set counters. sum_samples (n @ ''_total'') ls = of_int (event_total e (observations (sdb s)))" by blast
  have total: "sum_samples (n @ ''_total'') ls = of_int (event_total e (observations (sdb s)))"
    if "(e, n) \<in> set counters" for e n using c that by blast
  have "sum_samples ''jobs'' ls = of_nat (length (jobs (sdb s)))"
    using ls jobs_gauge [of cfg now "sdb s"] jobs_only
    by (auto simp: render_metrics_def sum_samples_other simp del: sample_names_concat split: option.splits)
  moreover have "metrics_text shows ls \<noteq> None"
    by (rule no_missing_text [OF page_rendered [OF tables ls]])
  moreover have "event_total ''submitted'' (observations (sdb s)) = event_total ''completed'' (observations (sdb s)) +
      event_total ''failed'' (observations (sdb s)) + event_total ''cancelled'' (observations (sdb s)) + int (open_jobs (jobs (sdb s)))"
    using ok by (simp add: balanced_def ended_total_def)
  ultimately show ?thesis
    using ls total [of "''submitted''" "''jobs_submitted''"] total [of "''completed''" "''jobs_completed''"]
      total [of "''failed''" "''jobs_failed''"] total [of "''cancelled''" "''jobs_cancelled''"]
    by (simp add: counters_def)
qed

theorem monitoring_adds_up_witness:
  "\<exists>ls. render_metrics (metrics_snapshot (demo_cfg Postgres) 9 (sdb completed_sys)) [(''cpu'', ''preferred'')] [] [] = Some ls \<and>
     sum_samples ''jobs'' ls = 1 \<and>
     sum_samples ''jobs_submitted_total'' ls = sum_samples ''jobs_completed_total'' ls + sum_samples ''jobs_failed_total'' ls +
       sum_samples ''jobs_cancelled_total'' ls"
proof -
  have d: "distinct (metric_labels (map fst [(''cpu'', ''preferred'')]))" by (simp add: metric_labels_def)
  have n: "length (jobs (sdb completed_sys)) = 1" and o: "open_jobs (jobs (sdb completed_sys)) = 0" by code_simp+
  from monitoring_adds_up [OF completed_sys_reachable demo_budget d, of 9 "[]" "[]"] show ?thesis
    unfolding n o by auto
qed

end
