(* ===== verification/Provision.thy ===== *)
theory Provision
  imports Broker
begin

text \<open>
  \<open>scripts/provision_rabbitmq.py\<close>: the bundle of certificates, accounts and permissions that
  connects the service and its workers to RabbitMQ. OpenSSL, the system's random bytes and
  SHA-256 are parameters. The consumers of theory Broker read what it writes.
\<close>

section \<open>Bytes as text\<close>

definition b64_alphabet :: string where
  "b64_alphabet = ''ABCDEFGHIJKLMNOPQRSTUVWXYZabcdefghijklmnopqrstuvwxyz0123456789+/''"

definition b64_char :: "nat \<Rightarrow> char" where
  "b64_char n = b64_alphabet ! n"

text \<open>\<open>base64.b64encode\<close>\<close>

fun b64encode :: "string \<Rightarrow> string" where
  "b64encode [] = []"
| "b64encode [a] = (let x = of_char a :: nat in [b64_char (x div 4), b64_char (x mod 4 * 16), CHR ''='', CHR ''=''])"
| "b64encode [a, b] = (let x = of_char a :: nat; y = of_char b in
     [b64_char (x div 4), b64_char (x mod 4 * 16 + y div 16), b64_char (y mod 16 * 4), CHR ''=''])"
| "b64encode (a # b # c # cs) = (let x = of_char a :: nat; y = of_char b; z = of_char c in
     [b64_char (x div 4), b64_char (x mod 4 * 16 + y div 16), b64_char (y mod 16 * 4 + z div 64), b64_char (z mod 64)] @
     b64encode cs)"

text \<open>\<open>secrets.token_urlsafe\<close> of the random bytes it draws\<close>

definition url_char :: "char \<Rightarrow> char" where
  "url_char c = (if c = CHR ''+'' then CHR ''-'' else if c = CHR ''/'' then CHR ''_'' else c)"

definition token_urlsafe :: "string \<Rightarrow> string" where
  "token_urlsafe bytes = rev (dropWhile (\<lambda>c. c = CHR ''='') (rev (map url_char (b64encode bytes))))"

definition password_hash :: "(string \<Rightarrow> string) \<Rightarrow> string \<Rightarrow> string \<Rightarrow> string" where
  "password_hash sha salt password = b64encode (salt @ sha (salt @ password))"

section \<open>Files\<close>

text \<open>
  Paths are relative to the bundle, by component; \<open>[]\<close> is the bundle itself. Modes are the
  numbers of the octal \<open>700\<close>, \<open>755\<close>, \<open>644\<close> and \<open>600\<close>; a file is created with the process's
  default mode, here \<open>644\<close>.
\<close>

type_synonym path = "string list"

datatype entry = Dir int | File int string

type_synonym tree = "(path \<times> entry) list"

datatype provision_error = InvalidHost | InvalidWorkers | PathExists path | PathMissing path | CertificateFailed

type_synonym step = "tree \<Rightarrow> provision_error option \<times> tree"

fun run_steps :: "step list \<Rightarrow> step" where
  "run_steps [] f = (None, f)"
| "run_steps (s # ss) f = (case s f of (Some e, f') \<Rightarrow> (Some e, f') | (None, f') \<Rightarrow> run_steps ss f')"

definition make_dir :: "path \<Rightarrow> int \<Rightarrow> step" where
  "make_dir p m f =
     (if map_of f p \<noteq> None \<or> (p \<noteq> [] \<and> last p \<in> {''.'', ''..''}) then (Some (PathExists p), f)
      else (None, AList.update p (Dir m) f))"

definition write_text :: "path \<Rightarrow> string \<Rightarrow> step" where
  "write_text p content f = (None, AList.update p
     (File (case map_of f p of Some (File m _) \<Rightarrow> m | _ \<Rightarrow> 420) content) f)"

definition change_mode :: "path \<Rightarrow> int \<Rightarrow> step" where
  "change_mode p m f = (case map_of f p of
     Some (File _ content) \<Rightarrow> (None, AList.update p (File m content) f)
   | Some (Dir _) \<Rightarrow> (None, AList.update p (Dir m) f)
   | None \<Rightarrow> (Some (PathMissing p), f))"

text \<open>What reads a file goes on with its content.\<close>

definition with_text :: "path \<Rightarrow> (string \<Rightarrow> step list) \<Rightarrow> step" where
  "with_text p next f = (case map_of f p of
     Some (File _ content) \<Rightarrow> run_steps (next content) f
   | _ \<Rightarrow> (Some (PathMissing p), f))"

text \<open>\<open>for file in server.iterdir(): file.chmod(0o644)\<close>\<close>

fun opened :: "path \<Rightarrow> entry \<Rightarrow> entry" where
  "opened [d, n] (File m content) = File (if d = ''server'' then 420 else m) content"
| "opened p e = e"

definition open_server :: step where
  "open_server f = (None, map (\<lambda>(p, e). (p, opened p e)) f)"

section \<open>The bundle\<close>

text \<open>
  \<open>openssl\<close> gives, for its arguments, the files it writes, or \<open>None\<close> when it fails. Of the
  random bytes, \<open>entropy k\<close> makes the password and \<open>salt k\<close> the hash of the \<open>k\<close>-th account.
\<close>

record toolbox =
  openssl :: "string list \<Rightarrow> (path \<times> string) list option"
  is_address :: "string \<Rightarrow> bool"
  sha256 :: "string \<Rightarrow> string"
  entropy :: "nat \<Rightarrow> string"
  salt :: "nat \<Rightarrow> string"

definition call_openssl :: "toolbox \<Rightarrow> string list \<Rightarrow> step" where
  "call_openssl t args f = (case openssl t args of
     None \<Rightarrow> (Some CertificateFailed, f)
   | Some files \<Rightarrow> run_steps (map (\<lambda>(p, c). write_text p c) files) f)"

definition newline :: string where
  "newline = [CHR 0x0A]"

definition ca_args :: "string list" where
  "ca_args = [''req'', ''-x509'', ''-newkey'', ''rsa:3072'', ''-nodes'', ''-days'', ''365'', ''-subj'',
     ''/CN=Transcriber RabbitMQ CA'', ''-keyout'', ''ca/ca.key'', ''-out'', ''ca/ca.crt'', ''-addext'',
     ''basicConstraints=critical,CA:TRUE'']"

definition request_args :: "string \<Rightarrow> string list" where
  "request_args host = [''req'', ''-newkey'', ''rsa:3072'', ''-nodes'', ''-subj'', ''/CN='' @ host, ''-keyout'',
     ''server/server.key'', ''-out'', ''ca/server.csr'']"

definition sign_args :: "string list" where
  "sign_args = [''x509'', ''-req'', ''-in'', ''ca/server.csr'', ''-CA'', ''ca/ca.crt'', ''-CAkey'', ''ca/ca.key'',
     ''-CAcreateserial'', ''-days'', ''365'', ''-extfile'', ''ca/extensions.cnf'', ''-out'', ''server/server.crt'']"

definition extensions :: "toolbox \<Rightarrow> string \<Rightarrow> string" where
  "extensions t host = ''subjectAltName='' @ (if is_address t host then ''IP:'' else ''DNS:'') @ host @
     '',DNS:transcriber-rabbitmq'' @ newline @ ''extendedKeyUsage=serverAuth'' @ newline"

text \<open>The accounts: directory, user name and the host they connect to.\<close>

definition accounts :: "string \<Rightarrow> string list \<Rightarrow> (string \<times> string \<times> string) list" where
  "accounts host ids = (''publisher'', ''transcriber-publisher'', ''transcriber-rabbitmq'') #
     map (\<lambda>w. (w, ''worker-'' @ w, host)) ids"

text \<open>The patterns of the permissions; \<open>dotted\<close> is a name with an escaped dot.\<close>

definition dotted :: "string \<Rightarrow> string" where
  "dotted n = ''^transcriber'' @ [CHR 0x5C] @ ''.'' @ n"

definition user_json :: "string \<Rightarrow> string \<Rightarrow> json" where
  "user_json username hash = JObj [(''name'', JStr username), (''password_hash'', JStr hash),
     (''hashing_algorithm'', JStr ''rabbit_password_hashing_sha256''), (''tags'', JList [])]"

definition permission_json :: "string \<Rightarrow> string \<Rightarrow> json" where
  "permission_json directory username = (let pub = (directory = ''publisher'') in
     JObj [(''user'', JStr username), (''vhost'', JStr ''transcriber''),
       (''configure'', JStr (if pub then dotted [] else ''^$'')),
       (''write'', JStr (if pub then dotted [] else dotted ''defer$'')),
       (''read'', JStr (if pub then dotted [] else dotted ''jobs$''))])"

definition connection_json :: "string \<Rightarrow> int \<Rightarrow> string \<Rightarrow> string \<Rightarrow> json" where
  "connection_json host port username password = JObj [(''host'', JStr host), (''port'', JInt port),
     (''virtual_host'', JStr ''transcriber''), (''username'', JStr username), (''password'', JStr password),
     (''tls'', JBool True)]"

definition account_steps :: "toolbox \<Rightarrow> int \<Rightarrow> string \<Rightarrow> nat \<times> string \<times> string \<times> string \<Rightarrow> step list" where
  "account_steps t port certificate a = (case a of (k, directory, username, host) \<Rightarrow>
     [make_dir [directory] 448,
      write_text [directory, ''connection.json'']
        (json_dumps (connection_json host port username (token_urlsafe (entropy t k))) @ newline),
      change_mode [directory, ''connection.json''] 384,
      write_text [directory, ''ca.crt''] certificate])"

definition users_of :: "toolbox \<Rightarrow> (nat \<times> string \<times> string \<times> string) list \<Rightarrow> json list" where
  "users_of t as = map (\<lambda>(k, directory, username, host).
     user_json username (password_hash (sha256 t) (salt t k) (token_urlsafe (entropy t k)))) as"

definition permissions_of :: "(nat \<times> string \<times> string \<times> string) list \<Rightarrow> json list" where
  "permissions_of as = map (\<lambda>(k, directory, username, host). permission_json directory username) as"

definition definitions_json :: "json list \<Rightarrow> json list \<Rightarrow> json" where
  "definitions_json users permissions = JObj [(''users'', JList users), (''permissions'', JList permissions),
     (''vhosts'', JList [JObj [(''name'', JStr ''transcriber'')]]),
     (''policies'', JList [JObj [(''vhost'', JStr ''transcriber''), (''name'', JStr ''safe-deferred-delivery''),
        (''pattern'', JStr (dotted ''retry$'')), (''apply-to'', JStr ''quorum_queues''), (''priority'', JInt 1),
        (''definition'', JObj [(''dead-letter-strategy'', JStr ''at-least-once''), (''overflow'', JStr ''reject-publish'')])]])]"

definition rabbitmq_conf :: string where
  "rabbitmq_conf = concat (map (\<lambda>l. l @ newline) [
     ''listeners.tcp = none'', ''listeners.ssl.default = 5671'', ''ssl_options.cacertfile = /etc/rabbitmq/ca.crt'',
     ''ssl_options.certfile = /etc/rabbitmq/server.crt'', ''ssl_options.keyfile = /etc/rabbitmq/server.key'',
     ''ssl_options.verify = verify_none'', ''ssl_options.fail_if_no_peer_cert = false'',
     ''definitions.import_backend = local_filesystem'', ''definitions.local.path = /etc/rabbitmq/definitions.json'',
     ''vm_memory_high_watermark.absolute = 256MiB'', ''disk_free_limit.absolute = 1GB'',
     ''consumer_timeout = 25200000'', ''log.console.level = warning''])"

text \<open>What is written once the accounts are known.\<close>

definition final_steps :: "toolbox \<Rightarrow> (nat \<times> string \<times> string \<times> string) list \<Rightarrow> step list" where
  "final_steps t as =
     [write_text [''server'', ''definitions.json'']
        (json_dumps (definitions_json (users_of t as) (permissions_of as)) @ newline),
      write_text [''server'', ''rabbitmq.conf''] rabbitmq_conf,
      open_server,
      change_mode [''ca'', ''ca.key''] 384]"

definition provision :: "toolbox \<Rightarrow> string \<Rightarrow> string list \<Rightarrow> int \<Rightarrow> step" where
  "provision t host ids port f =
     (if \<not> class_match id_char 1 253 host then (Some InvalidHost, f)
      else if ids = [] \<or> \<not> distinct ids \<or> \<not> list_all worker_id_ok ids then (Some InvalidWorkers, f)
      else run_steps
        [make_dir [] 448, make_dir [''server''] 493, make_dir [''ca''] 448,
         call_openssl t ca_args, call_openssl t (request_args host),
         write_text [''ca'', ''extensions.cnf''] (extensions t host), call_openssl t sign_args,
         with_text [''ca'', ''ca.crt''] (\<lambda>certificate. (let as = enumerate 0 (accounts host ids) in
           write_text [''server'', ''ca.crt''] certificate #
           concat (map (account_steps t port certificate) as) @ final_steps t as))] f)"

end
