(* ===== verification/ProvisionProps.thy ===== *)
theory ProvisionProps
  imports Provision
begin

text \<open>
  What a completed provisioning leaves: every account has its connection file, which the
  consumers' \<open>from_file\<close> accepts, and its user and permissions are among the definitions.
\<close>

section \<open>Steps\<close>

text \<open>A step leaves the paths in \<open>P\<close> as they are, and never removes a path.\<close>

definition leaves :: "(path \<Rightarrow> bool) \<Rightarrow> step \<Rightarrow> bool" where
  "leaves P s \<longleftrightarrow> (\<forall>f p. P p \<longrightarrow> map_of (snd (s f)) p = map_of f p)"

definition grows :: "step \<Rightarrow> bool" where
  "grows s \<longleftrightarrow> (\<forall>f p. map_of f p \<noteq> None \<longrightarrow> map_of (snd (s f)) p \<noteq> None)"

lemma run_steps_append:
  "run_steps (ss @ ts) f = (case run_steps ss f of (Some e, f') \<Rightarrow> (Some e, f') | (None, f') \<Rightarrow> run_steps ts f')"
  by (induction ss arbitrary: f) (auto split: prod.splits option.splits)

lemma run_steps_done:
  "run_steps (s # ss) f = (None, f') \<longleftrightarrow> (\<exists>g. s f = (None, g) \<and> run_steps ss g = (None, f'))"
  "run_steps (ss @ ts) f = (None, f') \<longleftrightarrow> (\<exists>g. run_steps ss f = (None, g) \<and> run_steps ts g = (None, f'))"
  by (auto simp: run_steps_append split: prod.splits option.splits)

lemma run_steps_grows: "list_all grows ss \<Longrightarrow> grows (run_steps ss)"
proof (induction ss)
  case (Cons s ss)
  then show ?case by (auto simp: grows_def split: prod.splits option.splits) (metis snd_conv)+
qed (simp add: grows_def)

lemma run_steps_leaves: "list_all (leaves P) ss \<Longrightarrow> leaves P (run_steps ss)"
proof (induction ss)
  case (Cons s ss)
  then show ?case by (auto simp: leaves_def split: prod.splits option.splits) (metis snd_conv)+
qed (simp add: leaves_def)

lemma basic_grows:
  "grows (make_dir p m)" "grows (write_text p c)" "grows (change_mode p m)"
  by (auto simp: grows_def make_dir_def write_text_def change_mode_def update_conv' split: option.splits entry.splits)

lemma basic_leaves:
  "\<not> P p \<Longrightarrow> leaves P (make_dir p m)" "\<not> P p \<Longrightarrow> leaves P (write_text p c)" "\<not> P p \<Longrightarrow> leaves P (change_mode p m)"
  by (auto simp: leaves_def make_dir_def write_text_def change_mode_def update_conv' split: option.splits entry.splits)

lemma openssl_grows: "grows (call_openssl t args)"
proof -
  have "list_all grows (map (\<lambda>(p, c). write_text p c) fs)" for fs
    by (auto simp: list_all_iff basic_grows)
  from run_steps_grows [OF this] show ?thesis by (auto simp: grows_def call_openssl_def split: option.split)
qed

lemma map_of_map_opened: "map_of (map (\<lambda>(p, e). (p, opened p e)) f) p = map_option (opened p) (map_of f p)"
  by (induction f) auto

lemma open_server_map: "map_of (snd (open_server f)) p = map_option (opened p) (map_of f p)"
  by (simp add: open_server_def map_of_map_opened)

lemma opened_other: "p = [] \<or> hd p \<noteq> ''server'' \<Longrightarrow> opened p e = e"
  by (cases "(p, e)" rule: opened.cases) auto

lemma open_server_leaves: "(\<And>p. P p \<Longrightarrow> p = [] \<or> hd p \<noteq> ''server'') \<Longrightarrow> leaves P open_server"
  by (auto simp: leaves_def open_server_map opened_other option.map_id0 [unfolded id_def] cong: option.map_cong)

section \<open>Accounts\<close>

lemma account_done:
  assumes "run_steps (account_steps t port cert (k, d, u, h)) f = (None, f')"
  shows "map_of f [d] = None" "map_of f' [d] \<noteq> None"
    "map_of f' [d, ''connection.json''] =
      Some (File 384 (json_dumps (connection_json h port u (token_urlsafe (entropy t k))) @ newline))"
  using assms by (auto simp: account_steps_def make_dir_def write_text_def change_mode_def update_conv'
      split: if_splits option.splits entry.splits)

lemma account_leaves: "leaves (\<lambda>p. p = [] \<or> hd p \<noteq> d) (run_steps (account_steps t port cert (k, d, u, h)))"
  by (rule run_steps_leaves) (simp add: account_steps_def basic_leaves)

lemma accounts_done:
  assumes "run_steps (concat (map (account_steps t port cert) as)) f = (None, f')" and "(k, d, u, h) \<in> set as"
  shows "map_of f [d] = None \<and> map_of f' [d, ''connection.json''] =
      Some (File 384 (json_dumps (connection_json h port u (token_urlsafe (entropy t k))) @ newline))"
  using assms
proof (induction as arbitrary: f k d u h)
  case (Cons a as)
  obtain k' d' u' h' where a: "a = (k', d', u', h')" by (cases a) auto
  from Cons.prems(1) obtain f1 where f1: "run_steps (account_steps t port cert a) f = (None, f1)"
    and rest: "run_steps (concat (map (account_steps t port cert) as)) f1 = (None, f')"
    by (auto simp: run_steps_append split: prod.splits option.splits)
  note fin = account_done [OF f1 [unfolded a]]
  note lv = account_leaves [of d' t port cert k' u' h', unfolded leaves_def, rule_format, of _ f, unfolded a [symmetric] f1, simplified]
  show ?case
  proof (cases "(k, d, u, h) \<in> set as")
    case True
    note ih = Cons.IH [OF rest True]
    with fin(2) have "d \<noteq> d'" by auto
    with lv [of "[d]"] ih show ?thesis by simp
  next
    case False
    with Cons.prems(2) a have eq: "k' = k" "d' = d" "u' = u" "h' = h" by simp_all
    have "leaves (\<lambda>p. p = [d, ''connection.json'']) (run_steps (concat (map (account_steps t port cert) as)))"
    proof (rule run_steps_leaves)
      have "d2 \<noteq> d" if "(k2, d2, u2, h2) \<in> set as" for k2 d2 u2 h2
        using Cons.IH [OF rest that] fin(2) eq by auto
      then show "list_all (leaves (\<lambda>p. p = [d, ''connection.json''])) (concat (map (account_steps t port cert) as))"
        by (fastforce simp: list_all_iff account_steps_def intro!: basic_leaves)
    qed
    with fin rest eq show ?thesis by (auto simp: leaves_def) (metis snd_conv)
  qed
qed simp

text \<open>No two accounts share a directory: the second one could not be created.\<close>

lemma accounts_distinct:
  "run_steps (concat (map (account_steps t port cert) as)) f = (None, f') \<Longrightarrow> distinct (map (\<lambda>(k, d, u, h). d) as)"
proof (induction as arbitrary: f)
  case (Cons a as)
  obtain k d u h where a: "a = (k, d, u, h)" by (cases a) auto
  from Cons.prems obtain f1 where f1: "run_steps (account_steps t port cert a) f = (None, f1)"
    and rest: "run_steps (concat (map (account_steps t port cert) as)) f1 = (None, f')"
    by (auto simp: run_steps_append split: prod.splits option.splits)
  have "d2 \<noteq> d" if "(k2, d2, u2, h2) \<in> set as" for k2 d2 u2 h2
    using accounts_done [OF rest that] account_done(2) [OF f1 [unfolded a]] by auto
  with Cons.IH [OF rest] a show ?case by auto
qed simp

section \<open>The whole bundle\<close>

lemma with_text_done:
  "with_text p next f = (None, f') \<Longrightarrow> \<exists>content. run_steps (next content) f = (None, f')"
  by (auto simp: with_text_def split: option.splits entry.splits)

lemma growsD: "grows s \<Longrightarrow> s f = (e, f') \<Longrightarrow> map_of f p \<noteq> None \<Longrightarrow> map_of f' p \<noteq> None"
  unfolding grows_def by (metis snd_conv)

lemma leavesD: "leaves P s \<Longrightarrow> s f = (e, f') \<Longrightarrow> P p \<Longrightarrow> map_of f' p = map_of f p"
  unfolding leaves_def by (metis snd_conv)

lemma provision_stages:
  assumes "provision t host ids port f = (None, f')"
  obtains cert f0 f1 where "class_match id_char 1 253 host" "list_all worker_id_ok ids"
    "map_of f0 [''server''] \<noteq> None" "map_of f0 [''ca''] \<noteq> None"
    "run_steps (concat (map (account_steps t port cert) (enumerate 0 (accounts host ids)))) f0 = (None, f1)"
    "run_steps (final_steps t (enumerate 0 (accounts host ids))) f1 = (None, f')"
proof -
  let ?pre = "[call_openssl t ca_args, call_openssl t (request_args host),
    write_text [''ca'', ''extensions.cnf''] (extensions t host), call_openssl t sign_args]"
  let ?as = "enumerate 0 (accounts host ids)"
  let ?contents = "\<lambda>c. write_text [''server'', ''ca.crt''] c # concat (map (account_steps t port c) ?as) @ final_steps t ?as"
  have checks: "class_match id_char 1 253 host" "list_all worker_id_ok ids"
    using assms by (auto simp: provision_def split: if_splits)
  have "run_steps ([make_dir [] 448, make_dir [''server''] 493, make_dir [''ca''] 448] @ ?pre @ [with_text [''ca'', ''ca.crt''] ?contents]) f = (None, f')"
    using assms by (simp add: provision_def Let_def split: if_splits del: run_steps.simps)
  then obtain fa fb where fa: "run_steps [make_dir [] 448, make_dir [''server''] 493, make_dir [''ca''] 448] f = (None, fa)"
    and fb: "run_steps ?pre fa = (None, fb)" and last: "run_steps [with_text [''ca'', ''ca.crt''] ?contents] fb = (None, f')"
    unfolding run_steps_done(2) by blast
  have "map_of fa [''server''] \<noteq> None \<and> map_of fa [''ca''] \<noteq> None"
    using fa by (auto simp: make_dir_def update_conv' split: if_splits)
  moreover have "grows (run_steps ?pre)" by (rule run_steps_grows) (simp add: basic_grows openssl_grows)
  ultimately have dirs: "map_of fb [''server''] \<noteq> None" "map_of fb [''ca''] \<noteq> None"
    using growsD [where s = "run_steps ?pre", OF _ fb] by blast+
  from last have "with_text [''ca'', ''ca.crt''] ?contents fb = (None, f')"
    unfolding run_steps_done(1) by (auto simp only: run_steps.simps prod.inject)
  from with_text_done [OF this] obtain cert f0 f1 where "write_text [''server'', ''ca.crt''] cert fb = (None, f0)"
    "run_steps (concat (map (account_steps t port cert) ?as)) f0 = (None, f1)" "run_steps (final_steps t ?as) f1 = (None, f')"
    unfolding run_steps_done by blast
  with that [OF checks, of f0 cert f1] growsD [OF basic_grows(2) this(1)] dirs show ?thesis by blast
qed

lemma final_definitions:
  assumes "run_steps (final_steps t as) f = (None, f')"
  shows "map_of f' [''server'', ''definitions.json''] =
    Some (File 420 (json_dumps (definitions_json (users_of t as) (permissions_of as)) @ newline))"
proof -
  let ?p = "[''server'', ''definitions.json'']" and ?c = "json_dumps (definitions_json (users_of t as) (permissions_of as)) @ newline"
  obtain g1 g2 g3 where g: "write_text ?p ?c f = (None, g1)" "write_text [''server'', ''rabbitmq.conf''] rabbitmq_conf g1 = (None, g2)"
    "open_server g2 = (None, g3)" "change_mode [''ca'', ''ca.key''] 384 g3 = (None, f')"
    using assms unfolding final_steps_def run_steps_done(1) by auto
  obtain m where "map_of g1 ?p = Some (File m ?c)" using g(1) by (auto simp: write_text_def update_conv')
  then have "map_of g2 ?p = Some (File m ?c)"
    using leavesD [OF basic_leaves(2) g(2), of "\<lambda>p. p = ?p"] by simp
  then have "map_of g3 ?p = Some (File 420 ?c)" using g(3) open_server_map [of g2 ?p] by simp
  then show ?thesis using leavesD [OF basic_leaves(3) g(4), of "\<lambda>p. p = ?p"] by simp
qed

text \<open>What is in a completed bundle, for each account.\<close>

lemma provisioned_account:
  assumes "provision t host ids port f = (None, f')" and "(k, d, u, h) \<in> set (enumerate 0 (accounts host ids))"
  shows "map_of f' [d, ''connection.json''] =
      Some (File 384 (json_dumps (connection_json h port u (token_urlsafe (entropy t k))) @ newline))"
    and "\<exists>us ps. map_of f' [''server'', ''definitions.json''] = Some (File 420 (json_dumps (definitions_json us ps) @ newline)) \<and>
      user_json u (password_hash (sha256 t) (salt t k) (token_urlsafe (entropy t k))) \<in> set us \<and> permission_json d u \<in> set ps"
proof -
  let ?as = "enumerate 0 (accounts host ids)" and ?p = "[d, ''connection.json'']"
  obtain cert f0 f1 where f0: "map_of f0 [''server''] \<noteq> None" "map_of f0 [''ca''] \<noteq> None"
    and f1: "run_steps (concat (map (account_steps t port cert) ?as)) f0 = (None, f1)"
    and f': "run_steps (final_steps t ?as) f1 = (None, f')"
    using provision_stages [OF assms(1)] by metis
  note acc = accounts_done [OF f1 assms(2)]
  then have d: "d \<noteq> ''server''" "d \<noteq> ''ca''" using f0 by auto
  have "leaves (\<lambda>p. p = ?p) (write_text [''server'', n] c)" "leaves (\<lambda>p. p = ?p) (change_mode [''ca'', n] m)"
    "leaves (\<lambda>p. p = ?p) open_server" for n c m
    using d by (auto intro!: basic_leaves open_server_leaves)
  then have "list_all (leaves (\<lambda>p. p = ?p)) (final_steps t ?as)" by (simp add: final_steps_def)
  from leavesD [OF run_steps_leaves [OF this] f', of ?p] acc show "map_of f' ?p =
      Some (File 384 (json_dumps (connection_json h port u (token_urlsafe (entropy t k))) @ newline))" by simp
  have "user_json u (password_hash (sha256 t) (salt t k) (token_urlsafe (entropy t k))) \<in> set (users_of t ?as)"
    "permission_json d u \<in> set (permissions_of ?as)"
    using image_eqI [OF refl assms(2)] by (force simp: users_of_def permissions_of_def)+
  with final_definitions [OF f'] show "\<exists>us ps. map_of f' [''server'', ''definitions.json''] = Some (File 420 (json_dumps (definitions_json us ps) @ newline)) \<and>
      user_json u (password_hash (sha256 t) (salt t k) (token_urlsafe (entropy t k))) \<in> set us \<and> permission_json d u \<in> set ps"
    by blast
qed

section \<open>The credentials are accepted\<close>

lemma b64_bounds:
  fixes x y z :: nat
  assumes "x < 256" and "y < 256" and "z < 256"
  shows "x div 4 < 64" "x mod 4 * 16 + y div 16 < 64" "y mod 16 * 4 + z div 64 < 64" "z mod 64 < 64"
proof -
  have "x mod 4 \<le> 3" "y div 16 \<le> 15" "y mod 16 \<le> 15" "z div 64 \<le> 3" "x div 4 \<le> 63" using assms by auto
  then show "x div 4 < 64" "x mod 4 * 16 + y div 16 < 64" "y mod 16 * 4 + z div 64 < 64" "z mod 64 < 64"
    by linarith+
qed

lemma b64_in: "n < 64 \<Longrightarrow> b64_char n \<in> set b64_alphabet"
  unfolding b64_char_def by (rule nth_mem) (simp add: b64_alphabet_def)

lemma b64encode_whole:
  "length bs mod 3 = 0 \<Longrightarrow> length (b64encode bs) = length bs div 3 * 4 \<and> set (b64encode bs) \<subseteq> set b64_alphabet"
proof (induction bs rule: b64encode.induct)
  case (4 a b c cs)
  then have "length cs mod 3 = 0" by (simp add: mod_Suc split: if_splits)
  with 4 have ih: "length (b64encode cs) = length cs div 3 * 4" "set (b64encode cs) \<subseteq> set b64_alphabet" by simp_all
  have "Suc (Suc (Suc (length cs))) div 3 = Suc (length cs div 3)" by simp
  with ih b64_bounds [of "of_char a" "of_char b" "of_char c"] show ?case
    by (simp add: Let_def b64_in)
qed simp_all

lemma url_alphabet: "\<forall>c \<in> set (map url_char b64_alphabet). token_char c \<and> c \<noteq> CHR ''=''"
  by code_simp

lemma token_urlsafe_ok:
  assumes "length bs = 48"
  shows "length (token_urlsafe bs) = 64" "list_all token_char (token_urlsafe bs)"
proof -
  let ?t = "map url_char (b64encode bs)"
  have b: "length (b64encode bs) = 64" "set (b64encode bs) \<subseteq> set b64_alphabet" using b64encode_whole [of bs] assms by simp_all
  then have t: "length ?t = 64" "\<forall>c \<in> set ?t. token_char c \<and> c \<noteq> CHR ''=''" using url_alphabet by auto
  then have "rev ?t \<noteq> []" "hd (rev ?t) \<noteq> CHR ''=''" using hd_in_set [of "rev ?t"] by (fastforce simp del: map_map)+
  then have "dropWhile (\<lambda>c. c = CHR ''='') (rev ?t) = rev ?t" by (cases "rev ?t") simp_all
  then have "token_urlsafe bs = ?t" unfolding token_urlsafe_def by simp
  with t show "length (token_urlsafe bs) = 64" "list_all token_char (token_urlsafe bs)" by (simp_all add: list_all_iff)
qed

lemma id_char_classes: "id_char c \<Longrightarrow> name_char ''_.:-'' c \<and> \<not> py_space c \<and> c \<notin> set ''/@?#''"
  by (auto simp: id_char_def name_char_def is_alnum_def is_digit_def is_upper_def is_lower_def py_space_def Let_def)

lemma id_host: "class_match id_char 1 hi h \<Longrightarrow> host_ok h"
  using id_char_classes by (auto simp: class_match_def host_ok_def list_all_iff list_ex_iff)

lemma key_texts:
  "dump_string ''host'' = CHR 0x22 # ''host'' @ [CHR 0x22]" "dump_string ''port'' = CHR 0x22 # ''port'' @ [CHR 0x22]"
  "dump_string ''virtual_host'' = CHR 0x22 # ''virtual_host'' @ [CHR 0x22]"
  "dump_string ''transcriber'' = CHR 0x22 # ''transcriber'' @ [CHR 0x22]"
  "dump_string ''username'' = CHR 0x22 # ''username'' @ [CHR 0x22]" "dump_string ''password'' = CHR 0x22 # ''password'' @ [CHR 0x22]"
  "dump_string ''tls'' = CHR 0x22 # ''tls'' @ [CHR 0x22]"
  by code_simp+

lemma connection_line:
  assumes "1 \<le> port" and "port \<le> 65535" and "length h \<le> 253" and "length u \<le> 256" and "length pw \<le> 512"
  shows "json_loads_bytes (json_dumps (connection_json h port u pw) @ newline) = Some (connection_json h port u pw)"
    and "length (json_dumps (connection_json h port u pw) @ newline) \<le> 8192"
proof -
  let ?v = "connection_json h port u pw"
  have "port < 10 ^ py_max_digits"
  proof -
    have "(10 :: int) ^ 5 \<le> 10 ^ py_max_digits" by (rule power_increasing) (simp_all add: py_max_digits_def py_digit_limit_def)
    with assms show ?thesis by simp
  qed
  with assms have d: "dumpable ?v" by (simp add: connection_json_def)
  have u: "unique_keys ?v" by (simp add: connection_json_def)
  from dumps_plain [OF d] have "list_all plain_ascii (json_dumps ?v @ newline)" by (simp add: newline_def plain_ascii_def)
  then show "json_loads_bytes (json_dumps ?v @ newline) = Some ?v"
    using json_loads_line [OF d u] by (simp add: json_loads_bytes_def decode_bytes_ascii newline_def)
  have "length (nat_digits (nat port)) \<le> 5" by (rule nat_digits_length) (use assms in simp_all)
  moreover have "length (dump_string s) \<le> 6 * n + 2" if "length s \<le> n" for s n
    using dump_string_plain [of s] that by linarith
  from this [OF assms(3)] this [OF assms(4)] this [OF assms(5)]
  have "length (dump_string h) + length (dump_string u) + length (dump_string pw) \<le> 6132" by simp
  moreover
  have "length (json_dumps ?v @ newline) = length (dump_string h) + length (nat_digits (nat port)) +
      length (dump_string u) + length (dump_string pw) + 93"
    using assms(1) unfolding connection_json_def by (simp add: key_texts py_str_int_def newline_def)
  ultimately show "length (json_dumps ?v @ newline) \<le> 8192" by linarith
qed

lemma account_names:
  assumes "(k, d, u, h) \<in> set (enumerate 0 (accounts host ids))" and "class_match id_char 1 253 host"
    and "list_all worker_id_ok ids"
  shows "class_match id_char 1 253 h \<and> class_match id_char 1 135 u"
proof -
  have "(d, u, h) \<in> set (accounts host ids)" using assms(1) set_zip_rightD by (auto simp: enumerate_eq_zip)
  then consider "u = ''transcriber-publisher''" "h = ''transcriber-rabbitmq''" | w where "w \<in> set ids" "u = ''worker-'' @ w" "h = host"
    unfolding accounts_def by fastforce
  then show ?thesis
  proof cases
    case 1
    have "class_match id_char 1 253 ''transcriber-rabbitmq'' \<and> class_match id_char 1 135 ''transcriber-publisher''" by code_simp
    with 1 show ?thesis by simp
  next
    case 2
    have "list_all id_char ''worker-''" by code_simp
    moreover have "list_all id_char w" "length w \<le> 128" using 2(1) assms(3) by (auto simp: list_all_iff class_match_def)
    ultimately have "class_match id_char 1 135 (''worker-'' @ w)" unfolding class_match_def list_all_append by simp
    with 2 assms(2) show ?thesis by simp
  qed
qed


definition demo_tools :: toolbox where
  "demo_tools = \<lparr>openssl = (\<lambda>args. Some (if hd args = ''req'' then [([''ca'', ''ca.key''], ''key''), ([''ca'', ''ca.crt''], ''crt'')] else [])),
     is_address = (\<lambda>_. False), sha256 = (\<lambda>s. s), entropy = (\<lambda>_. replicate 48 CHR ''x''), salt = (\<lambda>_. ''salt'')\<rparr>"

lemma demo_provisioned: "\<exists>f'. provision demo_tools ''mq'' [''gpu''] 5671 [] = (None, f')"
proof -
  have "class_match id_char 1 253 ''mq'' \<and> worker_id_ok ''gpu''" by code_simp
  then have "fst (provision demo_tools ''mq'' [''gpu''] 5671 []) = None"
    by (simp add: provision_def demo_tools_def make_dir_def write_text_def change_mode_def with_text_def call_openssl_def
        ca_args_def request_args_def sign_args_def account_steps_def accounts_def final_steps_def open_server_def
        Let_def update_conv' map_of_map_opened)
  then show ?thesis by (metis prod.collapse)
qed


end
