(* ===== verification/Images.thy ===== *)
theory Images
  imports Provision Inference Updater
begin

text \<open>
  \<open>scripts/images.py\<close>: the server image by digest - build, publication, deployment and
  operation. Git, Docker and \<open>make\<close> are parameters; a file of the state directory is the JSON
  value written to it.
\<close>

section \<open>Expressions and paths\<close>

definition name_start :: "char \<Rightarrow> bool" where
  "name_start c \<longleftrightarrow> is_upper c \<or> c = CHR ''_''"

definition name_part :: "char \<Rightarrow> bool" where
  "name_part c \<longleftrightarrow> name_start c \<or> is_digit c"

text \<open>
  A match of \<open>${NAME}\<close>, \<open>${NAME:-default}\<close> or \<open>${NAME:?text}\<close> at the start of a text: the name,
  the operator, what follows it before the brace, and the rest.
\<close>

definition split_operator :: "string \<Rightarrow> string \<times> string" where
  "split_operator s = (if prefix '':?'' s \<or> prefix '':-'' s then (take 2 s, drop 2 s) else ([], s))"

definition variable_at :: "string \<Rightarrow> (string \<times> string \<times> string \<times> string) option" where
  "variable_at s = (case s of
     d # b # c # cs \<Rightarrow>
       if d = CHR ''$'' \<and> b = CHR 0x7B \<and> name_start c \<and> CHR 0x7D \<in> set cs then
         (let name = c # takeWhile name_part cs; (operator, body) = split_operator (dropWhile name_part cs) in
          Some (name, operator, takeWhile (\<lambda>x. x \<noteq> CHR 0x7D) body, drop 1 (dropWhile (\<lambda>x. x \<noteq> CHR 0x7D) body)))
       else None
   | _ \<Rightarrow> None)"

datatype image_error = MissingVariable string | MissingSetting string | BadCompose | BadRepository | BadRevision |
  BadManifest | BadRelease | CommandFailed | LockTimeout | BadOperation

text \<open>\<open>expand\<close>; every match is longer than nothing.\<close>

lemma split_operator_le: "split_operator s = (a, b) \<Longrightarrow> length b \<le> length s"
  by (auto simp: split_operator_def split: if_splits)

lemma variable_at_shorter:
  assumes "variable_at s = Some (n, p, d, r)"
  shows "length r < length s"
proof -
  obtain a b c cs where s: "s = a # b # c # cs" using assms by (auto simp: variable_at_def split: list.splits)
  obtain p' body where o: "split_operator (dropWhile name_part cs) = (p', body)" by fastforce
  have "length body \<le> length cs" using split_operator_le [OF o] length_dropWhile_le [of name_part cs] by simp
  moreover have "length r \<le> length body"
    using assms o length_dropWhile_le [of "\<lambda>x. x \<noteq> CHR 0x7D" body] by (auto simp: variable_at_def s Let_def split: if_splits)
  ultimately show ?thesis by (simp add: s)
qed

definition variable_value :: "env \<Rightarrow> string \<Rightarrow> string \<Rightarrow> string \<Rightarrow> (image_error, string) result" where
  "variable_value env key operator otherwise = (let resolved = getenv env key [] in
     if resolved = [] \<and> operator = '':?'' then Inl (MissingVariable key)
     else Inr (if resolved \<noteq> [] then resolved else if operator = '':-'' then otherwise else []))"

function expand :: "env \<Rightarrow> string \<Rightarrow> (image_error, string) result" where
  "expand env s = (case s of
     [] \<Rightarrow> Inr []
   | c # cs \<Rightarrow> (case variable_at s of
        Some (key, operator, otherwise, rest) \<Rightarrow>
          res_bind (variable_value env key operator otherwise) (\<lambda>v. res_bind (expand env rest) (\<lambda>r. Inr (v @ r)))
      | None \<Rightarrow> res_bind (expand env cs) (\<lambda>r. Inr (c # r))))"
  by pat_completeness auto
termination
  by (relation "measure (length \<circ> snd)") (auto dest: variable_at_shorter)

declare expand.simps [simp del]

text \<open>\<open>str\<close> of a JSON value, and \<open>base / p\<close> of \<open>pathlib\<close>.\<close>

fun json_text :: "json \<Rightarrow> string" where
  "json_text (JStr s) = s"
| "json_text (JInt i) = py_str_int i"
| "json_text (JBool b) = (if b then ''True'' else ''False'')"
| "json_text (JFloat s) = s"
| "json_text JNull = ''None''"
| "json_text v = json_dumps v"

definition path_in :: "string \<Rightarrow> string \<Rightarrow> string" where
  "path_in base p = (let parts = filter (\<lambda>x. x \<notin> {[], ''.''}) (py_split CHR ''/'' p) in
     (if prefix ''/'' p then [] else base) @ concat (map (\<lambda>x. ''/'' @ x) parts))"

section \<open>The configuration\<close>

definition platform :: string where
  "platform = ''linux/amd64''"

definition services :: "string list" where
  "services = [''whisper-ingress'', ''whisper-worker'']"

text \<open>
  What the environment answers: \<open>git_head\<close> is the checkout's revision, \<open>compose_model\<close> the
  document of \<open>docker compose config\<close>, \<open>None\<close> where the command fails.
\<close>

record images_env =
  im_env :: env
  im_root :: string
  git_head :: "string option"
  compose_model :: "json option"
  env_file_exists :: bool

definition revision_of :: "images_env \<Rightarrow> (image_error, string) result" where
  "revision_of e = (case git_head e of None \<Rightarrow> Inl CommandFailed | Some s \<Rightarrow> Inr (py_strip s))"

definition repository_part :: "string \<Rightarrow> bool" where
  "repository_part s \<longleftrightarrow> (case s of [] \<Rightarrow> False
     | c # cs \<Rightarrow> (is_digit c \<or> is_lower c) \<and> list_all (\<lambda>x. is_digit x \<or> is_lower x \<or> x \<in> set ''._-'') cs)"

definition repository_ok :: "string \<Rightarrow> bool" where
  "repository_ok s \<longleftrightarrow> (case py_split CHR ''/'' s of
     [h, a, b] \<Rightarrow> h = ''ghcr.io'' \<and> repository_part a \<and> repository_part b | _ \<Rightarrow> False)"

definition repository_of :: "env \<Rightarrow> (image_error, string) result" where
  "repository_of env = (let v = map lower_char (getenv env ''IMAGE_REPOSITORY'' ''ghcr.io/mralexandrovorganization/transcriber'') in
     if repository_ok v then Inr v else Inl BadRepository)"

text \<open>\<open>compose\<close>: the file list is required; the environment file only counts at run time and if it exists.\<close>

definition py_words :: "string \<Rightarrow> string list" where
  "py_words s = filter (\<lambda>w. w \<noteq> []) (py_split CHR '' '' (map (\<lambda>c. if py_space c then CHR '' '' else c) s))"

definition compose_command :: "images_env \<Rightarrow> bool \<Rightarrow> (image_error, string list) result" where
  "compose_command e runtime = (case im_env e ''IMAGE_COMPOSE_FILES'' of
     None \<Rightarrow> Inl (MissingSetting ''IMAGE_COMPOSE_FILES'')
   | Some files \<Rightarrow> (let f = getenv (im_env e) ''IMAGE_RUNTIME_ENV_FILE'' [] in
       Inr ([''docker'', ''compose'', ''--project-directory'', im_root e] @
         (if runtime \<and> f \<noteq> [] \<and> env_file_exists e then [''--env-file'', f] else []) @
         concat (map (\<lambda>c. [''-f'', c]) (py_words files)))))"

section \<open>Building\<close>

text \<open>\<open>json.dumps(spec, sort_keys=True)\<close> of equal documents is equal: the keys are put in order.\<close>

fun sorted_keys :: "json \<Rightarrow> json" where
  "sorted_keys (JObj ps) = JObj (sort_key fst (map (\<lambda>(k, v). (k, sorted_keys v)) ps))"
| "sorted_keys (JList vs) = JList (map sorted_keys vs)"
| "sorted_keys v = v"

fun json_obj :: "json \<Rightarrow> (string \<times> json) list option" where
  "json_obj (JObj ps) = Some ps"
| "json_obj _ = None"

text \<open>\<open>specs\<close>: the build definition both services share.\<close>

definition shared_spec :: "json \<Rightarrow> (string \<times> json) list option" where
  "shared_spec model =
     Option.bind (json_obj model) (\<lambda>m. Option.bind (Option.bind (map_of m ''services'') json_obj) (\<lambda>svcs.
     let build = (\<lambda>n. Option.bind (Option.bind (map_of svcs n) json_obj) (\<lambda>s. map_of s ''build'')) in
     Option.bind (build ''whisper-ingress'') (\<lambda>a. Option.bind (build ''whisper-worker'') (\<lambda>b.
       if \<not> truthy a \<or> \<not> truthy b \<or> sorted_keys a \<noteq> sorted_keys b then None else json_obj a))))"

definition specs :: "images_env \<Rightarrow> (image_error, (string \<times> json) list) result" where
  "specs e = res_bind (compose_command e False) (\<lambda>_. case compose_model e of
     None \<Rightarrow> Inl CommandFailed
   | Some model \<Rightarrow> (case shared_spec model of None \<Rightarrow> Inl BadCompose | Some s \<Rightarrow> Inr s))"

fun build_args :: "env \<Rightarrow> (string \<times> json) list \<Rightarrow> (image_error, string list) result" where
  "build_args env [] = Inr []"
| "build_args env ((n, v) # ps) = res_bind
     (if v = JNull then (case env n of None \<Rightarrow> Inl (MissingSetting n) | Some x \<Rightarrow> Inr x) else expand env (json_text v))
     (\<lambda>x. res_bind (build_args env ps) (\<lambda>r. Inr ([''--build-arg'', n @ ''='' @ x] @ r)))"

definition build_tag :: "env \<Rightarrow> string \<Rightarrow> string" where
  "build_tag env sha = sha @ ''-'' @ getenv env ''GITHUB_RUN_ID'' ''local'' @ ''-'' @ getenv env ''GITHUB_RUN_ATTEMPT'' ''1''"

definition spec_text :: "(string \<times> json) list \<Rightarrow> string \<Rightarrow> string option" where
  "spec_text spec k = map_option json_text (map_of spec k)"

text \<open>The command line of the build, without the context it ends with.\<close>

definition build_command :: "env \<Rightarrow> string \<Rightarrow> string \<Rightarrow> string \<Rightarrow> (string \<times> json) list \<Rightarrow> string list \<Rightarrow> string list" where
  "build_command env ref sha context spec args =
     [''docker'', ''build'', ''--platform'', platform, ''--tag'', ref, ''--label'', ''org.opencontainers.image.revision='' @ sha] @
     (let source = getenv env ''GITHUB_REPOSITORY'' [] in
      if source = [] then [] else [''--label'', ''org.opencontainers.image.source=https://github.com/'' @ source]) @
     [''--file'', path_in context (case spec_text spec ''dockerfile'' of None \<Rightarrow> ''Dockerfile'' | Some d \<Rightarrow> d)] @
     (case map_of spec ''target'' of Some v \<Rightarrow> if truthy v then [''--target'', json_text v] else [] | None \<Rightarrow> []) @ args"

definition manifest_json :: "string \<Rightarrow> string \<Rightarrow> json" where
  "manifest_json sha ref = JObj [(''revision'', JStr sha), (''platform'', JStr platform),
     (''images'', JObj (map (\<lambda>s. (s, JStr ref)) services))]"

text \<open>\<open>build\<close>: the command to run and what goes into \<open>build.json\<close> when it succeeds.\<close>

definition build :: "images_env \<Rightarrow> (image_error, string list \<times> json) result" where
  "build e = (let env = im_env e in
     res_bind (repository_of env) (\<lambda>repo. res_bind (revision_of e) (\<lambda>sha.
     if getenv env ''SOURCE_REVISION'' sha \<noteq> sha then Inl BadRevision
     else res_bind (specs e) (\<lambda>spec. case spec_text spec ''context'' of
       None \<Rightarrow> Inl BadCompose
     | Some c \<Rightarrow> res_bind (expand env c) (\<lambda>c. let context = path_in (im_root e) c; ref = repo @ '':'' @ build_tag env sha in
         res_bind (case map_of spec ''args'' of None \<Rightarrow> Inr [] | Some (JObj ps) \<Rightarrow> build_args env ps | Some _ \<Rightarrow> Inl BadCompose) (\<lambda>args.
         Inr (build_command env ref sha context spec args @ [context], manifest_json sha ref)))))))"

section \<open>Publication\<close>

fun str_list :: "json \<Rightarrow> string list option" where
  "str_list (JList vs) = those (map json_str vs)"
| "str_list _ = None"

definition before_last :: "char \<Rightarrow> string \<Rightarrow> string" where
  "before_last c s = (if c \<in> set s then rev (drop 1 (dropWhile (\<lambda>x. x \<noteq> c) (rev s))) else s)"

text \<open>The images of a manifest: pairs of service and reference, references being texts.\<close>

definition manifest_images :: "(string \<times> json) list \<Rightarrow> (string \<times> string) list option" where
  "manifest_images ps = Option.bind (Option.bind (map_of ps ''images'') json_obj) (\<lambda>is.
     those (map (\<lambda>(n, v). map_option (Pair n) (json_str v)) is))"

text \<open>
  \<open>publish\<close> of the content of \<open>build.json\<close>: \<open>pushed\<close> says whether the push succeeds and
  \<open>digests\<close> is the image's \<open>RepoDigests\<close> afterwards. The result is the content of
  \<open>release.json\<close>.
\<close>

definition publish :: "images_env \<Rightarrow> bool \<Rightarrow> json option \<Rightarrow> json \<Rightarrow> (image_error, json) result" where
  "publish e pushed digests manifest = (case json_obj manifest of
     None \<Rightarrow> Inl BadManifest
   | Some ps \<Rightarrow> res_bind (revision_of e) (\<lambda>sha.
       if map_of ps ''revision'' \<noteq> Some (JStr sha) then Inl BadRevision
       else (case manifest_images ps of
         None \<Rightarrow> Inl BadManifest
       | Some is \<Rightarrow> res_bind (repository_of (im_env e)) (\<lambda>repo.
           case remdups (map snd is) of
             [tag] \<Rightarrow>
               if \<not> prefix (repo @ '':'') tag then Inl BadRepository
               else if \<not> pushed then Inl CommandFailed
               else (case Option.bind digests str_list of
                   None \<Rightarrow> Inl CommandFailed
                 | Some refs \<Rightarrow> (case find (prefix (before_last CHR '':'' tag @ ''@sha256:'')) refs of
                     None \<Rightarrow> Inl BadRelease
                   | Some digest \<Rightarrow> Inr (JObj (AList.update ''images'' (JObj (map (\<lambda>(n, _). (n, JStr digest)) is)) ps))))
           | _ \<Rightarrow> Inl BadRepository))))"

text \<open>What \<open>publish\<close> appends to \<open>GITHUB_OUTPUT\<close>.\<close>

definition github_output :: "json \<Rightarrow> string" where
  "github_output manifest = ''manifest='' @ b64encode (json_dumps manifest) @ newline"

section \<open>Deployment\<close>

definition digest_ref :: "string \<Rightarrow> string \<Rightarrow> bool" where
  "digest_ref repo r \<longleftrightarrow> prefix (repo @ ''@sha256:'') r \<and> class_match is_lower_hex 64 64 (drop (length repo + 8) r)"

text \<open>\<open>validate\<close>: the manifest's image when it is for this checkout and both services.\<close>

definition manifest_ok :: "string \<Rightarrow> string \<Rightarrow> json \<Rightarrow> string option" where
  "manifest_ok repo sha manifest = Option.bind (json_obj manifest) (\<lambda>ps.
     if map_of ps ''revision'' \<noteq> Some (JStr sha) \<or> map_of ps ''platform'' \<noteq> Some (JStr platform) then None
     else Option.bind (manifest_images ps) (\<lambda>is.
       if set (map fst is) \<noteq> set services then None
       else (case remdups (map snd is) of [r] \<Rightarrow> if digest_ref repo r then Some r else None | _ \<Rightarrow> None)))"

definition validate :: "images_env \<Rightarrow> json \<Rightarrow> (image_error, string) result" where
  "validate e manifest = res_bind (revision_of e) (\<lambda>sha. res_bind (repository_of (im_env e)) (\<lambda>repo.
     case manifest_ok repo sha manifest of None \<Rightarrow> Inl BadRelease | Some r \<Rightarrow> Inr r))"

text \<open>
  The state directory, the images Docker has, and the override under which the services were
  last activated. Each operation succeeds, or fails before or after its effect: a replaced
  file stays when only the flush of its directory fails, and a crash is a failure.
\<close>

record server =
  sv_files :: "(string \<times> json) list"
  sv_pulled :: "string list"
  sv_active :: "json option"

datatype outcome = Succeeds | FailsBefore | FailsAfter

type_synonym deed = "server \<Rightarrow> server"

fun perform :: "(outcome \<times> deed) list \<Rightarrow> server \<Rightarrow> bool \<times> server" where
  "perform [] s = (True, s)"
| "perform ((r, g) # ds) s = (case r of
     Succeeds \<Rightarrow> perform ds (g s) | FailsBefore \<Rightarrow> (False, s) | FailsAfter \<Rightarrow> (False, g s))"

definition write_state :: "string \<Rightarrow> json \<Rightarrow> deed" where
  "write_state n v s = s\<lparr>sv_files := AList.update n v (sv_files s)\<rparr>"

definition pull_image :: "string \<Rightarrow> deed" where
  "pull_image r s = s\<lparr>sv_pulled := List.insert r (sv_pulled s)\<rparr>"

text \<open>\<open>make image-activate\<close> with the candidate override.\<close>

definition activate :: "json \<Rightarrow> deed" where
  "activate v s = s\<lparr>sv_active := Some v\<rparr>"

definition override_json :: "json \<Rightarrow> json" where
  "override_json manifest = JObj [(''services'', JObj (map (\<lambda>(n, r). (n, JObj [(''image'', JStr r), (''platform'', JStr platform)]))
     (case Option.bind (json_obj manifest) manifest_images of None \<Rightarrow> [] | Some is \<Rightarrow> is)))]"

text \<open>
  \<open>deploy\<close>: \<open>content\<close> is the decoded \<open>IMAGE_MANIFEST_B64\<close> or else the text of the manifest
  file, \<open>None\<close> if it cannot be had, and \<open>r k\<close> the outcome of the \<open>k\<close>-th operation.
\<close>

definition fetch_deeds :: "(nat \<Rightarrow> outcome) \<Rightarrow> json \<Rightarrow> string \<Rightarrow> (outcome \<times> deed) list" where
  "fetch_deeds r manifest img = [(r 0, write_state ''requested.json'' manifest), (r 1, pull_image img)]"

definition record_deeds :: "(nat \<Rightarrow> outcome) \<Rightarrow> json \<Rightarrow> json option \<Rightarrow> (outcome \<times> deed) list" where
  "record_deeds r manifest previous = (r 2, activate (override_json manifest)) #
     (case previous of None \<Rightarrow> [] | Some p \<Rightarrow> if p = JNull then [] else [(r 3, write_state ''previous.json'' p)]) @
     [(r 4, write_state ''current.json'' manifest), (r 5, write_state ''compose.json'' (override_json manifest))]"

definition deploy :: "images_env \<Rightarrow> string option \<Rightarrow> (nat \<Rightarrow> outcome) \<Rightarrow> server \<Rightarrow> (image_error, unit) result \<times> server" where
  "deploy e content r s = (case Option.bind content json_loads_bytes of
     None \<Rightarrow> (Inl BadManifest, s)
   | Some manifest \<Rightarrow> (case validate e manifest of
       Inl x \<Rightarrow> (Inl x, s)
     | Inr img \<Rightarrow> (let
         previous = map_of (sv_files s) ''current.json'';
         (ok, s') = (case compose_command e True of
            Inl _ \<Rightarrow> (False, snd (perform (fetch_deeds r manifest img) s))
          | Inr _ \<Rightarrow> perform (fetch_deeds r manifest img @ record_deeds r manifest previous) s)
         in (if ok then Inr () else Inl CommandFailed, s'))))"

text \<open>
  \<open>locked_deploy\<close>: one look at the lock a second, each with the clock after it; \<open>None\<close> is
  still waiting.
\<close>

fun acquire :: "int \<Rightarrow> (bool \<times> int) list \<Rightarrow> bool option" where
  "acquire deadline [] = None"
| "acquire deadline ((got, now) # looks) =
     (if got then Some True else if deadline \<le> now then Some False else acquire deadline looks)"

definition locked_deploy ::
  "images_env \<Rightarrow> int \<Rightarrow> (bool \<times> int) list \<Rightarrow> string option \<Rightarrow> (nat \<Rightarrow> outcome) \<Rightarrow> server \<Rightarrow>
   ((image_error, unit) result \<times> server) option" where
  "locked_deploy e start looks content r s =
     (if getenv (im_env e) ''IMAGE_DEPLOY_LOCKED'' [] = ''1'' then Some (deploy e content r s)
      else if im_env e ''IMAGE_DEPLOY_LOCK'' = None then Some (Inl (MissingSetting ''IMAGE_DEPLOY_LOCK''), s)
      else map_option (\<lambda>got. if got then deploy e content r s else (Inl LockTimeout, s)) (acquire (start + secs 1800) looks))"

text \<open>\<open>operate\<close>: the command it runs; \<open>args\<close> are the words \<open>shlex\<close> finds in \<open>IMAGE_ARGS\<close>.\<close>

definition operate :: "images_env \<Rightarrow> string list option \<Rightarrow> server \<Rightarrow> (image_error, string list) result" where
  "operate e args s = (case map_of (sv_files s) ''current.json'' of
     None \<Rightarrow> Inl BadManifest
   | Some manifest \<Rightarrow> res_bind (validate e manifest) (\<lambda>_. case args of
       None \<Rightarrow> Inl BadOperation
     | Some [] \<Rightarrow> Inl BadOperation
     | Some (a # as) \<Rightarrow>
         if a \<notin> {''ps'', ''logs'', ''exec'', ''run'', ''stop'', ''restart''} then Inl BadOperation
         else res_bind (compose_command e True) (\<lambda>c.
           Inr (c @ [''-f'', ''.images/compose.json''] @ a # (if a = ''run'' then [''--no-build'', ''--pull'', ''never''] else []) @ as))))"

section \<open>What deployment guarantees\<close>

lemma perform_prefix:
  "perform ds s = (ok, s') \<Longrightarrow> \<exists>k \<le> length ds. s' = fold snd (take k ds) s \<and> (ok \<longrightarrow> k = length ds)"
proof (induction ds arbitrary: s)
  case (Cons d ds)
  obtain r g where d: "d = (r, g)" by fastforce
  show ?case
  proof (cases r)
    case Succeeds
    with Cons.prems d have "perform ds (g s) = (ok, s')" by simp
    from Cons.IH [OF this] obtain k where "k \<le> length ds" "s' = fold snd (take k ds) (g s)" "ok \<longrightarrow> k = length ds" by blast
    with d show ?thesis by (intro exI [of _ "Suc k"]) simp
  next
    case FailsBefore
    with Cons.prems d show ?thesis by (intro exI [of _ 0]) simp
  next
    case FailsAfter
    with Cons.prems d show ?thesis by (intro exI [of _ 1]) simp
  qed
qed simp

definition state_file :: "string \<Rightarrow> server \<Rightarrow> json option" where
  "state_file n s = map_of (sv_files s) n"

lemma deed_simps [simp]:
  "state_file n (write_state m v s) = (if n = m then Some v else state_file n s)"
  "state_file n (pull_image r s) = state_file n s" "state_file n (activate v s) = state_file n s"
  "sv_active (write_state m v s) = sv_active s" "sv_active (pull_image r s) = sv_active s" "sv_active (activate v s) = Some v"
  "sv_pulled (write_state m v s) = sv_pulled s" "sv_pulled (pull_image r s) = List.insert r (sv_pulled s)"
  "sv_pulled (activate v s) = sv_pulled s"
  by (simp_all add: state_file_def write_state_def pull_image_def activate_def update_conv')

text \<open>
  What a deployment of \<open>m\<close> with the image \<open>img\<close> may leave: nothing recorded yet, or \<open>m\<close> recorded.
\<close>

definition unrecorded :: "json \<Rightarrow> string \<Rightarrow> server \<Rightarrow> server \<Rightarrow> bool" where
  "unrecorded m img s s' \<longleftrightarrow> state_file ''current.json'' s' = state_file ''current.json'' s \<and>
     state_file ''compose.json'' s' = state_file ''compose.json'' s \<and>
     state_file ''previous.json'' s' \<in> {state_file ''previous.json'' s, state_file ''current.json'' s} \<and>
     (sv_active s' = sv_active s \<or> img \<in> set (sv_pulled s') \<and> sv_active s' = Some (override_json m))"

definition recorded :: "json \<Rightarrow> string \<Rightarrow> server \<Rightarrow> server \<Rightarrow> bool" where
  "recorded m img s s' \<longleftrightarrow> state_file ''current.json'' s' = Some m \<and> img \<in> set (sv_pulled s') \<and>
     sv_active s' = Some (override_json m) \<and>
     (\<forall>p. state_file ''current.json'' s = Some p \<and> p \<noteq> JNull \<longrightarrow> state_file ''previous.json'' s' = Some p)"

lemma deploy_prefix:
  assumes "k \<le> length ds" and "s' = fold snd (take k ds) s"
    and "ds = fetch_deeds r m img @ record_deeds r m (state_file ''current.json'' s)"
  shows "unrecorded m img s s' \<or> recorded m img s s' \<and>
      state_file ''compose.json'' s' \<in> {state_file ''compose.json'' s, Some (override_json m)}"
    and "k = length ds \<Longrightarrow> recorded m img s s' \<and> state_file ''compose.json'' s' = Some (override_json m)"
proof -
  consider "state_file ''current.json'' s = None \<or> state_file ''current.json'' s = Some JNull"
    | p where "state_file ''current.json'' s = Some p" "p \<noteq> JNull" by (cases "state_file ''current.json'' s") auto
  then have "(unrecorded m img s s' \<or> recorded m img s s' \<and>
      state_file ''compose.json'' s' \<in> {state_file ''compose.json'' s, Some (override_json m)}) \<and>
    (k = length ds \<longrightarrow> recorded m img s s' \<and> state_file ''compose.json'' s' = Some (override_json m))"
  proof cases
    case 1
    then have "k \<in> {0, 1, 2, 3, 4, 5}" "length ds = 5" using assms(1,3) by (auto simp: fetch_deeds_def record_deeds_def)
    then show ?thesis using 1 assms(2,3) unfolding fetch_deeds_def record_deeds_def
      by (elim insertE) (auto simp: unrecorded_def recorded_def numeral_eq_Suc)
  next
    case 2
    then have "k \<in> {0, 1, 2, 3, 4, 5, 6}" "length ds = 6" using assms(1,3) by (auto simp: fetch_deeds_def record_deeds_def)
    then show ?thesis using 2 assms(2,3) unfolding fetch_deeds_def record_deeds_def
      by (elim insertE) (auto simp: unrecorded_def recorded_def numeral_eq_Suc)
  qed
  then show "unrecorded m img s s' \<or> recorded m img s s' \<and>
      state_file ''compose.json'' s' \<in> {state_file ''compose.json'' s, Some (override_json m)}"
    and "k = length ds \<Longrightarrow> recorded m img s s' \<and> state_file ''compose.json'' s' = Some (override_json m)" by blast+
qed

text \<open>
  C34: a deployment records exactly what it activated. However git, Docker, \<open>make\<close> and the disk
  answer, and wherever it is interrupted, a manifest that is not valid for this checkout
  changes nothing. Otherwise, either the record of the current release is as it was, and what
  was last activated is too unless it is this manifest's image, already pulled; or the manifest
  is recorded, its pulled image is what was last activated, and the release it replaced is kept
  as the previous one. If the deployment succeeds, the manifest and the override for later
  operations are recorded.
\<close>

theorem deploy_records_what_it_activated:
  "case deploy e content r s of (x, s') \<Rightarrow>
     (x \<noteq> Inr () \<and> s' = s) \<or>
     (\<exists>m img. Option.bind content json_loads_bytes = Some m \<and> validate e m = Inr img \<and>
        (x \<noteq> Inr () \<and> unrecorded m img s s' \<or>
         recorded m img s s' \<and> state_file ''compose.json'' s' \<in>
           (if x = Inr () then {Some (override_json m)} else {state_file ''compose.json'' s, Some (override_json m)})))"
proof -
  obtain x s' where d: "deploy e content r s = (x, s')" by fastforce
  show ?thesis
  proof (cases "Option.bind content json_loads_bytes")
    case None
    with d show ?thesis by (auto simp: deploy_def)
  next
    case (Some m)
    show ?thesis
    proof (cases "validate e m")
      case (Inl y)
      with Some d show ?thesis by (auto simp: deploy_def)
    next
      case (Inr img)
      let ?start = "fetch_deeds r m img"
      let ?ds = "?start @ record_deeds r m (state_file ''current.json'' s)"
      obtain ok where ok: "x = (if ok then Inr () else Inl CommandFailed)"
        "(ok, s') = (case compose_command e True of Inl _ \<Rightarrow> (False, snd (perform ?start s)) | Inr _ \<Rightarrow> perform ?ds s)"
        using d Some Inr by (auto simp: deploy_def Let_def state_file_def [symmetric] intro: sym split: prod.splits)
      have "\<exists>k \<le> length ?ds. s' = fold snd (take k ?ds) s \<and> (ok \<longrightarrow> k = length ?ds)"
      proof (cases "compose_command e True")
        case (Inl y)
        then obtain ok' where "perform ?start s = (ok', s')" "\<not> ok" using ok(2) by (cases "perform ?start s") auto
        from perform_prefix [OF this(1)] obtain k where "k \<le> length ?start" "s' = fold snd (take k ?start) s" by blast
        moreover from this(1) have "take k ?ds = take k ?start" "k \<le> length ?ds" by simp_all
        ultimately show ?thesis using \<open>\<not> ok\<close> by (intro exI [of _ k]) (simp only: simp_thms)
      next
        case (Inr c)
        with ok(2) have "perform ?ds s = (ok, s')" by simp
        from perform_prefix [OF this] show ?thesis .
      qed
      then obtain k where k: "k \<le> length ?ds" "s' = fold snd (take k ?ds) s" "ok \<longrightarrow> k = length ?ds" by blast
      from deploy_prefix [OF k(1,2) refl] k(3) ok(1) d Some Inr show ?thesis by auto
    qed
  qed
qed

text \<open>What is built and published is what validation accepts.\<close>

lemma find_prefix: "find (prefix p) rs = Some x \<Longrightarrow> x \<in> set rs \<and> prefix p x"
  by (auto simp: find_Some_iff)

lemma before_last_tag:
  assumes "c \<notin> set t"
  shows "before_last c (p @ c # t) = p"
proof -
  have "dropWhile (\<lambda>x. x \<noteq> c) (rev t @ c # rev p) = c # rev p"
    using assms by (subst dropWhile_append2) auto
  then show ?thesis by (simp add: before_last_def)
qed

lemma build_manifest:
  assumes "build e = Inr (cmd, m)"
  shows "\<exists>repo sha. repository_of (im_env e) = Inr repo \<and> revision_of e = Inr sha \<and>
    m = manifest_json sha (repo @ '':'' @ build_tag (im_env e) sha)"
  using assms by (auto simp: build_def Let_def res_bind_Inr split: if_splits option.splits json.splits)

lemma repository_no_at:
  assumes "repository_of env = Inr repo"
  shows "\<forall>c \<in> set repo. c \<noteq> CHR ''@''"
proof -
  have split: "CHR ''@'' \<in> set s \<Longrightarrow> \<exists>w \<in> set (py_split CHR ''/'' s). CHR ''@'' \<in> set w" for s
    by (induction s) (auto split: list.splits)
  have part: "repository_part w \<Longrightarrow> CHR ''@'' \<notin> set w" for w
    by (auto simp: repository_part_def list_all_iff is_digit_def is_lower_def split: list.splits)
  have "repository_ok repo" using assms by (auto simp: repository_of_def Let_def split: if_splits)
  then obtain a b where ab: "py_split CHR ''/'' repo = [''ghcr.io'', a, b]" "repository_part a" "repository_part b"
    by (auto simp: repository_ok_def split: list.splits)
  with split [of repo] part show ?thesis by auto
qed

text \<open>
  What is built and published can be deployed. When a build has succeeded and its image has
  been published - Docker answering with digest references of 64 hexadecimal digits, and the
  tag without a further colon - the manifest for deployment passes the validation of the same
  checkout, and maps both services to a digest reference of the repository that Docker reported.
\<close>

theorem published_releases_validate:
  assumes "build e = Inr (cmd, m)" and "publish e pushed digests m = Inr m'"
    and "CHR '':'' \<notin> set (build_tag (im_env e) sha)" and "revision_of e = Inr sha"
    and "\<And>refs r. Option.bind digests str_list = Some refs \<Longrightarrow> r \<in> set refs \<Longrightarrow>
      (\<exists>n h. r = n @ ''@sha256:'' @ h \<and> class_match is_lower_hex 64 64 h \<and> CHR ''@'' \<notin> set n)"
  shows "\<exists>refs r. Option.bind digests str_list = Some refs \<and> r \<in> set refs \<and> validate e m' = Inr r \<and>
    Option.bind (json_obj m') manifest_images = Some (map (\<lambda>n. (n, r)) services)"
proof -
  obtain repo where repo: "repository_of (im_env e) = Inr repo" and m: "m = manifest_json sha (repo @ '':'' @ build_tag (im_env e) sha)"
    using build_manifest [OF assms(1)] assms(4) by auto
  let ?tag = "repo @ '':'' @ build_tag (im_env e) sha"
  have repo': "before_last CHR '':'' ?tag = repo" using before_last_tag [OF assms(3)] by simp
  obtain refs r where refs: "Option.bind digests str_list = Some refs" and r: "find (prefix (repo @ ''@sha256:'')) refs = Some r"
    and m': "m' = manifest_json sha r"
    using assms(2,4) repo repo' unfolding m manifest_json_def publish_def services_def
    by (auto simp: manifest_images_def split: if_splits option.splits)
  from find_prefix [OF r] obtain h where mem: "r \<in> set refs" and h: "r = repo @ ''@sha256:'' @ h" by (auto simp: prefix_def)
  then obtain n h' where n: "r = n @ ''@sha256:'' @ h'" "class_match is_lower_hex 64 64 h'" "CHR ''@'' \<notin> set n"
    using assms(5) [OF refs] by blast
  have "takeWhile (\<lambda>c. c \<noteq> CHR ''@'') r = repo" using h repository_no_at [OF repo] by (simp add: takeWhile_append)
  moreover have "takeWhile (\<lambda>c. c \<noteq> CHR ''@'') r = n" using n(1,3) by (simp add: takeWhile_append)
  ultimately have "digest_ref repo r" using n(1,2) by (simp add: digest_ref_def)
  then have "manifest_ok repo sha m' = Some r" "Option.bind (json_obj m') manifest_images = Some (map (\<lambda>n. (n, r)) services)"
    by (simp_all add: m' manifest_ok_def manifest_json_def manifest_images_def services_def)
  with refs mem assms(4) repo show ?thesis by (simp add: validate_def)
qed

definition demo_images :: images_env where
  "demo_images = \<lparr>im_env = map_of [(''IMAGE_COMPOSE_FILES'', ''compose.yml''), (''IMAGE_REPOSITORY'', ''ghcr.io/o/t'')], im_root = ''/srv'',
     git_head = Some (replicate 40 CHR ''a''),
     compose_model = Some (JObj [(''services'', JObj (map (\<lambda>n. (n, JObj [(''build'', JObj [(''context'', JStr ''.'')])])) services))]),
     env_file_exists = False\<rparr>"

definition demo_digest_ref :: string where
  "demo_digest_ref = ''ghcr.io/o/t@sha256:'' @ replicate 64 CHR ''b''"

theorem published_releases_validate_witness:
  "\<exists>cmd m m'. build demo_images = Inr (cmd, m) \<and> publish demo_images True (Some (JList [JStr demo_digest_ref])) m = Inr m' \<and>
     validate demo_images m' = Inr demo_digest_ref"
proof -
  let ?sha = "replicate 40 CHR ''a''" and ?d = "Some (JList [JStr demo_digest_ref])"
  have "case build demo_images of Inl _ \<Rightarrow> False | Inr (cmd, m) \<Rightarrow>
      (case publish demo_images True ?d m of Inl _ \<Rightarrow> False | Inr _ \<Rightarrow> True)" by code_simp
  then obtain cmd m where m: "build demo_images = Inr (cmd, m)"
    "case publish demo_images True ?d m of Inl _ \<Rightarrow> False | Inr _ \<Rightarrow> True"
    by (cases "build demo_images") auto
  then obtain m' where b: "build demo_images = Inr (cmd, m)" "publish demo_images True ?d m = Inr m'"
    by (cases "publish demo_images True ?d m") auto
  have tag: "CHR '':'' \<notin> set (build_tag (im_env demo_images) ?sha)" and sha: "revision_of demo_images = Inr ?sha" by code_simp+
  have "demo_digest_ref = ''ghcr.io/o/t'' @ ''@sha256:'' @ replicate 64 CHR ''b''" by (simp add: demo_digest_ref_def)
  moreover have "class_match is_lower_hex 64 64 (replicate 64 CHR ''b'')" by code_simp
  ultimately have refs: "\<exists>n h. r = n @ ''@sha256:'' @ h \<and> class_match is_lower_hex 64 64 h \<and> CHR ''@'' \<notin> set n"
    if "Option.bind ?d str_list = Some rs" "r \<in> set rs" for rs r
    using that by (intro exI [of _ "''ghcr.io/o/t''"] exI [of _ "replicate 64 CHR ''b''"]) auto
  from published_releases_validate [OF b tag sha refs] b show ?thesis by auto
qed

theorem deploy_records_what_it_activated_witness:
  "\<exists>s'. deploy demo_images (Some (json_dumps (manifest_json (replicate 40 CHR ''a'') demo_digest_ref))) (\<lambda>_. Succeeds)
       \<lparr>sv_files = [], sv_pulled = [], sv_active = None\<rparr> = (Inr (), s') \<and>
     state_file ''current.json'' s' = Some (manifest_json (replicate 40 CHR ''a'') demo_digest_ref) \<and>
     demo_digest_ref \<in> set (sv_pulled s')"
proof -
  let ?m = "manifest_json (replicate 40 CHR ''a'') demo_digest_ref" and ?s = "\<lparr>sv_files = [], sv_pulled = [], sv_active = None\<rparr>"
  have ok: "dumpable ?m" "unique_keys ?m" by (simp_all add: manifest_json_def services_def)
  then have m: "json_loads_bytes (json_dumps ?m) = Some ?m"
    using json_loads_dumps(1) [OF ok] dumps_plain [OF ok(1)] by (simp add: json_loads_bytes_def decode_bytes_ascii)
  have v: "validate demo_images ?m = Inr demo_digest_ref" by code_simp
  obtain c where c: "compose_command demo_images True = Inr c" by (simp add: compose_command_def demo_images_def)
  obtain s' where d: "deploy demo_images (Some (json_dumps ?m)) (\<lambda>_. Succeeds) ?s = (Inr (), s')"
    by (simp add: deploy_def m v c fetch_deeds_def record_deeds_def)
  with deploy_records_what_it_activated [where e = demo_images and content = "Some (json_dumps ?m)" and
        r = "\<lambda>_. Succeeds" and s = ?s] m v show ?thesis
    by (auto simp: recorded_def)
qed

end
