(* ===== verification/WorkerConfig.thy ===== *)
theory WorkerConfig
  imports RemoteWorker Inference
begin

text \<open>
  The settings of a remote worker: \<open>Config\<close> of \<open>whisper/remote_worker.py\<close>, the check of the
  selected containers in \<open>scripts/validate_workers.py\<close>, and the readiness file of
  \<open>whisper/worker_health.py\<close>.
\<close>

section \<open>The endpoint\<close>

text \<open>\<open>str.partition\<close> and \<open>str.rpartition\<close>: the text before, whether the separator occurs, the text after.\<close>

definition partition_at :: "char \<Rightarrow> string \<Rightarrow> string \<times> bool \<times> string" where
  "partition_at c s = (takeWhile (\<lambda>x. x \<noteq> c) s, c \<in> set s, drop 1 (dropWhile (\<lambda>x. x \<noteq> c) s))"

definition rpartition_at :: "char \<Rightarrow> string \<Rightarrow> string \<times> bool \<times> string" where
  "rpartition_at c s = (if c \<in> set s
     then (rev (drop 1 (dropWhile (\<lambda>x. x \<noteq> c) (rev s))), True, rev (takeWhile (\<lambda>x. x \<noteq> c) (rev s)))
     else ([], False, s))"

text \<open>
  \<open>urlsplit("//" + endpoint)\<close> and the attributes the check reads. Tabs and line ends are
  removed. \<open>None\<close> is a \<open>ValueError\<close> of the split: unpaired brackets, or brackets around
  what is no address (\<open>bracketed_ok\<close> of the network location). A port that is no number up to
  65535 is \<open>tg_port = None\<close>, as an absent one; the name is in lower case up to a zone.
\<close>

record target =
  tg_host :: string
  tg_port :: "int option"
  tg_user :: bool
  tg_password :: bool
  tg_rest :: bool

definition port_of :: "string \<Rightarrow> int option" where
  "port_of s = (if s = [] \<or> \<not> list_all is_digit s then None
     else (case py_int s of Some p \<Rightarrow> if p \<le> 65535 then Some p else None | None \<Rightarrow> None))"

definition host_port :: "string \<Rightarrow> string \<times> int option" where
  "host_port info = (case partition_at CHR ''['' info of (_, open_bracket, bracketed) \<Rightarrow>
     if open_bracket then (case partition_at CHR '']'' bracketed of (h, _, p) \<Rightarrow> (h, port_of (snd (snd (partition_at CHR '':'' p)))))
     else (case partition_at CHR '':'' info of (h, _, p) \<Rightarrow> (h, port_of p)))"

definition split_target :: "(string \<Rightarrow> bool) \<Rightarrow> string \<Rightarrow> target option" where
  "split_target bracketed_ok endpoint = (let
     clean = filter (\<lambda>c. c \<notin> {CHR 0x09, CHR 0x0A, CHR 0x0D}) endpoint;
     netloc = takeWhile (\<lambda>c. c \<notin> set ''/?#'') clean;
     rest = drop (length netloc) clean in
     if (CHR ''['' \<in> set netloc) \<noteq> (CHR '']'' \<in> set netloc) \<or> (CHR ''['' \<in> set netloc \<and> \<not> bracketed_ok netloc) then None
     else (case rpartition_at CHR ''@'' netloc of (userinfo, have_user, info) \<Rightarrow>
       (case partition_at CHR '':'' userinfo of (user, have_password, password) \<Rightarrow>
        (case host_port info of (h, p) \<Rightarrow>
          Some \<lparr>tg_host = map lower_char (takeWhile (\<lambda>c. c \<noteq> CHR ''%'') h) @ dropWhile (\<lambda>c. c \<noteq> CHR ''%'') h, tg_port = p, tg_user = (user \<noteq> []), tg_password = (password \<noteq> []),
            tg_rest = (rest \<notin> {[], ''?'', ''#'', ''?#''})\<rparr>))))"

section \<open>The configuration of a worker\<close>

record worker_config =
  wc_endpoint :: string
  wc_token_file :: string
  wc_worker_id :: string
  wc_poll_interval :: wire_float
  wc_rpc_timeout :: wire_float
  wc_download_timeout :: wire_float
  wc_max_input_bytes :: int
  wc_tls :: bool
  wc_tls_ca_file :: string
  wc_shutdown_grace :: wire_float
  wc_health_file :: string
  wc_concurrency :: int
  wc_broker_file :: string
  wc_broker_ca_file :: string
  wc_max_task_seconds :: wire_float

definition positive_number :: "wire_float \<Rightarrow> bool" where
  "positive_number x = (case x of Finite q \<Rightarrow> 0 < q | NonFinite \<Rightarrow> False)"

text \<open>\<open>__post_init__\<close>; \<open>loopback\<close> says of a text that \<open>ipaddress\<close> reads it as a loopback address.\<close>

definition check_config :: "(string \<Rightarrow> bool) \<Rightarrow> (string \<Rightarrow> bool) \<Rightarrow> worker_config \<Rightarrow> (config_error, worker_config) result" where
  "check_config bracketed_ok loopback c =
     res_bind (worker_concurrency (py_str_int (wc_concurrency c))) (\<lambda>_. case split_target bracketed_ok (wc_endpoint c) of
       None \<Rightarrow> Inl (InvalidSetting ''REMOTE_WORKER_ENDPOINT'')
     | Some t \<Rightarrow>
       guard_setting (tg_host t \<noteq> [] \<and> (case tg_port t of None \<Rightarrow> False | Some p \<Rightarrow> 0 < p) \<and> \<not> tg_user t \<and> \<not> tg_password t \<and> \<not> tg_rest t)
         ''REMOTE_WORKER_ENDPOINT'' (
       guard_setting (wc_token_file c \<noteq> []) ''REMOTE_WORKER_TOKEN_FILE'' (
       guard_setting (worker_id_ok (wc_worker_id c)) ''WORKER_ID'' (
       guard_setting (list_all positive_number [wc_poll_interval c, wc_rpc_timeout c, wc_download_timeout c,
           Finite (of_int (wc_max_input_bytes c)), wc_shutdown_grace c, wc_max_task_seconds c]) ''limits'' (
       guard_setting (wc_tls c \<or> tg_host t = ''localhost'' \<or> loopback (tg_host t)) ''REMOTE_WORKER_TLS'' (
       Inr c))))))"

text \<open>
  \<open>from_env\<close>: \<open>generated\<close> is the identifier made of the host's name, \<open>number\<close> is Python's
  \<open>float\<close>, \<open>None\<close> its \<open>ValueError\<close>.
\<close>

definition getenv_float :: "(string \<Rightarrow> wire_float option) \<Rightarrow> env \<Rightarrow> string \<Rightarrow> string \<Rightarrow> (config_error, wire_float) result" where
  "getenv_float number env n d = (case number (getenv env n d) of None \<Rightarrow> Inl (InvalidSetting n) | Some x \<Rightarrow> Inr x)"

definition worker_config_from_env ::
  "(string \<Rightarrow> bool) \<Rightarrow> (string \<Rightarrow> bool) \<Rightarrow> (string \<Rightarrow> wire_float option) \<Rightarrow> string \<Rightarrow> env \<Rightarrow> (config_error, worker_config) result" where
  "worker_config_from_env bracketed_ok loopback number generated env =
     res_bind (audio_limit env) (\<lambda>audio.
     res_bind (getenv_int env ''REMOTE_WORKER_MAX_INPUT_BYTES'' (py_str_int audio)) (\<lambda>max_input.
     guard_setting (audio \<le> max_input) ''REMOTE_WORKER_MAX_INPUT_BYTES'' (
     res_bind (getenv_float number env ''WORKER_POLL_INTERVAL_S'' ''2'') (\<lambda>poll.
     res_bind (getenv_float number env ''REMOTE_WORKER_RPC_TIMEOUT_S'' ''15'') (\<lambda>rpc.
     res_bind (getenv_float number env ''REMOTE_WORKER_DOWNLOAD_TIMEOUT_S'' ''120'') (\<lambda>download.
     res_bind (getenv_float number env ''REMOTE_WORKER_SHUTDOWN_GRACE_S'' ''10'') (\<lambda>grace.
     res_bind (worker_concurrency (getenv env ''WORKER_CONCURRENCY'' ''1'')) (\<lambda>concurrency.
     res_bind (getenv_float number env ''REMOTE_WORKER_MAX_TASK_S'' ''21600'') (\<lambda>task_seconds.
     check_config bracketed_ok loopback \<lparr>wc_endpoint = getenv env ''REMOTE_WORKER_ENDPOINT'' ''localhost:50056'',
       wc_token_file = getenv env ''REMOTE_WORKER_TOKEN_FILE'' [], wc_worker_id = getenv env ''WORKER_ID'' generated,
       wc_poll_interval = poll, wc_rpc_timeout = rpc, wc_download_timeout = download, wc_max_input_bytes = max_input,
       wc_tls = (getenv env ''REMOTE_WORKER_TLS'' ''1'' = ''1''), wc_tls_ca_file = getenv env ''REMOTE_WORKER_TLS_CA_FILE'' [],
       wc_shutdown_grace = grace, wc_health_file = getenv env ''REMOTE_WORKER_HEALTH_FILE'' [], wc_concurrency = concurrency,
       wc_broker_file = getenv env ''RABBITMQ_CONNECTION_FILE'' [], wc_broker_ca_file = getenv env ''RABBITMQ_CA_FILE'' [],
       wc_max_task_seconds = task_seconds\<rparr>)))))))))"

definition generated_id :: "string \<Rightarrow> string \<Rightarrow> string" where
  "generated_id hostname hex = take 90 (map (\<lambda>c. if id_char c then c else CHR ''_'') hostname) @ ''-'' @ hex"

section \<open>The selected containers\<close>

text \<open>
  \<open>validate_workers.validate\<close> of the document that \<open>docker compose config\<close> prints; anything of
  an unexpected type is refused by an exception.
\<close>

datatype deployment_error = NoWorkers | BadConcurrency | NoTokenPath | NoTls | NoBrokerPath | SharedToken

record worker_service =
  ws_environment :: "(string \<times> string) list"
  ws_mounts :: "(string \<times> string) list"

definition sources_of :: "worker_service \<Rightarrow> string \<Rightarrow> string list" where
  "sources_of w p = map snd (filter (\<lambda>(goal, source). goal = p) (ws_mounts w))"

definition usable :: "string list \<Rightarrow> bool" where
  "usable sources \<longleftrightarrow> length sources = 1 \<and> \<not> prefix ''/missing/'' (hd sources)"

definition service_env :: "worker_service \<Rightarrow> env" where
  "service_env w = map_of (ws_environment w)"

definition validate_service :: "worker_service \<Rightarrow> deployment_error option" where
  "validate_service w =
     (case worker_concurrency (getenv (service_env w) ''WORKER_CONCURRENCY'' ''1'') of Inl _ \<Rightarrow> Some BadConcurrency
      | Inr _ \<Rightarrow>
      if \<not> usable (sources_of w ''/run/credentials/token'') then Some NoTokenPath
      else if service_env w ''REMOTE_WORKER_TLS'' \<noteq> Some ''1'' then Some NoTls
      else if getenv (service_env w) ''RABBITMQ_CONNECTION_FILE'' [] \<noteq> [] \<and> \<not> usable (sources_of w ''/run/rabbitmq'')
        then Some NoBrokerPath
      else None)"

definition validate_workers :: "(string \<times> worker_service) list \<Rightarrow> deployment_error option" where
  "validate_workers svcs = (let ws = map snd (filter (\<lambda>(n, _). n \<in> {''worker-cpu'', ''worker-gpu''}) svcs) in
     if ws = [] then Some NoWorkers
     else (case List.map_filter validate_service ws of
         x # _ \<Rightarrow> Some x
       | [] \<Rightarrow> if distinct (concat (map (\<lambda>w. sources_of w ''/run/credentials/token'') ws)) then None else Some SharedToken))"

section \<open>Readiness\<close>

text \<open>
  \<open>worker_health\<close>: the file holds the instant of the last report of readiness, or is absent.
  \<open>healthy\<close> is the container's check.
\<close>

definition report_health :: "string \<Rightarrow> bool \<Rightarrow> time \<Rightarrow> time option \<Rightarrow> time option" where
  "report_health path ready now f = (if path = [] then f else if ready then Some now else None)"

definition worker_healthy :: "time \<Rightarrow> time option \<Rightarrow> bool" where
  "worker_healthy now f = (case f of None \<Rightarrow> False | Some t \<Rightarrow> 0 \<le> now - t \<and> now - t \<le> secs 45)"

section \<open>A worker that starts takes every recording\<close>

lemma check_config_ok:
  assumes "check_config bracketed_ok loopback c = Inr c'"
  shows "c' = c \<and> worker_id_ok (wc_worker_id c) \<and> wc_token_file c \<noteq> [] \<and>
    (\<exists>t p. split_target bracketed_ok (wc_endpoint c) = Some t \<and> tg_port t = Some p \<and> 0 < p \<and> p \<le> 65535 \<and> tg_host t \<noteq> [] \<and>
       (wc_tls c \<or> tg_host t = ''localhost'' \<or> loopback (tg_host t)))"
proof -
  have port: "port_of s = Some p \<Longrightarrow> p \<le> 65535" for s p
    by (auto simp: port_of_def split: if_splits option.splits)
  have "tg_port t = Some p \<Longrightarrow> p \<le> 65535" if "split_target bracketed_ok x = Some t" for x t p
    using that port by (auto simp: split_target_def host_port_def partition_at_def Let_def split: if_splits prod.splits)
  then show ?thesis using assms
    by (auto simp: check_config_def result_simps split: option.splits)
qed

lemma receive_exact:
  assumes "list_all (\<lambda>(halted, c). \<not> halted) cs" and "n + int (length (concat (map snd cs))) = wanted" and "wanted \<le> limit"
  shows "receive_audio limit wanted False n cs = None"
  using assms
proof (induction cs arbitrary: n)
  case (Cons hc cs)
  obtain h c where hc: "hc = (h, c)" by fastforce
  have "0 \<le> int (length (concat (map snd cs)))" by simp
  with Cons.prems hc have "n + int (length c) \<le> wanted" by simp
  with Cons hc show ?case by (simp add: Let_def)
qed simp


definition demo_worker_env :: env where
  "demo_worker_env = map_of [(''REMOTE_WORKER_TOKEN_FILE'', ''/t''), (''WORKER_ID'', ''gpu''), (''MAX_AUDIO_BYTES'', ''7''),
     (''REMOTE_WORKER_ENDPOINT'', ''localhost:7'')]"


end
