(* ===== verification/Dashboards.thy ===== *)
theory Dashboards
  imports MetricsProps
begin

text \<open>
  \<open>scripts/render_dashboards.py\<close>: the two dashboards - their panels' places, kinds, units and
  queries - and the rules made of them for checking. The texts for the reader (titles, legends,
  descriptions, colours and other display options) are not modelled.
\<close>

section \<open>Panels\<close>

record query =
  qu_ref :: char
  qu_expr :: string
  qu_range :: bool
  qu_instant :: bool
  qu_format :: string

record panel =
  pn_kind :: string
  pn_x :: nat
  pn_y :: nat
  pn_w :: nat
  pn_h :: nat
  pn_queries :: "query list"
  pn_unit :: string
  pn_id :: nat

definition panel_at :: "string \<Rightarrow> nat \<Rightarrow> nat \<Rightarrow> nat \<Rightarrow> nat \<Rightarrow> string list \<Rightarrow> string \<Rightarrow> panel" where
  "panel_at kind x y w h exprs unit = \<lparr>pn_kind = kind, pn_x = x, pn_y = y, pn_w = w, pn_h = h,
     pn_queries = map (\<lambda>(i, e). \<lparr>qu_ref = char_of (65 + i), qu_expr = e, qu_range = True, qu_instant = False,
       qu_format = []\<rparr>) (enumerate 0 exprs),
     pn_unit = unit, pn_id = 0\<rparr>"

text \<open>\<open>target.update(range=False, instant=True)\<close> of the first query, and a format if given.\<close>

definition first_instant :: "string \<Rightarrow> panel \<Rightarrow> panel" where
  "first_instant fmt p = p\<lparr>pn_queries := (case pn_queries p of [] \<Rightarrow> []
     | q # qs \<Rightarrow> q\<lparr>qu_range := False, qu_instant := True, qu_format := fmt\<rparr> # qs)\<rparr>"

definition stat :: "string \<Rightarrow> nat \<Rightarrow> panel" where
  "stat expr x = first_instant [] (panel_at ''stat'' x 0 4 4 [expr] ''short'')"

definition timeline :: "string \<Rightarrow> nat \<Rightarrow> nat \<Rightarrow> nat \<Rightarrow> panel" where
  "timeline expr x y w = panel_at ''state-timeline'' x y w 8 [expr] ''short''"

definition text_panel :: "nat \<Rightarrow> panel" where
  "text_panel y = panel_at ''text'' 0 y 24 4 [] ''short''"

definition series :: "nat \<Rightarrow> nat \<Rightarrow> nat \<Rightarrow> nat \<Rightarrow> string list \<Rightarrow> string \<Rightarrow> panel" where
  "series = panel_at ''timeseries''"

section \<open>The overview\<close>

definition overview :: "panel list" where
  "overview = [
     stat (''max(up{service=\"transcriber\"})'') 0,
     stat (''sum(transcriber_worker_online{worker_role=\"preferred\"})'') 4,
     stat (''sum(transcriber_jobs{status=\"queued\"})'') 8,
     stat ''sum(transcriber_worker_active_jobs)'' 12,
     stat ''sum(increase(transcriber_jobs_completed_total[$__range]))'' 16,
     stat ''sum(increase(transcriber_jobs_failed_total[$__range]))'' 20,
     timeline ''transcriber_worker_state'' 0 4 12,
     series 12 4 12 8 [''sum(transcriber_jobs{status=\"queued\"})'', ''sum(transcriber_worker_active_jobs)'',
       ''sum(transcriber_jobs{status=~\"accepted|downloading\"})''] ''short'',
     series 0 12 8 7 [''transcriber_queue_oldest_wait_seconds''] ''s'',
     series 8 12 8 7 [''sum by(worker_id)(rate(transcriber_jobs_completed_total{worker_id!~\"ingress|other\"}'' @
       ''[$__rate_interval])) * 60''] ''short'',
     series 16 12 8 7 [''sum(rate(transcriber_retry_attempts_total[$__rate_interval])) * 60'',
       ''sum(rate(transcriber_attempt_failures_total[$__rate_interval])) * 60'',
       ''sum(rate(transcriber_lease_expirations_total[$__rate_interval])) * 60''] ''short'',
     series 0 19 12 8 [
       ''histogram_quantile(0.95, sum by(le)(rate(transcriber_job_queue_wait_seconds_bucket[$__rate_interval])))'',
       ''histogram_quantile(0.95, sum by(le)(rate(transcriber_job_processing_seconds_bucket[$__rate_interval])))'',
       ''histogram_quantile(0.95, sum by(le)(rate(transcriber_job_turnaround_seconds_bucket[$__rate_interval])))''] ''s'',
     series 12 19 12 8 [''transcriber_results_unacknowledged'', ''transcriber_queue_retry_jobs'', ''transcriber_expired_leases'']
       ''short'',
     text_panel 27]"

section \<open>The workers\<close>

definition selector :: string where
  "selector = ''{worker_id=~\"$worker\",worker_id!~\"ingress|other\"}''"

text \<open>The list as first written; two panels then go before its last one.\<close>

definition workers_base :: "panel list" where
  "workers_base = [
     stat (''sum(transcriber_worker_online'' @ selector @ '')'') 0,
     stat (''sum(transcriber_worker_active_jobs'' @ selector @ '')'') 4,
     stat (''sum(increase(transcriber_jobs_completed_total'' @ selector @ ''[$__range]))'') 8,
     stat (''sum(increase(transcriber_attempt_failures_total'' @ selector @ ''[$__range]))'') 12,
     stat (''sum(increase(transcriber_lease_expirations_total'' @ selector @ ''[$__range]))'') 16,
     stat (''max(up{service=\"transcriber\"})'') 20,
     timeline (''transcriber_worker_state'' @ selector) 0 4 24,
     panel_at ''table'' 0 12 8 8 [''transcriber_worker_state'' @ selector] ''short'',
     series 8 12 8 8 [''transcriber_worker_last_report_age_seconds'' @ selector] ''s'',
     panel_at ''bargauge'' 16 12 8 8 [''avg_over_time(transcriber_worker_online'' @ selector @ ''[$__range]) * 100''] ''percent'',
     series 0 20 12 8 [''sum by(worker_id)(rate(transcriber_jobs_completed_total'' @ selector @ ''[$__rate_interval])) * 60''] ''short'',
     series 12 20 12 8 [''histogram_quantile(0.95, sum by(le,worker_id)(rate(transcriber_job_processing_seconds_bucket'' @
       selector @ ''[$__rate_interval])))''] ''s'',
     series 0 28 12 7 [''transcriber_worker_progress_percent'' @ selector] ''percent'',
     series 12 28 12 7 [''transcriber_worker_attempt_age_seconds'' @ selector] ''s'',
     series 0 35 12 7 [''transcriber_worker_instances'' @ selector] ''short'',
     series 12 35 12 7 [''sum by(worker_id)(rate(transcriber_attempt_failures_total'' @ selector @
       ''[$__rate_interval])) * 60''] ''short'',
     text_panel 49]"

definition policy_panels :: "panel list" where
  "policy_panels = [
     series 0 42 12 7 [''transcriber_worker_free_slots'' @ selector, ''transcriber_worker_capacity'' @ selector] ''short'',
     series 12 42 12 7 [''transcriber_worker_priority'' @ selector] ''short'']"

text \<open>\<open>workers[7]\<close> becomes an instant table and \<open>workers[9]\<close> an instant gauge.\<close>

definition workers_page :: "panel list" where
  "workers_page = (let ps = butlast workers_base @ policy_panels @ [last workers_base];
     qs = ps[7 := first_instant ''table'' (ps ! 7)] in qs[9 := first_instant [] (qs ! 9)])"

text \<open>\<open>dashboard\<close> numbers the panels from one.\<close>

definition dashboard :: "panel list \<Rightarrow> panel list" where
  "dashboard ps = map (\<lambda>(i, p). p\<lparr>pn_id := i\<rparr>) (enumerate 1 ps)"

definition dashboards :: "(string \<times> panel list) list" where
  "dashboards = [(''transcriber-overview.json'', dashboard overview), (''transcriber-workers.json'', dashboard workers_page)]"

section \<open>Rules\<close>

text \<open>\<open>str.replace\<close> of a non-empty text\<close>

function py_replace :: "string \<Rightarrow> string \<Rightarrow> string \<Rightarrow> string" where
  "py_replace a b s = (case s of [] \<Rightarrow> []
     | c # cs \<Rightarrow> if a \<noteq> [] \<and> prefix a s then b @ py_replace a b (drop (length a) s) else c # py_replace a b cs)"
  by pat_completeness auto
termination
  by (relation "measure (\<lambda>(a, b, s). length s)") (auto simp: prefix_def)

declare py_replace.simps [simp del]

definition rule_of :: "string \<Rightarrow> string" where
  "rule_of e = py_replace ''$worker'' ''.*'' (py_replace ''$__range'' ''6h'' (py_replace ''$__rate_interval'' ''1m'' e))"

definition expressions :: "string list" where
  "expressions = concat (map (\<lambda>(n, ps). concat (map (\<lambda>p. map qu_expr (pn_queries p)) ps)) dashboards)"

definition dashboard_rules :: "(string \<times> string) list" where
  "dashboard_rules = map (\<lambda>(i, e). (''transcriber_dashboard_expression_'' @ py_str_int (int i), rule_of e)) (enumerate 0 expressions)"

text \<open>\<open>main --check\<close>: the panels' numbers differ and they fit the grid.\<close>

definition layout_checked :: "panel list \<Rightarrow> bool" where
  "layout_checked ps \<longleftrightarrow> distinct (map pn_id ps) \<and> list_all (\<lambda>p. pn_x p + pn_w p \<le> 24) ps"

section \<open>What the dashboards ask for\<close>

text \<open>The names of this service's series in an expression: words that start with the prefix.\<close>

definition word_char :: "char \<Rightarrow> bool" where
  "word_char c \<longleftrightarrow> is_alnum c \<or> c = CHR ''_''"

fun words_of :: "string \<Rightarrow> string \<Rightarrow> string list" where
  "words_of w [] = [rev w]"
| "words_of w (c # cs) = (if word_char c then words_of (c # w) cs else rev w # words_of [] cs)"

definition series_names :: "string \<Rightarrow> string list" where
  "series_names e = filter (prefix ''transcriber_'') (words_of [] e)"

definition asked :: "string list" where
  "asked = [''jobs'', ''queue_oldest_wait_seconds'', ''queue_retry_jobs'', ''expired_leases'', ''results_unacknowledged'',
     ''worker_online'', ''worker_state'', ''worker_instances'', ''worker_last_report_age_seconds'', ''worker_active_jobs'',
     ''worker_progress_percent'', ''worker_attempt_age_seconds'', ''worker_priority'', ''worker_capacity'', ''worker_free_slots'',
     ''jobs_completed_total'', ''jobs_failed_total'', ''retry_attempts_total'', ''attempt_failures_total'', ''lease_expirations_total'',
     ''job_queue_wait_seconds_bucket'', ''job_processing_seconds_bucket'', ''job_turnaround_seconds_bucket'']"

definition asks :: "string \<Rightarrow> bool" where
  "asks e \<longleftrightarrow> list_all (\<lambda>n. prefix ''transcriber_'' n \<and> drop 12 n \<in> set asked) (series_names e)"

definition panel_all :: "(string \<Rightarrow> bool) \<Rightarrow> panel \<Rightarrow> bool" where
  "panel_all P p \<longleftrightarrow> list_all (\<lambda>q. P (qu_expr q)) (pn_queries p)"

lemma panel_all_simps [simp]:
  "panel_all P (panel_at k x y w h es u) \<longleftrightarrow> list_all P es"
  "panel_all P (first_instant f p) \<longleftrightarrow> panel_all P p"
  "panel_all P (p\<lparr>pn_id := i\<rparr>) \<longleftrightarrow> panel_all P p"
proof -
  have "list_all (\<lambda>q. P (qu_expr q)) (map (\<lambda>(i, e). \<lparr>qu_ref = char_of (65 + i), qu_expr = e, qu_range = True,
      qu_instant = False, qu_format = []\<rparr>) (enumerate n es)) \<longleftrightarrow> list_all P es" for n :: nat
    by (induction es arbitrary: n) simp_all
  then show "panel_all P (panel_at k x y w h es u) \<longleftrightarrow> list_all P es" by (simp add: panel_all_def panel_at_def)
qed (simp_all add: panel_all_def first_instant_def split: list.split)

text \<open>The characters of the queries, as facts to evaluate \<open>words_of\<close> with.\<close>

lemma word_chars: "list_all word_char ''abcdefghijklmnopqrstuvwxyz_0123456789''"
  by code_simp

lemma other_chars: "list_all (\<lambda>c. \<not> word_char c) ''(){}[]=~\"|,.*$! ''"
  by code_simp

lemmas char_facts = word_chars [simplified] other_chars [simplified]

lemmas panel_defs = stat_def series_def timeline_def text_panel_def

lemma workers_page_all:
  assumes "list_all (panel_all P) workers_base" and "list_all (panel_all P) policy_panels"
  shows "list_all (panel_all P) workers_page"
proof -
  have split: "workers_base = butlast workers_base @ [last workers_base]" by (simp add: workers_base_def)
  have "list_all (panel_all P) (butlast workers_base @ [last workers_base])"
    using assms(1) by (simp only: split [symmetric])
  then have base: "list_all (panel_all P) (butlast workers_base @ policy_panels @ [last workers_base])"
    using assms(2) by simp
  have len: "7 < length (butlast workers_base @ policy_panels @ [last workers_base])"
    "9 < length (butlast workers_base @ policy_panels @ [last workers_base])"
    by (simp_all add: workers_base_def)
  have upd: "list_all (panel_all P) (ps[i := first_instant f (ps ! i)])" if "list_all (panel_all P) ps" "i < length ps" for ps i f
    using that by (auto simp: list_all_iff dest!: set_update_subset_insert [THEN subsetD])
  show ?thesis unfolding workers_page_def Let_def by (intro upd base) (use len in simp_all)
qed

lemma expressions_all:
  assumes "list_all (panel_all P) overview" and "list_all (panel_all P) workers_base" and "list_all (panel_all P) policy_panels"
  shows "list_all P expressions"
proof -
  have number: "list_all (panel_all P) (map (\<lambda>(i, p). p\<lparr>pn_id := i\<rparr>) (enumerate n ps)) \<longleftrightarrow> list_all (panel_all P) ps" for n ps
    by (induction ps arbitrary: n) simp_all
  have "list_all (panel_all P) (dashboard overview)" "list_all (panel_all P) (dashboard workers_page)"
    using assms(1) workers_page_all [OF assms(2,3)] by (simp_all only: dashboard_def number)
  then show ?thesis by (auto simp: expressions_def dashboards_def list_all_iff panel_all_def)
qed

lemma expressions_ask: "list_all asks expressions"
proof (rule expressions_all)
  show "list_all (panel_all asks) overview"
    by (simp add: overview_def panel_defs asks_def series_names_def char_facts asked_def)
  show "list_all (panel_all asks) workers_base"
    by (simp add: workers_base_def selector_def panel_defs asks_def series_names_def char_facts asked_def)
  show "list_all (panel_all asks) policy_panels"
    by (simp add: policy_panels_def selector_def panel_defs asks_def series_names_def char_facts asked_def)
qed

lemma py_replace_steps:
  "py_replace a b [] = []"
  "c \<noteq> d \<Longrightarrow> py_replace (d # a) b (c # cs) = c # py_replace (d # a) b cs"
  "py_replace (d # a) b (d # cs) =
     (if prefix a cs then b @ py_replace (d # a) b (drop (length a) cs) else d # py_replace (d # a) b cs)"
  by (subst py_replace.simps, simp)+

lemma expressions_complete: "list_all (\<lambda>e. CHR ''$'' \<notin> set (rule_of e)) expressions"
proof (rule expressions_all)
  show "list_all (panel_all (\<lambda>e. CHR ''$'' \<notin> set (rule_of e))) overview"
    by (simp add: overview_def panel_defs rule_of_def py_replace_steps)
  show "list_all (panel_all (\<lambda>e. CHR ''$'' \<notin> set (rule_of e))) workers_base"
    by (simp add: workers_base_def selector_def panel_defs rule_of_def py_replace_steps)
  show "list_all (panel_all (\<lambda>e. CHR ''$'' \<notin> set (rule_of e))) policy_panels"
    by (simp add: policy_panels_def selector_def panel_defs rule_of_def py_replace_steps)
qed

text \<open>The panels are laid out without overlap.\<close>

definition disjoint_panels :: "panel \<Rightarrow> panel \<Rightarrow> bool" where
  "disjoint_panels p q \<longleftrightarrow> pn_x p + pn_w p \<le> pn_x q \<or> pn_x q + pn_w q \<le> pn_x p \<or>
     pn_y p + pn_h p \<le> pn_y q \<or> pn_y q + pn_h q \<le> pn_y p"

fun pairwise_disjoint :: "panel list \<Rightarrow> bool" where
  "pairwise_disjoint [] = True"
| "pairwise_disjoint (p # ps) \<longleftrightarrow> list_all (disjoint_panels p) ps \<and> pairwise_disjoint ps"

lemma dashboards_laid_out: "list_all (\<lambda>(n, ps). layout_checked ps \<and> pairwise_disjoint ps) dashboards"
  by code_simp

lemma rules_complete: "list_all (\<lambda>(r, e). CHR ''$'' \<notin> set e) dashboard_rules"
proof -
  have "list_all (\<lambda>(r, e). CHR ''$'' \<notin> set e) (map (\<lambda>(i, e). (nm i, rule_of e)) (enumerate n es))"
    if "list_all (\<lambda>e. CHR ''$'' \<notin> set (rule_of e)) es" for es :: "string list" and n and nm :: "nat \<Rightarrow> string"
    using that by (induction es arbitrary: n) simp_all
  from this [OF expressions_complete] show ?thesis unfolding dashboard_rules_def .
qed

section \<open>What the page answers\<close>

lemma counter_names: "(fst c, snd c) \<in> set counters \<Longrightarrow> snd c @ ''_total'' \<in> sample_names (counter_lines ws t)"
proof -
  assume c: "(fst c, snd c) \<in> set counters"
  let ?v = "case t (''other'', fst c) of None \<Rightarrow> Missing | Some (k, _, _) \<Rightarrow> num k"
  have "Sample (snd c @ ''_total'') [(''worker_id'', ''other'')] ?v \<in> set (counter_lines ws t)"
    unfolding counter_lines_def set_concat set_map
    by (rule UN_I [OF imageI [OF c]]) (cases c; simp add: metric_labels_def)
  then show ?thesis by (auto simp: sample_names_def)
qed

lemma bucket_names:
  assumes "h \<in> set histograms" and "t (''other'', fst h) \<noteq> None"
  shows "snd h @ ''_bucket'' \<in> sample_names (histogram_lines ws t)"
proof -
  obtain e n where h: "h = (e, n)" by fastforce
  obtain c s bs where v: "t (''other'', e) = Some (c, s, bs)" using assms(2) h by auto
  have "Sample (n @ ''_bucket'') [(''worker_id'', ''other''), (''le'', ''+Inf'')] (num c) \<in>
      set (histogram_samples n ''other'' (c, s, bs))"
    by (simp add: histogram_samples_def)
  then have "Sample (n @ ''_bucket'') [(''worker_id'', ''other''), (''le'', ''+Inf'')] (num c) \<in> set (histogram_family ws t e n)"
    using v by (force simp: histogram_family_def metric_labels_def)
  with assms(1) h show ?thesis by (force simp: histogram_lines_def sample_names_def)
qed

lemma samples_names: "length vs = length ms \<Longrightarrow> sample_names (samples ms labels vs) = fst ` set ms"
proof (induction ms arbitrary: vs)
  case (Cons m ms)
  then obtain v us where "vs = v # us" "length us = length ms" by (cases vs) auto
  with Cons.IH [of us] show ?case by (simp add: samples_def)
qed (simp add: samples_def)

lemma worker_line_names:
  "fst ` set worker_metrics \<subseteq> sample_names (worker_lines sn pols (w, role))"
  "map_of pols w = Some p \<Longrightarrow> fst ` set policy_metrics \<subseteq> sample_names (worker_lines sn pols (w, role))"
  using samples_names [of "worker_values sn w" worker_metrics] samples_names [of "policy_values sn p w" policy_metrics]
  by (auto simp: worker_lines_def Let_def worker_values_def policy_values_def worker_metrics_def policy_metrics_def)

lemma asked_names:
  "set asked \<subseteq> sample_names (job_lines sn) \<union> fst ` set (worker_metrics @ policy_metrics) \<union>
     (\<lambda>c. snd c @ ''_total'') ` set counters \<union> (\<lambda>h. snd h @ ''_bucket'') ` set histograms"
  by (simp add: asked_def job_lines_def worker_metrics_def policy_metrics_def counters_def histograms_def)


definition shown_snapshot :: snapshot where
  "shown_snapshot = metrics_snapshot (demo_cfg Rabbitmq) 5 empty_db"


end
