(* ===== verification/Publisher.thy ===== *)
theory Publisher
  imports BrokerMode Broker ProvisionProps
begin

text \<open>
  The publishing side of \<open>whisper/broker.py\<close>: the topology, the publisher's connection and the
  loop that empties the outbox. RabbitMQ is what its answers are: each operation of a call is
  answered in time or not. With the permissions of \<open>scripts/provision_rabbitmq.py\<close>, the accounts
  can do what the code does and, for workers, nothing else.
\<close>

section \<open>The topology\<close>

text \<open>Exchanges are direct and durable, queues durable, messages persistent and mandatory.\<close>

datatype amqp =
  DeclareExchange string
| DeclareQueue string "(string \<times> json) list"
| BindQueue string string string
| PublishTo string string string string
| ConsumeFrom string

definition declare_topology :: "broker_config \<Rightarrow> amqp list" where
  "declare_topology c = (let tasks = broker_name c ''tasks''; defer = broker_name c ''defer''; dead = broker_name c ''dead'';
     jobs = broker_name c ''jobs''; retry = broker_name c ''retry'' in
   [DeclareExchange tasks, DeclareExchange defer,
    DeclareQueue dead [(''x-queue-type'', JStr ''quorum'')], BindQueue dead tasks ''dead'',
    DeclareQueue jobs [(''x-queue-type'', JStr ''quorum''), (''x-delivery-limit'', JInt (- 1)),
      (''x-dead-letter-exchange'', JStr tasks), (''x-dead-letter-routing-key'', JStr ''dead'')],
    BindQueue jobs tasks ''ready'',
    DeclareQueue retry [(''x-queue-type'', JStr ''quorum''), (''x-delivery-limit'', JInt (- 1)), (''x-message-ttl'', JInt 5000),
      (''x-overflow'', JStr ''reject-publish''), (''x-dead-letter-exchange'', JStr tasks), (''x-dead-letter-routing-key'', JStr ''ready'')],
    BindQueue retry defer ''retry''])"

text \<open>What \<open>Publisher._publish\<close> sends, and what \<open>consume_slot\<close> does at the broker.\<close>

definition task_message :: "broker_config \<Rightarrow> string \<Rightarrow> string \<Rightarrow> amqp" where
  "task_message c i m = PublishTo (broker_name c ''tasks'') ''ready'' (envelope i m) m"

definition delayed_copy :: "broker_config \<Rightarrow> string \<Rightarrow> string \<Rightarrow> amqp" where
  "delayed_copy c body m = PublishTo (broker_name c ''defer'') ''retry'' body m"

definition worker_consumes :: "broker_config \<Rightarrow> amqp" where
  "worker_consumes c = ConsumeFrom (broker_name c ''jobs'')"

section \<open>The publisher's connection\<close>

datatype net = Connect | OpenChannel | Send amqp | Disconnect

text \<open>The operations of a call until one is not answered; \<open>oks k\<close> says whether the \<open>k\<close>-th is.\<close>

fun attempt :: "(nat \<Rightarrow> bool) \<Rightarrow> nat \<Rightarrow> net list \<Rightarrow> bool \<times> net list" where
  "attempt oks k [] = (True, [])"
| "attempt oks k (n # ns) = (if oks k then (case attempt oks (Suc k) ns of (b, sent) \<Rightarrow> (b, n # sent)) else (False, []))"

text \<open>
  \<open>_ensure_ready\<close>: \<open>up\<close> says that there is a connection, \<open>gone\<close> that it has been closed
  meanwhile.
\<close>

definition ready_steps :: "broker_config \<Rightarrow> bool \<Rightarrow> bool \<Rightarrow> net list" where
  "ready_steps c up gone = (if \<not> up \<or> gone then [Connect, OpenChannel] @ map Send (declare_topology c) else [])"

text \<open>
  \<open>ensure_ready\<close> with nothing to send, \<open>publish\<close> with the message: a call that fails or takes
  too long closes the connection and raises. The result is whether it returned, what was
  answered, and whether there is a connection now.
\<close>

definition publisher_call ::
  "broker_config \<Rightarrow> amqp list \<Rightarrow> bool \<Rightarrow> (nat \<Rightarrow> bool) \<Rightarrow> bool \<Rightarrow> bool \<times> net list \<times> bool" where
  "publisher_call c ms gone oks up = (case attempt oks 0 (ready_steps c up gone @ map Send ms) of (ok, sent) \<Rightarrow>
     (ok, sent @ (if \<not> ok \<and> (up \<or> Connect \<in> set sent) then [Disconnect] else []), ok))"

section \<open>The loop over the outbox\<close>

datatype store_outcome = Commits | Unreachable | CommitLost

datatype turn_result = Published | NothingDue | Backoff

record outbox_turn =
  ou_stop :: bool
  ou_closed :: bool
  ou_ensure :: "nat \<Rightarrow> bool"
  ou_lost :: bool
  ou_publish :: "nat \<Rightarrow> bool"
  ou_store :: store_outcome
  ou_locked :: "string \<Rightarrow> bool"
  ou_clock :: clock
  ou_others :: "db \<Rightarrow> db"

text \<open>
  A turn of \<open>publish_outbox\<close>: the connection, then \<open>publish_next\<close> with the publisher. Besides
  the result it gives what the broker answered, the message marked as published, and the state.
\<close>

definition publish_turn ::
  "broker_config \<Rightarrow> outbox_turn \<Rightarrow> bool \<Rightarrow> db \<Rightarrow> turn_result \<times> net list \<times> (string \<times> string) option \<times> bool \<times> db" where
  "publish_turn c t up d = (case publisher_call c [] (ou_closed t) (ou_ensure t) up of (ok, tr, up1) \<Rightarrow>
     if \<not> ok \<or> ou_store t = Unreachable then (Backoff, tr, None, up1, d)
     else (case sql_outbox_next (ou_locked t) (reading (ou_clock t) 0) d of
         None \<Rightarrow> (if ou_store t = Commits then NothingDue else Backoff, tr, None, up1, d)
       | Some x \<Rightarrow>
           (case publisher_call c [task_message c (ox_job_id x) (message_id x)] (ou_lost t) (ou_publish t) up1 of (ok2, tr2, up2) \<Rightarrow>
              case publish_next (ou_locked t) (ou_clock t) (\<lambda>_ _. ok2) d of (res, sent, d') \<Rightarrow>
                if res = Inr True \<and> ou_store t = Commits then (Published, tr @ tr2, sent, up2, d')
                else (Backoff, tr @ tr2, None, up2, d))))"

text \<open>\<open>stop.wait\<close> after a turn, in seconds; the publisher is closed at the end.\<close>

definition pause_after :: "turn_result \<Rightarrow> rat" where
  "pause_after r = (case r of Published \<Rightarrow> 0 | NothingDue \<Rightarrow> 1 / 2 | Backoff \<Rightarrow> 2)"

fun publish_outbox ::
  "broker_config \<Rightarrow> outbox_turn list \<Rightarrow> bool \<Rightarrow> db \<Rightarrow> net list \<times> (string \<times> string) list \<times> db" where
  "publish_outbox c [] up d = ([], [], d)"
| "publish_outbox c (t # ts) up d =
     (if ou_stop t then (if up then [Disconnect] else [], [], d)
      else (case publish_turn c t up (ou_others t d) of (r, tr, sent, up', d') \<Rightarrow>
        case publish_outbox c ts up' d' of (tr', ms, d'') \<Rightarrow>
          (tr @ tr', (case sent of None \<Rightarrow> ms | Some m \<Rightarrow> m # ms), d'')))"

section \<open>Nothing is marked without its confirmation\<close>

text \<open>
  What is declared on the connection a list of answered operations ends with; \<open>None\<close> without
  one. On a \<open>sound\<close> list every task is published on a connection with the whole topology.
\<close>

fun declared_after :: "amqp set option \<Rightarrow> net \<Rightarrow> amqp set option" where
  "declared_after s Connect = Some {}"
| "declared_after s OpenChannel = s"
| "declared_after s (Send a) = map_option (insert a) s"
| "declared_after s Disconnect = None"

fun is_publication :: "net \<Rightarrow> bool" where
  "is_publication (Send (PublishTo _ _ _ _)) = True"
| "is_publication _ = False"

fun sound :: "broker_config \<Rightarrow> amqp set option \<Rightarrow> net list \<Rightarrow> bool" where
  "sound c s [] = True"
| "sound c s (n # ns) \<longleftrightarrow> (is_publication n \<longrightarrow> (case s of None \<Rightarrow> False | Some ds \<Rightarrow> set (declare_topology c) \<subseteq> ds)) \<and>
     sound c (declared_after s n) ns"

lemma sound_append: "sound c s (ns @ ms) \<longleftrightarrow> sound c s ns \<and> sound c (foldl declared_after s ns) ms"
  by (induction ns arbitrary: s) simp_all

definition connection_ok :: "broker_config \<Rightarrow> bool \<Rightarrow> amqp set option \<Rightarrow> bool" where
  "connection_ok c up s \<longleftrightarrow> (if up then \<exists>ds. s = Some ds \<and> set (declare_topology c) \<subseteq> ds else s = None)"

lemma attempt_prefix: "attempt oks k ns = (b, sent) \<Longrightarrow> prefix sent ns \<and> (b \<longrightarrow> sent = ns)"
  by (induction ns arbitrary: k b sent) (auto split: if_splits prod.splits)

lemma declared_sends: "foldl declared_after (Some ds) (map Send as) = Some (ds \<union> set as)"
  by (induction as arbitrary: ds) auto

lemma sound_declarations: "\<forall>a \<in> set as. \<not> is_publication (Send a) \<Longrightarrow> sound c s (map Send as)"
  by (induction as arbitrary: s) auto

lemma topology_no_publish: "\<forall>a \<in> set (declare_topology c). \<not> is_publication (Send a)"
  by (simp add: declare_topology_def Let_def)

lemma sound_ready:
  assumes "connection_ok c up s"
  shows "sound c s (ready_steps c up gone) \<and> connection_ok c True (foldl declared_after s (ready_steps c up gone))"
  using assms sound_declarations [OF topology_no_publish, of c "Some {}" c]
  by (auto simp: ready_steps_def connection_ok_def declared_sends)

text \<open>A call keeps the connection's state in step with what was answered.\<close>

lemma publisher_call_sound:
  assumes "publisher_call c ms gone oks up = (ok, tr, up')" and "connection_ok c up s"
  shows "sound c s tr \<and> connection_ok c up' (foldl declared_after s tr) \<and> (ok \<longrightarrow> up' \<and> set (map Send ms) \<subseteq> set tr)"
proof -
  let ?steps = "ready_steps c up gone @ map Send ms"
  obtain sent where sent: "attempt oks 0 ?steps = (ok, sent)" and tr: "tr = sent @ (if \<not> ok \<and> (up \<or> Connect \<in> set sent) then [Disconnect] else [])"
    and up': "up' = ok" using assms(1) by (auto simp: publisher_call_def split: prod.splits)
  note r = sound_ready [OF assms(2), of gone]
  obtain ds where ds: "foldl declared_after s (ready_steps c up gone) = Some ds" "set (declare_topology c) \<subseteq> ds"
    using r by (auto simp: connection_ok_def)
  have "sound c (Some ds) (map Send ms)" if "set (declare_topology c) \<subseteq> ds" for ds
    using that by (induction ms arbitrary: ds) (simp_all add: subset_insertI2)
  with r ds have steps: "sound c s ?steps" by (simp add: sound_append)
  obtain rest where rest: "?steps = sent @ rest" using attempt_prefix [OF sent] by (auto simp: prefix_def)
  from steps have snd: "sound c s sent" unfolding rest sound_append by blast
  show ?thesis
  proof (cases ok)
    case True
    with attempt_prefix [OF sent] tr have "tr = ?steps" by simp
    with True up' steps ds show ?thesis by (auto simp: connection_ok_def declared_sends)
  next
    case False
    have "s = None" "Connect \<notin> set sent \<Longrightarrow> sent = []" if "\<not> up"
      using that assms(2) rest by (auto simp: connection_ok_def ready_steps_def Cons_eq_append_conv)
    then have "connection_ok c False (foldl declared_after s tr)"
      using False tr by (auto simp: connection_ok_def)
    with snd False tr up' show ?thesis by (auto simp: sound_append)
  qed
qed

definition published_in :: "db \<Rightarrow> string \<Rightarrow> bool" where
  "published_in d m \<longleftrightarrow> list_ex (\<lambda>x. message_id x = m \<and> published_at x \<noteq> None) (outbox d)"

lemma publish_next_marks:
  assumes "publish_next lk c publish d = (Inr True, sent, d')"
  shows "\<exists>x. sql_outbox_next lk (reading c 0) d = Some x \<and> sent = Some (ox_job_id x, message_id x) \<and>
    outbox d' = update_where (\<lambda>y. message_id y = message_id x) (\<lambda>y. y\<lparr>published_at := Some (tx_now c)\<rparr>) (outbox d)"
  using assms by (auto simp: publish_next_def sql_outbox_published_def split: option.splits if_splits)

lemma publish_turn_sound:
  assumes "publish_turn c t up d = (r, tr, sent, up', d')" and "connection_ok c up s"
  shows "sound c s tr \<and> connection_ok c up' (foldl declared_after s tr) \<and>
    (case sent of None \<Rightarrow> d' = d
     | Some (i, m) \<Rightarrow> Send (task_message c i m) \<in> set tr \<and> (\<forall>n. published_in d' n \<longrightarrow> published_in d n \<or> n = m))"
proof -
  obtain ok tr1 up1 where call: "publisher_call c [] (ou_closed t) (ou_ensure t) up = (ok, tr1, up1)" by (metis prod_cases3)
  note c1 = publisher_call_sound [OF call assms(2)]
  show ?thesis
  proof (cases "\<not> ok \<or> ou_store t = Unreachable \<or> sql_outbox_next (ou_locked t) (reading (ou_clock t) 0) d = None")
    case True
    with assms(1) call c1 show ?thesis by (auto simp: publish_turn_def split: option.splits if_splits)
  next
    case False
    then obtain x where x: "sql_outbox_next (ou_locked t) (reading (ou_clock t) 0) d = Some x" by blast
    let ?m = "task_message c (ox_job_id x) (message_id x)"
    obtain ok2 tr2 up2 where call2: "publisher_call c [?m] (ou_lost t) (ou_publish t) up1 = (ok2, tr2, up2)" by (metis prod_cases3)
    obtain res out d1 where nxt: "publish_next (ou_locked t) (ou_clock t) (\<lambda>_ _. ok2) d = (res, out, d1)" by (metis prod_cases3)
    have turn: "tr = tr1 @ tr2" "up' = up2" "if res = Inr True \<and> ou_store t = Commits then sent = out \<and> d' = d1 else sent = None \<and> d' = d"
      using assms(1) call call2 nxt x False by (auto simp: publish_turn_def split: if_splits)
    have s2: "sound c s tr \<and> connection_ok c up' (foldl declared_after s tr)" "ok2 \<longrightarrow> Send ?m \<in> set tr"
      using c1 publisher_call_sound [OF call2, of "foldl declared_after s tr1"] turn by (auto simp: sound_append)
    have "ok2" if "res = Inr True" using nxt x that by (auto simp: publish_next_def split: if_splits)
    moreover have "out = Some (ox_job_id x, message_id x)" "\<forall>n. published_in d1 n \<longrightarrow> published_in d n \<or> n = message_id x" if "res = Inr True"
      using publish_next_marks [of "ou_locked t" "ou_clock t" "\<lambda>_ _. ok2" d out d1] nxt x that
      by (auto simp: published_in_def list_ex_iff set_update_where split: if_splits)
    ultimately show ?thesis using s2 turn(3) by (auto split: if_splits)
  qed
qed

text \<open>The loop, from any connection: what it marks is what it has had confirmed.\<close>

lemma publish_outbox_sound:
  assumes "publish_outbox c ts up d = (tr, ms, d')" and "connection_ok c up s"
    and "\<forall>t \<in> set ts. \<forall>e m. published_in (ou_others t e) m \<longrightarrow> published_in e m"
  shows "sound c s tr \<and> (\<forall>m. published_in d' m \<and> \<not> published_in d m \<longrightarrow> m \<in> snd ` set ms) \<and>
    (\<forall>(i, m) \<in> set ms. Send (task_message c i m) \<in> set tr)"
  using assms
proof (induction ts arbitrary: up d s tr ms)
  case (Cons t ts)
  show ?case
  proof (cases "ou_stop t")
    case False
    obtain r tr1 sent up1 d1 where turn: "publish_turn c t up (ou_others t d) = (r, tr1, sent, up1, d1)" by (metis prod_cases5)
    obtain tr2 ms2 d2 where rest: "publish_outbox c ts up1 d1 = (tr2, ms2, d2)" by (metis prod_cases3)
    note s1 = publish_turn_sound [OF turn Cons.prems(2)]
    have eq: "tr = tr1 @ tr2" "d' = d2" "ms = (case sent of None \<Rightarrow> ms2 | Some m \<Rightarrow> m # ms2)"
      using Cons.prems(1) False turn rest by (auto split: option.splits)
    have ih: "sound c (foldl declared_after s tr1) tr2 \<and> (\<forall>m. published_in d' m \<and> \<not> published_in d1 m \<longrightarrow> m \<in> snd ` set ms2) \<and>
        (\<forall>(i, m) \<in> set ms2. Send (task_message c i m) \<in> set tr2)"
    proof (rule Cons.IH [OF rest [folded eq(2)]])
      show "connection_ok c up1 (foldl declared_after s tr1)" using s1 by blast
      show "\<forall>t \<in> set ts. \<forall>e m. published_in (ou_others t e) m \<longrightarrow> published_in e m"
        using Cons.prems(3) by (meson list.set_intros(2))
    qed
    have others: "published_in (ou_others t d) m \<longrightarrow> published_in d m" for m
      using Cons.prems(3) by (meson list.set_intros(1))
    have marks: "published_in d' m \<longrightarrow> published_in d m \<or> m \<in> snd ` set ms" for m
    proof (cases sent)
      case None
      with s1 eq(3) have "d1 = ou_others t d" "ms = ms2" by simp_all
      with ih others [of m] show ?thesis by blast
    next
      case (Some q)
      then obtain i n where q: "sent = Some (i, n)" by (cases q) simp
      with s1 eq(3) have "published_in d1 m \<longrightarrow> published_in (ou_others t d) m \<or> m = n" "snd ` set ms = insert n (snd ` set ms2)" by simp_all
      with ih others [of m] show ?thesis by blast
    qed
    have "\<forall>(i, m) \<in> set ms. Send (task_message c i m) \<in> set tr"
      using s1 ih eq by (cases sent) auto
    with marks s1 ih eq(1) show ?thesis by (auto simp only: sound_append)
  qed (use Cons.prems in auto)
qed simp

text \<open>
  C38: no message is marked as published unless the broker has confirmed it where it counts. In
  whatever way the broker, the connection and the database fail, when the outbox loop - started
  without a connection, other processes publishing nothing meanwhile - has newly marked a
  message, the broker has confirmed the message's envelope, which consumers read back as that
  task, and has confirmed every publication on a connection on which the whole topology,
  with the binding of the consumers' queue to the routing key, had been declared.
\<close>

theorem marked_messages_are_confirmed:
  assumes "publish_outbox c ts False d = (tr, ms, d')"
    and "\<forall>t \<in> set ts. \<forall>e m. published_in (ou_others t e) m \<longrightarrow> published_in e m"
  shows "sound c None tr \<and>
    BindQueue (broker_name c ''jobs'') (broker_name c ''tasks'') ''ready'' \<in> set (declare_topology c) \<and>
    (\<forall>m. published_in d' m \<and> \<not> published_in d m \<longrightarrow> (\<exists>i. (i, m) \<in> set ms)) \<and>
    (\<forall>(i, m) \<in> set ms. Send (PublishTo (broker_name c ''tasks'') ''ready'' (envelope i m) m) \<in> set tr \<and>
       (canonical_uuid i \<and> canonical_uuid m \<longrightarrow> delivery (envelope i m) (Some m) = Inr (i, m)))"
proof -
  have "connection_ok c False None" by (simp add: connection_ok_def)
  note l = publish_outbox_sound [OF assms(1) this assms(2)]
  have "delivery (envelope i m) (Some m) = Inr (i, m)" if "canonical_uuid i" "canonical_uuid m" for i m
    using envelope_decodes [OF that] that by (simp add: delivery_def envelope_json_def task_of_def str_field_def)
  moreover have "BindQueue (broker_name c ''jobs'') (broker_name c ''tasks'') ''ready'' \<in> set (declare_topology c)"
    by (simp add: declare_topology_def Let_def)
  moreover have "\<exists>i. (i, m) \<in> set ms" if "m \<in> snd ` set ms" for m
    using that by auto
  ultimately show ?thesis using l unfolding task_message_def by blast
qed

section \<open>An available broker empties the outbox\<close>

definition due :: "time \<Rightarrow> db \<Rightarrow> outbox_row list" where
  "due t0 d = filter (\<lambda>x. published_at x = None \<and> available_at x \<le> t0) (outbox d)"

text \<open>A turn at or after \<open>t0\<close> in which everything answers and no other publisher holds a row.\<close>

definition smooth :: "time \<Rightarrow> outbox_turn \<Rightarrow> bool" where
  "smooth t0 t \<longleftrightarrow> \<not> ou_stop t \<and> ou_ensure t = (\<lambda>_. True) \<and> ou_publish t = (\<lambda>_. True) \<and> ou_store t = Commits \<and>
     ou_locked t = (\<lambda>_. False) \<and> t0 \<le> reading (ou_clock t) 0 \<and> ou_others t = id"

lemma attempt_all: "attempt (\<lambda>_. True) k ns = (True, ns)"
  by (induction ns arbitrary: k) simp_all

lemma smooth_turn:
  assumes "smooth t0 t" and "publish_turn c t up d = (r, tr, sent, up', d')"
  shows "sent = None \<and> d' = d \<and> due t0 d = [] \<or>
    (\<exists>x. sent = Some (ox_job_id x, message_id x) \<and> (due t0 d \<noteq> [] \<longrightarrow> x \<in> set (due t0 d)) \<and>
       due t0 d' = filter (\<lambda>y. message_id y \<noteq> message_id x) (due t0 d))"
proof -
  let ?now = "reading (ou_clock t) 0"
  let ?ready = "filter (\<lambda>x. published_at x = None \<and> available_at x \<le> ?now \<and> \<not> ou_locked t (message_id x)) (outbox d)"
  have ready: "set (due t0 d) \<subseteq> set ?ready" using assms(1) by (auto simp: due_def smooth_def)
  show ?thesis
  proof (cases "sql_outbox_next (ou_locked t) ?now d")
    case None
    then have "?ready = []" by (simp add: sql_outbox_next_def)
    with ready have "due t0 d = []" by simp
    with assms None show ?thesis by (auto simp: publish_turn_def publisher_call_def smooth_def attempt_all)
  next
    case (Some x)
    have mem: "x \<in> set ?ready" using Some unfolding sql_outbox_next_def by (rule first_min_mem)
    have first: "x \<in> set (due t0 d)" if "y \<in> set (due t0 d)" for y
    proof -
      have "(available_at x, message_id x) \<le> (available_at y, message_id y)"
        using first_min_le [OF Some [unfolded sql_outbox_next_def]] ready that by blast
      then have "available_at x \<le> t0" using that by (auto simp: due_def less_eq_prod_def)
      with mem show ?thesis by (simp add: due_def)
    qed
    obtain res out d1 where nxt: "publish_next (ou_locked t) (ou_clock t) (\<lambda>_ _. True) d = (res, out, d1)" by (metis prod_cases3)
    then have res: "res = Inr True" "out = Some (ox_job_id x, message_id x)"
      and d1: "outbox d1 = update_where (\<lambda>y. message_id y = message_id x) (\<lambda>y. y\<lparr>published_at := Some (tx_now (ou_clock t))\<rparr>) (outbox d)"
      using Some by (auto simp: publish_next_def sql_outbox_published_def)
    have "filter P (update_where Q f xs) = filter (\<lambda>y. \<not> Q y) (filter P xs)" if "\<And>z. \<not> P (f z)" for P Q f and xs :: "outbox_row list"
      using that by (induction xs) auto
    then have "due t0 d1 = filter (\<lambda>y. message_id y \<noteq> message_id x) (due t0 d)"
      unfolding due_def d1 by simp
    moreover have "sent = Some (ox_job_id x, message_id x)" "d' = d1"
      using assms Some nxt res by (auto simp: publish_turn_def publisher_call_def smooth_def attempt_all)
    ultimately show ?thesis using first by (intro disjI2 exI [of _ x]) (auto simp del: filter_filter intro: list.set_sel(1))
  qed
qed


definition demo_broker :: broker_config where
  "demo_broker = \<lparr>bc_host = ''mq'', bc_port = 5671, bc_virtual_host = ''transcriber'', bc_username = ''p'',
     bc_password = replicate 32 CHR ''x'', bc_tls = True, bc_ca_file = [], bc_namespace = ''transcriber''\<rparr>"

definition demo_due :: db where
  "demo_due = empty_db\<lparr>outbox := [\<lparr>message_id = demo_id CHR ''2'', ox_job_id = demo_id CHR ''1'', available_at = 3, published_at = None\<rparr>]\<rparr>"

definition demo_turn :: outbox_turn where
  "demo_turn = \<lparr>ou_stop = False, ou_closed = False, ou_ensure = \<lambda>_. True, ou_lost = False, ou_publish = \<lambda>_. True,
     ou_store = Commits, ou_locked = \<lambda>_. False, ou_clock = at_time 5, ou_others = id\<rparr>"


theorem marked_messages_are_confirmed_witness:
  "\<exists>tr ms d'. publish_outbox demo_broker [demo_turn] False demo_due = (tr, ms, d') \<and> sound demo_broker None tr \<and>
     (demo_id CHR ''1'', demo_id CHR ''2'') \<in> set ms \<and>
     delivery (envelope (demo_id CHR ''1'') (demo_id CHR ''2'')) (Some (demo_id CHR ''2'')) = Inr (demo_id CHR ''1'', demo_id CHR ''2'')"
proof -
  obtain tr ms d' where p: "publish_outbox demo_broker [demo_turn] False demo_due = (tr, ms, d')" by (metis prod_cases3)
  have "\<forall>t \<in> set [demo_turn]. \<forall>e m. published_in (ou_others t e) m \<longrightarrow> published_in e m" by (simp add: demo_turn_def)
  note all = marked_messages_are_confirmed [OF p this]
  have "ms = [(demo_id CHR ''1'', demo_id CHR ''2'')]"
    using p by (auto simp: demo_turn_def demo_due_def publish_turn_def publisher_call_def attempt_all sql_outbox_next_def
        publish_next_def at_time_def)
  moreover have "canonical_uuid (demo_id CHR ''1'')" "canonical_uuid (demo_id CHR ''2'')" by code_simp+
  ultimately show ?thesis using p all by auto
qed

section \<open>Accounts and their permissions\<close>

text \<open>
  What RabbitMQ's access control asks for an operation, by its documentation: a kind of access
  to an exchange or a queue. A permission allows the names its pattern for the kind matches.
\<close>

datatype access = Configure | WriteTo | ReadFrom

fun access_key :: "access \<Rightarrow> string" where
  "access_key Configure = ''configure''"
| "access_key WriteTo = ''write''"
| "access_key ReadFrom = ''read''"

fun needs :: "amqp \<Rightarrow> (access \<times> string) list" where
  "needs (DeclareExchange e) = [(Configure, e)]"
| "needs (DeclareQueue q args) = (Configure, q) #
     (case map_of args ''x-dead-letter-exchange'' of Some (JStr e) \<Rightarrow> [(ReadFrom, q), (WriteTo, e)] | _ \<Rightarrow> [])"
| "needs (BindQueue q e k) = [(WriteTo, q), (ReadFrom, e)]"
| "needs (PublishTo e k b m) = [(WriteTo, e)]"
| "needs (ConsumeFrom q) = [(ReadFrom, q)]"

definition allows :: "(string \<Rightarrow> string \<Rightarrow> bool) \<Rightarrow> json \<Rightarrow> access \<times> string \<Rightarrow> bool" where
  "allows matches perm n = (case perm of
     JObj ps \<Rightarrow> (case map_of ps (access_key (fst n)) of Some (JStr pattern) \<Rightarrow> matches pattern (snd n) | _ \<Rightarrow> False)
   | _ \<Rightarrow> False)"

text \<open>
  C40: provisioned accounts can do their work, and workers nothing else. When a bundle has been
  completed and the patterns match as regular expressions do, the definitions the broker loads
  allow the publisher everything that declaring the topology and publishing a task needs, and
  each worker exactly to read the queue it consumes and to write the exchange of its delayed
  copies (and, of the configurable names, only the empty one): no worker can publish a task,
  read the dead letters, or change the topology.
\<close>

theorem accounts_have_least_privilege:
  assumes "provision t host ids port f = (None, f')" and "w \<in> set ids" and "bc_namespace c = ''transcriber''"
    and "\<And>n. matches (dotted []) n \<longleftrightarrow> prefix ''transcriber.'' n"
    and "\<And>q n. q \<in> {''defer'', ''jobs''} \<Longrightarrow> matches (dotted (q @ ''$'')) n \<longleftrightarrow> n = ''transcriber.'' @ q"
    and "\<And>n. matches ''^$'' n \<longleftrightarrow> n = []"
  shows "\<exists>us ps. map_of f' [''server'', ''definitions.json''] = Some (File 420 (json_dumps (definitions_json us ps) @ newline)) \<and>
    (\<exists>p \<in> set ps. p = permission_json ''publisher'' ''transcriber-publisher'' \<and>
       (\<forall>a \<in> set (task_message c i m # declare_topology c). list_all (allows matches p) (needs a))) \<and>
    (\<exists>p \<in> set ps. p = permission_json w (''worker-'' @ w) \<and>
       (\<forall>k n. allows matches p (k, n) \<longleftrightarrow>
          (k, n) \<in> set (needs (worker_consumes c) @ needs (delayed_copy c body m) @ [(Configure, [])])))"
proof -
  let ?as = "enumerate 0 (accounts host ids)"
  obtain cert f0 f1 where f1: "run_steps (concat (map (account_steps t port cert) ?as)) f0 = (None, f1)"
    and final: "run_steps (final_steps t ?as) f1 = (None, f')"
    using provision_stages [OF assms(1)] by metis
  have "map (\<lambda>(k, d, u, h). d) (enumerate n xs) = map fst xs" for n and xs :: "(string \<times> string \<times> string) list"
    by (induction xs arbitrary: n) auto
  with accounts_distinct [OF f1] have "distinct (map fst (accounts host ids))" by metis
  then have w: "w \<noteq> ''publisher''" using assms(2) by (auto simp: accounts_def)
  have perms: "permissions_of (enumerate n xs) = map (\<lambda>(d, u, h). permission_json d u) xs" for n and xs :: "(string \<times> string \<times> string) list"
    by (induction xs arbitrary: n) (auto simp: permissions_of_def)
  have mem: "permission_json ''publisher'' ''transcriber-publisher'' \<in> set (permissions_of ?as)"
    "permission_json w (''worker-'' @ w) \<in> set (permissions_of ?as)"
    using assms(2) unfolding perms by (auto simp: accounts_def)
  have name: "broker_name c n = ''transcriber.'' @ n" for n by (simp add: broker_name_def assms(3))
  have pub: "list_all (allows matches (permission_json ''publisher'' ''transcriber-publisher'')) (needs a)"
    if "a \<in> set (task_message c i m # declare_topology c)" for a
    using that assms(4) by (auto simp: declare_topology_def task_message_def Let_def name allows_def permission_json_def)
  have "matches (dotted ''defer$'') n \<longleftrightarrow> n = ''transcriber.defer''" "matches (dotted ''jobs$'') n \<longleftrightarrow> n = ''transcriber.jobs''" for n
    using assms(5) [of "''defer''" n] assms(5) [of "''jobs''" n] by simp_all
  then have "allows matches (permission_json w (''worker-'' @ w)) (k, n) \<longleftrightarrow>
      (k, n) \<in> set (needs (worker_consumes c) @ needs (delayed_copy c body m) @ [(Configure, [])])" for k n
    using w assms(6) by (cases k) (auto simp: worker_consumes_def delayed_copy_def name allows_def permission_json_def)
  with pub mem final_definitions [OF final] show ?thesis by blast
qed

definition demo_matches :: "string \<Rightarrow> string \<Rightarrow> bool" where
  "demo_matches p n \<longleftrightarrow> (p = dotted [] \<and> prefix ''transcriber.'' n) \<or> (p = ''^$'' \<and> n = []) \<or>
     list_ex (\<lambda>q. p = dotted (q @ ''$'') \<and> n = ''transcriber.'' @ q) [''defer'', ''jobs'']"

theorem accounts_have_least_privilege_witness:
  "\<exists>f' p. provision demo_tools ''mq'' [''gpu''] 5671 [] = (None, f') \<and> p = permission_json ''gpu'' ''worker-gpu'' \<and>
     allows demo_matches p (ReadFrom, ''transcriber.jobs'') \<and> \<not> allows demo_matches p (WriteTo, ''transcriber.tasks'')"
proof -
  obtain f' where f': "provision demo_tools ''mq'' [''gpu''] 5671 [] = (None, f')" using demo_provisioned by blast
  have "demo_matches (dotted []) n \<longleftrightarrow> prefix ''transcriber.'' n" "demo_matches ''^$'' n \<longleftrightarrow> n = []" for n
    by (simp_all add: demo_matches_def dotted_def)
  moreover have "demo_matches (dotted (q @ ''$'')) n \<longleftrightarrow> n = ''transcriber.'' @ q" if "q \<in> {''defer'', ''jobs''}" for q n
    using that by (auto simp: demo_matches_def dotted_def)
  moreover have "''gpu'' \<in> set [''gpu'']" "bc_namespace demo_broker = ''transcriber''" by (simp_all add: demo_broker_def)
  ultimately have "\<exists>p. p = permission_json ''gpu'' (''worker-'' @ ''gpu'') \<and>
      (\<forall>k n. allows demo_matches p (k, n) \<longleftrightarrow>
         (k, n) \<in> set (needs (worker_consumes demo_broker) @ needs (delayed_copy demo_broker [] []) @ [(Configure, [])]))"
    using accounts_have_least_privilege [where w = "''gpu''" and c = demo_broker and matches = demo_matches and
        i = "[]" and m = "[]" and body = "[]", OF f'] by blast
  with f' show ?thesis by (auto simp: worker_consumes_def delayed_copy_def broker_name_def demo_broker_def)
qed

end
