(* ===== verification/Releases.thy ===== *)
theory Releases
  imports Images
begin

text \<open>
  \<open>scripts/worker_release.py\<close>: publishing the worker images of a revision, promoting them to the
  approved release, and resolving it; and the client of the Docker API of
  \<open>scripts/worker_updater.py\<close>. The results of the Docker commands and the responses of the
  daemon are parameters.
\<close>

section \<open>Resolving\<close>

datatype release_error = BadSha | NoSetting string | DockerFailed | BadLabels

definition marker :: "string \<Rightarrow> string" where
  "marker registry = registry @ ''-release:stable''"

definition release_env :: "string \<Rightarrow> (string \<times> string) list \<Rightarrow> string" where
  "release_env revision images = (let img = (\<lambda>r. case map_of images r of None \<Rightarrow> [] | Some i \<Rightarrow> i) in
     ''WORKER_RELEASE_REVISION='' @ revision @ newline @ ''WORKER_CPU_IMAGE='' @ img ''cpu'' @ newline @
     ''WORKER_GPU_IMAGE='' @ img ''gpu'' @ newline)"

text \<open>\<open>resolve\<close>: the content of the environment file; \<open>labels\<close> are those of the pulled marker.\<close>

definition resolve :: "string \<Rightarrow> bool \<Rightarrow> json option \<Rightarrow> (release_error, string \<times> string) result" where
  "resolve registry pulled labels = (if \<not> pulled then Inl DockerFailed
     else (case Option.bind (Option.bind labels json_obj) (\<lambda>ls. release ls registry) of
         None \<Rightarrow> Inl BadLabels
       | Some (revision, images) \<Rightarrow> Inr (revision, release_env revision images)))"

section \<open>Publishing\<close>

definition build_settings :: "string list" where
  "build_settings = [''PYTHON_VERSION'', ''POETRY_VERSION'', ''GRPCIO_TOOLS_VERSION'', ''CUDNN_VERSION'', ''CUBLAS_VERSION'']"

fun setting_args :: "env \<Rightarrow> string list \<Rightarrow> (release_error, string list) result" where
  "setting_args env [] = Inr []"
| "setting_args env (k # ks) = (case env k of None \<Rightarrow> Inl (NoSetting k)
     | Some v \<Rightarrow> res_bind (setting_args env ks) (\<lambda>r. Inr ([''--build-arg'', k @ ''='' @ v] @ r)))"

definition role_image :: "string \<Rightarrow> string \<Rightarrow> string" where
  "role_image registry role = registry @ ''-worker-'' @ role"

definition publish_command :: "string \<Rightarrow> string \<Rightarrow> string \<Rightarrow> string list \<Rightarrow> string \<Rightarrow> string list" where
  "publish_command registry revision arch args role = (let cache = ''type=registry,ref='' @ role_image registry role @ '':buildcache-'' @ arch in
     [''docker'', ''buildx'', ''build'', ''--platform'', ''linux/'' @ arch, ''--target'', ''remote-'' @ role,
      ''--file'', ''whisper/Dockerfile'', ''--tag'', role_image registry role @ '':sha-'' @ revision @ ''-'' @ arch, ''--push'',
      ''--cache-from'', cache, ''--cache-to'', cache @ '',mode=max''] @ args @ [''.''])"

text \<open>\<open>publish\<close>: the commands to run, in order.\<close>

definition publish_images :: "env \<Rightarrow> string \<Rightarrow> string \<Rightarrow> string \<Rightarrow> (release_error, string list list) result" where
  "publish_images env registry revision arch =
     (if \<not> class_match is_lower_hex 40 40 revision then Inl BadSha
      else res_bind (setting_args env build_settings) (\<lambda>args.
        Inr (map (publish_command registry revision arch (args @ [''--label'', ''org.opencontainers.image.revision='' @ revision]))
          (if arch = ''amd64'' then [''cpu'', ''gpu''] else [''cpu'']))))"

section \<open>Promotion\<close>

definition role_tag :: "string \<Rightarrow> string \<Rightarrow> string \<Rightarrow> string" where
  "role_tag registry revision role = role_image registry role @ '':sha-'' @ revision"

definition role_sources :: "string \<Rightarrow> string \<Rightarrow> string \<Rightarrow> string list" where
  "role_sources registry revision role = (let t = role_tag registry revision role in
     (t @ ''-amd64'') # (if role = ''cpu'' then [t @ ''-arm64''] else []))"

text \<open>
  \<open>made t sources\<close> says whether the manifest list \<open>t\<close> could be made of the sources, and
  \<open>manifest t\<close> is what inspecting it prints.
\<close>

definition promote_role ::
  "(string \<Rightarrow> string list \<Rightarrow> bool) \<Rightarrow> (string \<Rightarrow> json option) \<Rightarrow> string \<Rightarrow> string \<Rightarrow> string \<Rightarrow> (release_error, string) result" where
  "promote_role made manifest registry revision role = (let t = role_tag registry revision role in
     if \<not> made t (role_sources registry revision role) then Inl DockerFailed
     else (case Option.bind (Option.bind (manifest t) json_obj) (\<lambda>ps. map_of ps ''digest'') of
         None \<Rightarrow> Inl DockerFailed
       | Some v \<Rightarrow> Inr (role_image registry role @ ''@'' @ json_text v)))"

definition marker_dockerfile :: "(string \<times> string) list \<Rightarrow> string" where
  "marker_dockerfile labels = ''FROM scratch'' @ newline @ ''LABEL '' @
     join_with ('' '' @ [CHR 0x5C] @ newline @ ''  '') (map (\<lambda>(k, v). k @ ''='' @ json_dumps (JStr v)) labels) @ newline"

text \<open>\<open>promote\<close>: the labels of the marker and the Dockerfile it is built from and pushed.\<close>

definition promote ::
  "(string \<Rightarrow> string list \<Rightarrow> bool) \<Rightarrow> (string \<Rightarrow> json option) \<Rightarrow> (string \<Rightarrow> bool) \<Rightarrow> string \<Rightarrow> string
   \<Rightarrow> (release_error, (string \<times> string) list \<times> string) result" where
  "promote made manifest push registry revision =
     res_bind (promote_role made manifest registry revision ''cpu'') (\<lambda>cpu.
     res_bind (promote_role made manifest registry revision ''gpu'') (\<lambda>gpu.
       let labels = [(release_label @ ''revision'', revision), (release_label @ ''cpu'', cpu), (release_label @ ''gpu'', gpu)];
         file = marker_dockerfile labels in
       if release (map (\<lambda>(k, v). (k, JStr v)) labels) registry = None then Inl BadLabels
       else if \<not> push file then Inl DockerFailed
       else Inr (labels, file)))"

text \<open>
  What is promoted is what is resolved and deployed. If a promotion succeeds then, for the
  labels it put on the marker, resolving yields the promoted revision, the updater accepts the
  release, and the image of each role is the manifest list made of that revision's images, by
  its digest.
\<close>

theorem promoted_releases_are_resolved:
  assumes "promote made manifest push registry revision = Inr (labels, file)"
  shows "\<exists>cpu gpu. resolve registry True (Some (JObj (map (\<lambda>(k, v). (k, JStr v)) labels))) =
      Inr (revision, release_env revision [(''cpu'', cpu), (''gpu'', gpu)]) \<and>
    release (map (\<lambda>(k, v). (k, JStr v)) labels) registry = Some (revision, [(''cpu'', cpu), (''gpu'', gpu)]) \<and>
    approved_image registry ''cpu'' cpu \<and> approved_image registry ''gpu'' gpu \<and>
    (\<forall>(role, img) \<in> set [(''cpu'', cpu), (''gpu'', gpu)].
       made (role_tag registry revision role) (role_sources registry revision role) \<and>
       (\<exists>ps v. manifest (role_tag registry revision role) = Some (JObj ps) \<and> map_of ps ''digest'' = Some v \<and>
          img = role_image registry role @ ''@'' @ json_text v))"
proof -
  have obj: "json_obj j = Some ps \<longleftrightarrow> j = JObj ps" for j ps by (cases j) auto
  obtain cpu gpu where roles: "promote_role made manifest registry revision ''cpu'' = Inr cpu"
    "promote_role made manifest registry revision ''gpu'' = Inr gpu" and
    labels: "labels = [(release_label @ ''revision'', revision), (release_label @ ''cpu'', cpu), (release_label @ ''gpu'', gpu)]" and
    ok: "release (map (\<lambda>(k, v). (k, JStr v)) labels) registry \<noteq> None"
    using assms by (auto simp: promote_def result_simps Let_def split: if_splits)
  from ok have rel: "release (map (\<lambda>(k, v). (k, JStr v)) labels) registry = Some (revision, [(''cpu'', cpu), (''gpu'', gpu)]) \<and>
      approved_image registry ''cpu'' cpu \<and> approved_image registry ''gpu'' gpu"
    by (auto simp: labels release_def label_text_def release_label_def split: if_splits)
  have role: "made (role_tag registry revision role) (role_sources registry revision role) \<and>
      (\<exists>ps v. manifest (role_tag registry revision role) = Some (JObj ps) \<and> map_of ps ''digest'' = Some v \<and>
         img = role_image registry role @ ''@'' @ json_text v)"
    if "promote_role made manifest registry revision role = Inr img" for role img
    using that by (auto simp: promote_role_def Let_def bind_eq_Some_conv obj split: if_splits option.splits)
  show ?thesis
    using rel role [OF roles(1)] role [OF roles(2)] by (intro exI [of _ cpu] exI [of _ gpu]) (simp add: resolve_def)
qed

section \<open>The client of the Docker API\<close>

datatype docker_error = DockerError string | BadResponse

definition operation_of :: "string \<Rightarrow> string" where
  "operation_of path = (let p = takeWhile (\<lambda>c. c \<noteq> CHR ''?'') path; o' = rev (takeWhile (\<lambda>c. c \<noteq> CHR ''/'') (rev p)) in
     if o' \<in> {''create'', ''start'', ''stop'', ''rename'', ''kill'', ''exec'', ''json''} then o' else ''request'')"

fun stream_lines :: "string list \<Rightarrow> (docker_error, unit) result" where
  "stream_lines [] = Inr ()"
| "stream_lines (l # ls) =
     (if 1048576 \<le> int (length l) then Inl (DockerError ''Oversized Docker stream response'')
      else (case json_loads_bytes l of
          Some (JObj ps) \<Rightarrow> if (case map_of ps ''error'' of None \<Rightarrow> False | Some v \<Rightarrow> truthy v) then Inl (DockerError ''Docker image pull failed'')
            else stream_lines ls
        | _ \<Rightarrow> Inl BadResponse))"

text \<open>
  \<open>Docker.call\<close> of a response: its status, and its lines or its body. \<open>None\<close> is Python's
  \<open>None\<close>; a response that is no JSON, or no object where one is expected, raises.
\<close>

definition docker_call ::
  "string \<Rightarrow> string \<Rightarrow> bool \<Rightarrow> bool \<Rightarrow> int \<Rightarrow> string list \<Rightarrow> string \<Rightarrow> (docker_error, json option) result" where
  "docker_call method path stream absent code ls body =
     (if absent \<and> code = 404 then Inr None
      else if 300 \<le> code then
        Inl (DockerError (''Docker '' @ method @ '' '' @ operation_of path @ '' failed: HTTP '' @ py_str_int code))
      else if stream then res_bind (stream_lines ls) (\<lambda>_. Inr None)
      else if 8388608 < int (length body) then Inl (DockerError ''Oversized Docker response'')
      else if body = [] then Inr None
      else (case json_loads_bytes body of None \<Rightarrow> Inl BadResponse | Some v \<Rightarrow> Inr (Some v)))"

text \<open>\<open>urllib.parse.quote\<close> without safe characters, of an ASCII text\<close>

definition hex_upper :: "nat \<Rightarrow> char" where
  "hex_upper n = ''0123456789ABCDEF'' ! n"

definition quote_char :: "char \<Rightarrow> string" where
  "quote_char c = (if is_alnum c \<or> c \<in> set ''_.-~'' then [c]
     else [CHR ''%'', hex_upper (of_char c div 16), hex_upper (of_char c mod 16)])"

definition quoted :: "string \<Rightarrow> string" where
  "quoted s = concat (map quote_char s)"

text \<open>\<open>urlencode\<close> writes a space as a plus.\<close>

definition quoted_plus :: "string \<Rightarrow> string" where
  "quoted_plus s = concat (map (\<lambda>c. if c = CHR '' '' then ''+'' else quote_char c) s)"

definition inspect_path :: "string \<Rightarrow> string" where
  "inspect_path name = ''/containers/'' @ quoted name @ ''/json''"

definition remove_path :: "string \<Rightarrow> string" where
  "remove_path name = ''/containers/'' @ quoted name @ ''?force=true''"

definition action_path :: "string \<Rightarrow> string \<Rightarrow> (string \<times> string) list \<Rightarrow> string" where
  "action_path ident action params = ''/containers/'' @ quoted ident @ ''/'' @ action @
     (if params = [] then [] else CHR ''?'' # join_with ''&'' (map (\<lambda>(k, v). quoted_plus k @ ''='' @ quoted_plus v) params))"

definition pull_path :: "string \<Rightarrow> string" where
  "pull_path img = ''/images/create?fromImage='' @ quoted_plus img @
     (if prefix (rev ''-release:stable'') (rev img) then ''&platform='' @ quoted_plus ''linux/amd64'' else [])"

definition image_path :: "string \<Rightarrow> string" where
  "image_path img = ''/images/'' @ quoted img @ ''/json''"

text \<open>\<open>drained\<close>: the polls of the probe, each with whether it still runs and its exit code.\<close>

definition drained_answer :: "(bool \<times> int) list \<Rightarrow> bool" where
  "drained_answer polls = (case dropWhile fst (take 20 polls) of [] \<Rightarrow> False | (_, result) # _ \<Rightarrow> result = 0)"

text \<open>
  No name leads a request elsewhere: whatever the container is called, the path has its three
  parts and no query; and an error tells of the response nothing but its status.
\<close>

lemma quoted_plain: "set (quoted s) \<inter> set ''/?#&= '' = {}"
proof -
  have hex: "\<forall>n \<in> set [0..<16]. hex_upper n \<notin> set ''/?#&= ''" by code_simp
  have "set (quote_char c) \<inter> set ''/?#&= '' = {}" for c
  proof (cases "is_alnum c \<or> c \<in> set ''_.-~''")
    case True
    then show ?thesis by (auto simp: quote_char_def is_alnum_def is_digit_def is_upper_def is_lower_def)
  next
    case False
    have "of_char c div 16 < (16 :: nat)" using nat_of_char_less_256 [of c] by (simp add: less_mult_imp_div_less)
    with False hex show ?thesis by (auto simp: quote_char_def)
  qed
  then show ?thesis by (auto simp: quoted_def)
qed

lemma py_split_word: "d \<notin> set w \<Longrightarrow> py_split d (w @ d # s) = w # py_split d s"
  by (induction w) auto

lemma inspect_path_parts: "py_split CHR ''/'' (inspect_path name) = [[], ''containers'', quoted name, ''json''] \<and> CHR ''?'' \<notin> set (inspect_path name)"
proof -
  have "CHR ''/'' \<notin> set (quoted name)" "CHR ''?'' \<notin> set (quoted name)" using quoted_plain [of name] by auto
  then show ?thesis by (simp add: inspect_path_def py_split_word)
qed

lemma docker_errors_reveal_nothing:
  assumes "300 \<le> code" and "\<not> (absent \<and> code = 404)"
  shows "docker_call method path stream absent code ls body = docker_call method path stream' absent code ls' body'"
  using assms by (auto simp: docker_call_def)

end
