(* ===== verification/Wiring.thy ===== *)
theory Wiring
  imports WorkerApi WorkerConfig Service Metrics
begin

text \<open>
  How the processes are put together: the start of the ingress (\<open>run_ingress\<close> of
  \<open>whisper/server.py\<close>, \<open>start_worker_apis\<close> of \<open>whisper/worker_api.py\<close>), the local worker process
  (\<open>run_worker\<close>, \<open>Worker.run_forever\<close>), and the start of a remote worker (\<open>main\<close> of
  \<open>whisper/remote_worker.py\<close>). Whether a listener or a thread can be started is a parameter.
\<close>

section \<open>The ingress\<close>

datatype process_event =
  SchemaReady
| OutboxStarted broker_config
| PublicBound string
| MetricsStarted string
| WorkerApiStarted string
| MetricsClosed
| CleanupStarted
| Serving

datatype start_error = BadConfiguration | BadCredentials | StepFailed

text \<open>
  \<open>start_worker_apis\<close>: the variables of the removed listener are refused unless they are empty.
  \<open>ok\<close> says of an event whether its step succeeds; there is at most one listener, so one that
  cannot be bound or started leaves none running.
\<close>

definition start_worker_apis ::
  "env \<Rightarrow> string option \<Rightarrow> (process_event \<Rightarrow> bool) \<Rightarrow> process_event list \<times> (start_error, unit) result" where
  "start_worker_apis env registry ok =
     (if getenv env ''WORKER_GRPC_ADDR'' [] \<noteq> [] \<or> getenv env ''WORKER_TOKEN_FILE'' [] \<noteq> [] then ([], Inl BadConfiguration)
      else (let a = getenv env ''WORKER_PUBLIC_GRPC_ADDR'' [] in
        if a = [] then ([], Inr ())
        else (case from_file registry of
            Inl _ \<Rightarrow> ([], Inl BadCredentials)
          | Inr _ \<Rightarrow> if ok (WorkerApiStarted a) then ([WorkerApiStarted a], Inr ()) else ([], Inl StepFailed))))"

text \<open>
  \<open>run_ingress\<close> until it serves. \<open>files\<close> are the contents of the files that the settings
  name: the broker's connection and the workers' credentials.
\<close>

record ingress_files =
  if_broker :: "string option"
  if_registry :: "string option"

definition start_outbox ::
  "env \<Rightarrow> (string \<Rightarrow> bool) \<Rightarrow> ingress_files \<Rightarrow> store_config \<Rightarrow> process_event list \<times> (start_error, unit) result" where
  "start_outbox env loopback files cfg = (if queue_backend cfg \<noteq> Rabbitmq then ([], Inr ())
     else (case broker_from_file loopback (getenv env ''RABBITMQ_CA_FILE'' []) (if_broker files) of
         Inl _ \<Rightarrow> ([], Inl BadConfiguration)
       | Inr c \<Rightarrow> ([OutboxStarted c], Inr ())))"

definition bind_public :: "env \<Rightarrow> (process_event \<Rightarrow> bool) \<Rightarrow> process_event list \<times> (start_error, unit) result" where
  "bind_public env ok = (let a = getenv env ''GRPC_BIND_HOST'' ''[::]'' @ '':'' @ getenv env ''GRPC_PORT'' ''50053'' in
     case res_bind (getenv_int env ''GRPC_WORKERS'' ''4'') (\<lambda>n. guard_setting (0 < n) ''GRPC_WORKERS'' (
          res_bind (getenv_int env ''GRPC_MAX_MESSAGE_BYTES'' (py_str_int (50 * 1024 * 1024))) (\<lambda>_. upload_limits_from_env env))) of
       Inl _ \<Rightarrow> ([], Inl BadConfiguration)
     | Inr _ \<Rightarrow> if ok (PublicBound a) then ([PublicBound a], Inr ()) else ([], Inl StepFailed))"

definition start_metrics :: "env \<Rightarrow> store_config \<Rightarrow> (process_event \<Rightarrow> bool) \<Rightarrow> process_event list \<times> (start_error, unit) result" where
  "start_metrics env cfg ok = (let a = getenv env ''METRICS_ADDRESS'' [] in
     if a = [] then ([], Inr ())
     else (case monitored_workers env (worker_policies cfg) of
         Inl _ \<Rightarrow> ([], Inl BadConfiguration)
       | Inr _ \<Rightarrow> if ok (MetricsStarted a) then ([MetricsStarted a], Inr ()) else ([], Inl StepFailed)))"

definition and_then ::
  "process_event list \<times> (start_error, unit) result \<Rightarrow> process_event list \<times> (start_error, unit) result
   \<Rightarrow> process_event list \<times> (start_error, unit) result" where
  "and_then p q = (case p of (es, Inl e) \<Rightarrow> (es, Inl e) | (es, Inr _) \<Rightarrow> (case q of (fs, r) \<Rightarrow> (es @ fs, r)))"

text \<open>The worker endpoint; when it cannot be started the monitoring endpoint is closed again.\<close>

definition start_workers ::
  "env \<Rightarrow> ingress_files \<Rightarrow> (process_event \<Rightarrow> bool) \<Rightarrow> process_event list \<times> (start_error, unit) result" where
  "start_workers env files ok = (case start_worker_apis env (if_registry files) ok of
     (es, Inl e) \<Rightarrow> (es @ (if getenv env ''METRICS_ADDRESS'' [] \<noteq> [] then [MetricsClosed] else []), Inl e)
   | (es, Inr _) \<Rightarrow> (es, Inr ()))"

definition run_ingress ::
  "env \<Rightarrow> (string \<Rightarrow> bool) \<Rightarrow> ingress_files \<Rightarrow> (process_event \<Rightarrow> bool) \<Rightarrow> process_event list \<times> (start_error, unit) result" where
  "run_ingress env loopback files ok = (case store_init env of
     Inl _ \<Rightarrow> ([], Inl BadConfiguration)
   | Inr cfg \<Rightarrow>
       if \<not> ok SchemaReady then ([], Inl StepFailed)
       else and_then ([SchemaReady], Inr ()) (and_then (start_outbox env loopback files cfg) (and_then (bind_public env ok)
         (and_then (start_metrics env cfg ok) (and_then (start_workers env files ok)
           (if ok Serving then ([CleanupStarted, Serving], Inr ()) else ([CleanupStarted], Inl StepFailed)))))))"

section \<open>The local worker\<close>

text \<open>
  \<open>Worker.run_forever\<close>: a turn either raises, which leaves the tables to what others do, or is
  \<open>worker_turn\<close>; reports of the availability thread fall before it. At the end the worker
  withdraws, if the database answers.
\<close>

record loop_turn =
  lt_stop :: bool
  lt_others :: "db \<Rightarrow> db"
  lt_report :: "time option"
  lt_raises :: bool
  lt_locked :: "string \<Rightarrow> bool"
  lt_clock :: clock
  lt_uuid :: string
  lt_attempt :: local_attempt

definition report_step :: "store_config \<Rightarrow> string \<Rightarrow> string \<Rightarrow> bool \<Rightarrow> time option \<Rightarrow> db \<Rightarrow> db" where
  "report_step cfg w inst ready now d = (case now of None \<Rightarrow> d | Some t \<Rightarrow> snd (report_availability cfg t w inst ready d))"

fun worker_loop :: "store_config \<Rightarrow> string \<Rightarrow> bool \<Rightarrow> string \<Rightarrow> time option \<Rightarrow> loop_turn list \<Rightarrow> db \<Rightarrow> db" where
  "worker_loop cfg w fallback inst bye [] d = d"
| "worker_loop cfg w fallback inst bye (t # ts) d =
     (if lt_stop t then report_step cfg w inst False bye d
      else (let e = report_step cfg w inst True (lt_report t) (lt_others t d) in
        worker_loop cfg w fallback inst bye ts
          (if lt_raises t then e
           else snd (worker_turn cfg (lt_locked t) (lt_clock t) (lt_uuid t) w fallback inst (lt_attempt t) e))))"

text \<open>
  \<open>run_worker\<close> watches its threads: each look shows whether to stop and whether all live. The
  result is the number of looks until every thread is told to stop.
\<close>

fun supervise :: "(bool \<times> bool) list \<Rightarrow> nat option" where
  "supervise [] = None"
| "supervise ((stopped, alive) # looks) = (if stopped \<or> \<not> alive then Some 0 else map_option Suc (supervise looks))"

section \<open>The remote worker\<close>

text \<open>\<open>main\<close>: what is done before the pool runs, in order.\<close>

datatype worker_event = DrainUnmarked | HealthWithdrawn | TokenRead string | ModelLoaded | PoolStarted

definition start_remote_worker :: "(config_error, worker_config) result \<Rightarrow> string option \<Rightarrow> bool \<Rightarrow> worker_event list \<times> bool" where
  "start_remote_worker config token_file model = (case config of
     Inl _ \<Rightarrow> ([], False)
   | Inr c \<Rightarrow> (case token_file of
       None \<Rightarrow> ([DrainUnmarked, HealthWithdrawn], False)
     | Some content \<Rightarrow> (case read_token content of
       Inl _ \<Rightarrow> ([DrainUnmarked, HealthWithdrawn], False)
     | Inr t \<Rightarrow> if \<not> model then ([DrainUnmarked, HealthWithdrawn, TokenRead t], False)
         else ([DrainUnmarked, HealthWithdrawn, TokenRead t, ModelLoaded, PoolStarted], True))))"

section \<open>What starting guarantees\<close>

text \<open>
  The ingress serves only when everything before has succeeded: the schema is migrated first,
  in broker mode an outbox loop with a sound connection runs, workers are admitted only with a
  sound registry, and the upload limits are positive. When the start fails, it does not serve,
  and the monitoring endpoint it may have opened before the worker endpoint is closed.
\<close>

lemma and_then_done: "and_then p q = (es, Inr ()) \<longleftrightarrow> (\<exists>fs gs. p = (fs, Inr ()) \<and> q = (gs, Inr ()) \<and> es = fs @ gs)"
  by (auto simp: and_then_def split: prod.splits sum.splits)

theorem ingress_serves_when_ready:
  assumes "run_ingress env loopback files ok = (es, Inr ())"
  shows "\<exists>cfg lims ms. store_init env = Inr cfg \<and> upload_limits_from_env env = Inr lims \<and>
    es = SchemaReady # ms @ [CleanupStarted, Serving] \<and> ok SchemaReady \<and>
    (queue_backend cfg = Rabbitmq \<longrightarrow> (\<exists>c. OutboxStarted c \<in> set ms \<and> broker_config_ok loopback c)) \<and>
    (\<forall>a. WorkerApiStarted a \<in> set ms \<longrightarrow> (\<exists>creds. from_file (if_registry files) = Inr creds \<and> creds_ok creds))"
proof -
  obtain cfg where cfg: "store_init env = Inr cfg" "ok SchemaReady"
    using assms by (auto simp: run_ingress_def split: sum.splits if_splits)
  obtain o' p m w where stages: "start_outbox env loopback files cfg = (o', Inr ())" "bind_public env ok = (p, Inr ())"
    "start_metrics env cfg ok = (m, Inr ())" "start_workers env files ok = (w, Inr ())"
    and es: "es = SchemaReady # (o' @ p @ m @ w) @ [CleanupStarted, Serving]"
    using assms cfg by (auto simp: run_ingress_def and_then_done split: if_splits)
  have broker: "queue_backend cfg = Rabbitmq \<longrightarrow> (\<exists>c. OutboxStarted c \<in> set o' \<and> broker_config_ok loopback c)"
    using stages(1) config_of_ok
    by (auto simp: start_outbox_def broker_from_file_def split: if_splits sum.splits option.splits json.splits)
  obtain lims where lims: "upload_limits_from_env env = Inr lims"
    using stages(2) by (auto simp: bind_public_def Let_def result_simps split: sum.splits if_splits)
  have registry: "\<exists>creds. from_file (if_registry files) = Inr creds \<and> creds_ok creds" if a: "WorkerApiStarted a \<in> set (o' @ p @ m @ w)" for a
  proof -
    have "WorkerApiStarted a \<notin> set o'" using stages(1) by (auto simp: start_outbox_def split: if_splits sum.splits)
    moreover have "WorkerApiStarted a \<notin> set p" using stages(2) by (auto simp: bind_public_def Let_def split: if_splits sum.splits)
    moreover have "WorkerApiStarted a \<notin> set m" using stages(3) by (auto simp: start_metrics_def Let_def split: if_splits sum.splits)
    ultimately have "WorkerApiStarted a \<in> set w" using a by simp
    then show ?thesis using stages(4) from_file_ok [of "if_registry files"]
      by (auto simp: start_workers_def start_worker_apis_def Let_def split: if_splits sum.splits prod.splits)
  qed
  show ?thesis
    by (intro exI [of _ cfg] exI [of _ lims] exI [of _ "o' @ p @ m @ w"] conjI allI impI cfg lims es)
      (use broker registry in auto)
qed

lemma failed_start_closes_monitoring:
  assumes "start_workers env files ok = (es, Inl e)" and "getenv env ''METRICS_ADDRESS'' [] \<noteq> []"
  shows "es = [MetricsClosed]"
  using assms by (auto simp: start_workers_def start_worker_apis_def Let_def split: prod.splits sum.splits if_splits)

text \<open>A worker with an accepted token file is recognised exactly by the registered digest of its token.\<close>

lemma accepted_tokens_authenticate:
  assumes "read_token content = Inr t" and "creds_ok creds"
  shows "authenticate sha creds (bearer @ t) = Some w \<longleftrightarrow> (w, sha t) \<in> set creds"
proof -
  have "bearer_token_ok t" using assms(1) by (auto simp: read_token_def Let_def bearer_token_ok_def split: if_splits)
  moreover have "map_of creds w = Some (sha t) \<longleftrightarrow> (w, sha t) \<in> set creds"
    using assms(2) by (simp add: creds_ok_def map_of_eq_Some_iff)
  ultimately show ?thesis using authenticate_iff [OF assms(2), of sha "bearer @ t" w] by auto
qed

text \<open>The local worker's loop respects everything the store promises, whatever others do that does.\<close>

lemma keeps_report_step:
  assumes "tables_ok d"
  shows "keeps us d (report_step cfg w inst ready now d)"
  using keeps_report [OF assms] keeps_refl [OF assms] by (simp add: report_step_def split: option.split)

theorem worker_loop_keeps_the_store:
  assumes "tables_ok d" and "\<forall>t \<in> set ts. \<forall>e. tables_ok e \<longrightarrow> keeps [] e (lt_others t e)"
  shows "keeps [] d (worker_loop cfg w fallback inst bye ts d)"
  using assms
proof (induction ts arbitrary: d)
  case (Cons t ts)
  let ?e = "report_step cfg w inst True (lt_report t) (lt_others t d)"
  let ?d1 = "if lt_raises t then ?e else snd (worker_turn cfg (lt_locked t) (lt_clock t) (lt_uuid t) w fallback inst (lt_attempt t) ?e)"
  have o': "keeps [] d (lt_others t d)" using Cons.prems by simp
  have e: "keeps [] d ?e" by (rule keeps_trans [OF o' keeps_report_step [OF keeps_ok [OF o']]])
  have d1: "keeps [] d ?d1" using e keeps_trans [OF e keeps_turn [OF keeps_ok [OF e]]] by simp
  have "keeps [] ?d1 (worker_loop cfg w fallback inst bye ts ?d1)"
    by (rule Cons.IH [OF keeps_ok [OF d1]]) (use Cons.prems(2) in simp)
  from keeps_trans [OF d1 this] keeps_report_step [OF Cons.prems(1)] show ?case by (simp add: Let_def)
qed (simp add: keeps_refl)

end
