(* ===== verification/Spec2Isabelle.thy ===== *)
theory Spec2Isabelle
  imports Capacity Delivery Json Settings WorkerAuth WorkerApi Admission Service RemoteWorker WorkerPool Inference Updater MetricsProps ProvisionProps Images
    WorkerConfig Dashboards Publisher Releases Wiring
begin

text \<open>
  \<^bold>\<open>The program.\<close> A transcription service. Clients send recordings to the \<^emph>\<open>ingress\<close>
  (\<open>whisper/server.py\<close>), which keeps them on a job volume and their jobs in PostgreSQL
  (\<open>whisper/storage.py\<close>, \<open>whisper/sql/\<close>). Workers transcribe them: local workers claim jobs from the
  tables; remote workers (\<open>whisper/remote_worker.py\<close>) reach the tables only through the authenticated
  worker endpoint (\<open>whisper/worker_api.py\<close>), polling it or, in broker mode, consuming messages that
  an outbox loop publishes to RabbitMQ (\<open>whisper/broker.py\<close>). Every attempt runs under a lease whose
  token is drawn for it. Around the service, \<open>scripts/\<close> provisions the broker's accounts, builds and
  deploys images, replaces worker containers and generates dashboards.

  \<^bold>\<open>The tables and the store.\<close> \<open>Prelude\<close> and \<open>PyText\<close> hold what all theories share: results as
  sums, lists of rows, Python's texts and integers. \<open>Db\<close> has the tables as lists of records, with the
  trigger that counts events. \<open>Sql\<close> has a definition for each statement under \<open>whisper/sql/\<close>, on explicit
  clocks and with the row locks of others as parameters. \<open>Files\<close> is the job volume, \<open>JobStore\<close> the
  methods of the class, each one transaction. \<open>Lifecycle\<close> states the abstract life of a job and the
  locale \<open>row_statement\<close> - what a statement must satisfy so that rows stay well-formed and move along
  that life - interpreted for every statement. \<open>StoreSystem\<close> is the system of all callers, one
  transaction at a time in any order, with the clock moving in between; the locale
  \<open>transition_invariant\<close> of \<open>Prelude\<close> carries each invariant of it: the tables (\<open>StoreSystem\<close>), fencing of
  superseded attempts (\<open>Fencing\<close>), pool capacity (\<open>Capacity\<close>), messages for waiting jobs (\<open>BrokerMode\<close>).
  \<open>Guarantees\<close>, \<open>StoreOps\<close>, \<open>BrokerMode\<close> and \<open>Delivery\<close> derive what the store promises its clients;
  \<open>Scenario\<close> has the concrete runs used by witnesses.

  \<^bold>\<open>Configuration and identity.\<close> \<open>Json\<close> is the decoder and encoder, with the round trip; \<open>Scheduling\<close>
  and \<open>Settings\<close> are the settings with their validation; \<open>WorkerAuth\<close> the registry of credentials (locale
  \<open>authenticator\<close>); \<open>WorkerConfig\<close> the settings of a remote worker, the check of the selected
  containers and the readiness file.

  \<^bold>\<open>The ingress.\<close> \<open>Admission\<close> is the quota of the volume (locale \<open>block_volume\<close> for what the file
  system promises), \<open>Ingress\<close> and \<open>IngressProps\<close> the upload with the error of every step, \<open>Service\<close> the
  rest of the public endpoint and the local worker, \<open>WorkerApi\<close> the worker endpoint, \<open>Metrics\<close> and
  \<open>MetricsProps\<close> the monitoring page, \<open>Wiring\<close> how the processes start and the loop of a local worker.

  \<^bold>\<open>Broker and remote workers.\<close> \<open>Broker\<close> is the connection file and the envelope, \<open>Publisher\<close> the
  topology, the publisher's connection, the outbox loop and the permissions, \<open>Consumer\<close> one consumer as
  the commands it sends, \<open>RemoteWorker\<close> one task over calls that may lose a request or a reply,
  \<open>WorkerPool\<close> the threads of all slots interleaved between any two accesses to what they share,
  \<open>Inference\<close> the presets and a transcription over what the model yields.

  \<^bold>\<open>Operations.\<close> \<open>Provision\<close> and \<open>ProvisionProps\<close> are \<open>scripts/provision_rabbitmq.py\<close>, \<open>Images\<close> is
  \<open>scripts/images.py\<close>, \<open>Releases\<close> is \<open>scripts/worker_release.py\<close> with the Docker client of the updater,
  \<open>Updater\<close> is \<open>scripts/worker_updater.py\<close> as a program over an arbitrary Docker daemon, disk and clock
  whose trace may end anywhere, \<open>Dashboards\<close> is \<open>scripts/render_dashboards.py\<close>.

  \<^bold>\<open>This theory\<close> holds the properties that need several parts: pools of any accepted configuration stay
  within capacity, requests to the worker endpoint keep the tables, acknowledged messages leave
  nothing behind, and every job comes to an end.

  \<^bold>\<open>State and time.\<close> A state of the model is the database record \<open>db\<close> and, where files matter, the
  volume; other processes act between the steps of a modelled operation through a parameter (a
  function on the tables, constrained where a property needs it). Times are integers of
  microseconds, read from clocks that are given; identifiers that the code draws at random are
  arguments, with freshness as a hypothesis of the step. Integers are unbounded as in Python;
  floats are rational numbers where they are compared, and texts where they are only printed.

  \<^bold>\<open>Bounds and termination.\<close> No definition runs on fuel. Loops that wait for the world are functions of the
  list of what they see, so that a shorter list is a process still waiting or crashed; recursions are
  structural or have their measure (the JSON lexer, \<open>expand\<close>, \<open>py_replace\<close>). A job changes its
  status or attempt count at most \<open>2 * max_attempts + 3\<close> times.

  \<^bold>\<open>Not modelled.\<close> PostgreSQL, RabbitMQ, Docker, gRPC, the file system, the speech model, SHA-256 and
  openssl are parameters. Log lines, telemetry (\<open>whisper/telemetry.py\<close>, \<open>whisper/jsonlog.py\<close>), signal
  handlers and thread objects, the two entry points that only call others (\<open>whisper/main.py\<close>,
  \<open>whisper/migrate.py\<close>), the titles and display options of the dashboards, the copying of
  \<open>scripts/install_monitoring.py\<close>, and the pilot and smoke tests under \<open>scripts/\<close> are left out: they keep
  no state of the service or only drive the modelled parts from outside.
\<close>

section \<open>The configured service\<close>

lemma configured_policies:
  assumes "store_init env = Inr cfg" and "worker_policies cfg \<noteq> []"
  shows "policies_ok cfg" and "0 \<le> pool_cap cfg w \<and> pool_cap cfg w \<le> 32"
proof -
  note v = store_init_valid [OF assms(1)]
  have caps: "0 \<le> max_concurrency p \<and> max_concurrency p \<le> 32" if "map_of (worker_policies cfg) w = Some p" for w p
    using v(3) map_of_SomeD [OF that] by (auto simp: policies_valid_def policy_ok_def list_all_iff)
  then show "0 \<le> pool_cap cfg w \<and> pool_cap cfg w \<le> 32"
    by (auto simp: pool_cap_def split: option.split)
  from v assms(2) show "policies_ok cfg"
    by (auto simp: policies_ok_def policies_valid_def policy_ok_def list_all_iff)
qed

text \<open>
  C30: a service that starts keeps its pools within capacity. Whatever the environment says, if the store accepts
  it with worker policies, then in every reachable state and at every later instant each pool
  runs at most its configured number of jobs, which is at most 32, and none without a policy;
  and in broker mode there always are policies.
\<close>

theorem configured_pools_keep_capacity:
  assumes "store_init env = Inr cfg" and "worker_policies cfg \<noteq> [] \<or> queue_backend cfg = Rabbitmq"
    and "(store_step h cfg)\<^sup>*\<^sup>* init_sys s" and "sclock s \<le> t"
  shows "worker_policies cfg \<noteq> [] \<and> int (active_jobs t w (sdb s)) \<le> pool_cap cfg w \<and> pool_cap cfg w \<le> 32 \<and>
    (map_of (worker_policies cfg) w = None \<longrightarrow> active_jobs t w (sdb s) = 0)"
proof -
  have pols: "worker_policies cfg \<noteq> []" using assms(2) store_init_valid(4) [OF assms(1)] by blast
  have "int (active_jobs t w (sdb s)) \<le> pool_cap cfg w"
    using capacity_reachable [OF assms(3) configured_policies(1) [OF assms(1) pols] assms(4)] by blast
  moreover have "map_of (worker_policies cfg) w = None \<Longrightarrow> pool_cap cfg w = 0" by (simp add: pool_cap_def)
  ultimately show ?thesis using pols configured_policies(2) [OF assms(1) pols, of w] by simp linarith?
qed

definition small_env :: env where
  "small_env n = map_of [(''DATABASE_URL'', ''db''), (''JOB_LEASE_SECONDS'', ''9''),
     (''WORKER_POLICIES'', policies_text [(''gpu'', \<lparr>priority = 1, max_concurrency = 1\<rparr>)]), (''QUEUE_BACKEND'', ''rabbitmq'')] n"

theorem configured_pools_keep_capacity_witness:
  "\<exists>cfg. store_init small_env = Inr cfg \<and> active_jobs 5 ''cpu'' (sdb init_sys) = 0 \<and> pool_cap cfg ''gpu'' \<le> 32"
proof -
  have "case store_init small_env of Inl _ \<Rightarrow> False | Inr cfg \<Rightarrow> queue_backend cfg = Rabbitmq" by code_simp
  then obtain cfg where cfg: "store_init small_env = Inr cfg" "queue_backend cfg = Rabbitmq"
    by (auto split: sum.splits)
  have "(store_step demo_hash cfg)\<^sup>*\<^sup>* init_sys init_sys" and clock: "sclock init_sys \<le> 5"
    by (simp_all add: init_sys_def)
  from configured_pools_keep_capacity [OF cfg(1) disjI2 [OF cfg(2)] this(1) clock] cfg(1) show ?thesis
    by (auto simp: init_sys_def empty_db_def active_jobs_def)
qed

section \<open>The worker endpoint\<close>

text \<open>The requests that reach the endpoint, in the order of their transactions.\<close>

fun serve_all ::
  "(string \<Rightarrow> string \<Rightarrow> string \<Rightarrow> wire_segment list \<Rightarrow> int) \<Rightarrow> (api_env \<times> string list \<times> worker_request) list \<Rightarrow> db \<Rightarrow> db" where
  "serve_all bsize [] d = d"
| "serve_all bsize ((e, vals, q) # qs) d = serve_all bsize qs (snd (handle bsize e vals q d))"

lemma keeps_serve_all: "tables_ok d \<Longrightarrow> keeps us d (serve_all bsize qs d)"
proof (induction bsize qs d arbitrary: us rule: serve_all.induct)
  case (2 bsize e vals q qs d)
  have step: "keeps us d (snd (handle bsize e vals q d))" by (rule keeps_handle [OF 2(2)])
  then show ?case using 2(1) [OF keeps_ok [OF step], of "[]"] by (simp add: keeps_trans)
qed (simp add: keeps_refl)

text \<open>
  C33: the tables stay well-typed. From every reachable state, whatever requests anyone sends to
  the worker endpoint, with whatever credentials and values: the rows keep the shape their
  status prescribes, identifiers and observation keys stay unique, every observation stays a
  cumulative histogram over its bounds, the counters stay balanced, each job only moves along
  its life and no job is added.
\<close>

theorem requests_keep_the_tables:
  assumes "(store_step h cfg)\<^sup>*\<^sup>* init_sys s" and "0 < default_max_attempts cfg"
    and "d = serve_all bsize qs (sdb s)"
  shows "(\<forall>r \<in> set (jobs d). job_ok r) \<and> distinct (map job_id (jobs d)) \<and> obs_ok (observations d) \<and>
    balanced d \<and> tables_evo (sdb s) d \<and> job_ids d \<subseteq> job_ids (sdb s)"
proof -
  have "tables_ok (sdb s)" "balanced (sdb s)" using reachable_sys_ok [OF assms(1,2)] by (simp_all add: sys_ok_def)
  with keeps_serve_all [of "sdb s" "[]" bsize qs] assms(3) show ?thesis
    by (auto simp: keeps_def tables_ok_def adds_only_def)
qed

theorem requests_keep_the_tables_witness:
  "\<exists>d. d = serve_all (\<lambda>_ _ _ _. 0) [(demo_env, [''Bearer short''], Claim ''gpu'' (demo_uuid CHR ''5''))] (sdb claimed_sys) \<and>
     jobs d \<noteq> [] \<and> (\<forall>r \<in> set (jobs d). job_ok r)"
proof -
  have "jobs (serve_all (\<lambda>_ _ _ _. 0) [(demo_env, [''Bearer short''], Claim ''gpu'' (demo_uuid CHR ''5''))] (sdb claimed_sys)) \<noteq> []"
    by code_simp
  with requests_keep_the_tables [OF claimed_sys_reachable demo_budget refl] show ?thesis by blast
qed

section \<open>The broker's messages\<close>

text \<open>
  C29: messages are not lost. Take any consumer of a remote worker, over a network that loses
  calls and replies, beside any other processes. Before each acknowledgement it sends, the
  message was a well-formed task and either its attempt settled with the job done with that
  message (ended, gone, or waiting on a newer message, so that every later copy is discarded),
  or the delayed copy of the same message had been confirmed.
\<close>

theorem acknowledged_messages_are_spent:
  assumes "\<forall>t \<in> set ts. remote_turn bsize t" and "tables_ok d"
    and "fst (consume_slot ts d) = before @ AckMessage msg # behind"
  shows "\<exists>ahead i m e. delivery (fst msg) (snd msg) = Inr (i, m) \<and>
    (before = ahead @ [Receive msg, Attempted (i, m) (Some WSettled) e] \<and> message_spent i m e \<and>
       begin_attempt cfg c u w inst i m dl e = ((Discard, None), e) \<or>
     before = ahead @ [Receive msg, Attempted (i, m) (Some WBusy) e, CopyDelayed msg])"
proof -
  have "answered (\<lambda>(i, m) d. message_spent i m d \<and> tables_ok d) (fst (consume_slot ts d))"
    by (rule consumer_answers [OF remote_turns_earn [OF assms(1)] assms(2)])
  from answered_ack [OF this assms(3)] spent_is_discarded show ?thesis by fast
qed

text \<open>The consumer of \<open>demo_delivery\<close>: its one message is acknowledged, the attempt being settled.\<close>

definition demo_slot_message :: message where
  "demo_slot_message = (envelope (demo_uuid CHR ''1'') (demo_uuid CHR ''2''), Some (demo_uuid CHR ''2''))"

definition demo_slot_turn :: "db slot_turn" where
  "demo_slot_turn = \<lparr>tn_go = True, tn_changed = False,
     tn_message = Some demo_slot_message, tn_still = True,
     tn_rejected = True, tn_work = process_delivery (\<lambda>_ _ _ _. 0) demo_delivery, tn_stop = False, tn_closed = False,
     tn_copied = True, tn_acked = True\<rparr>"

theorem acknowledged_messages_are_spent_witness:
  "\<exists>e. fst (consume_slot [demo_slot_turn] (sdb admitted_sys)) =
       [Receive demo_slot_message, Attempted (demo_uuid CHR ''1'', demo_uuid CHR ''2'') (Some WSettled) e,
        AckMessage demo_slot_message] \<and>
     message_spent (demo_uuid CHR ''1'') (demo_uuid CHR ''2'') e"
proof -
  let ?m = demo_slot_message and ?task = "(demo_uuid CHR ''1'', demo_uuid CHR ''2'')"
  obtain out e where p: "process_delivery (\<lambda>_ _ _ _. 0) demo_delivery ?task (sdb admitted_sys) = (out, e)" by fastforce
  with demo_delivery_sound(1) have out: "out = Some WSettled" by simp
  have d: "delivery (fst ?m) (snd ?m) = Inr ?task" by code_simp
  have turn: "tn_message demo_slot_turn = Some ?m" "tn_go demo_slot_turn" "\<not> tn_changed demo_slot_turn" "tn_still demo_slot_turn"
    "tn_work demo_slot_turn = process_delivery (\<lambda>_ _ _ _. 0) demo_delivery" "\<not> tn_stop demo_slot_turn"
    "\<not> tn_closed demo_slot_turn" "tn_acked demo_slot_turn"
    by (simp_all add: demo_slot_turn_def)
  have run: "fst (consume_slot [demo_slot_turn] (sdb admitted_sys)) = [Receive ?m, Attempted ?task (Some WSettled) e] @ AckMessage ?m # []"
    unfolding consume_slot.simps turn(1) using p d turn(2-) by (simp add: out settle_message_def)
  have "remote_turn (\<lambda>_ _ _ _. 0) demo_slot_turn"
    unfolding remote_turn_def using demo_delivery_sound(3-7)
    by (intro exI [of _ demo_delivery]) (simp add: demo_slot_turn_def demo_slot_message_def)
  with acknowledged_messages_are_spent [OF _ demo_delivery_sound(2) run] d run show ?thesis by fastforce
qed

section \<open>Every job comes to an end\<close>

text \<open>
  What is left of a job's life: an upper bound of the changes of its status or attempt count
  that are still to come.
\<close>

fun life_left :: "int \<Rightarrow> status \<times> int \<Rightarrow> int" where
  "life_left m (Accepted, a) = 2 * (m - a) + 3"
| "life_left m (Downloading, a) = 2 * (m - a) + 2"
| "life_left m (Queued, a) = 2 * (m - a) + 1"
| "life_left m (Running, a) = 2 * (m - a) + 2"
| "life_left m (Done, a) = 0"
| "life_left m (Failed, a) = 0"

lemma life_left_nonneg: "a \<le> m \<Longrightarrow> 0 \<le> life_left m (s, a)"
  by (cases s) auto

lemma life_left_pos: "a \<le> m \<Longrightarrow> \<not> terminal s \<Longrightarrow> 0 < life_left m (s, a)"
  by (cases s) (auto simp: status_classes)

lemma lifecycle_left:
  "lifecycle m x y \<Longrightarrow> snd x \<le> m \<Longrightarrow> (y = x \<or> life_left m y < life_left m x) \<and> snd y \<le> m"
  by (induction rule: lifecycle.induct) (auto simp: status_classes life_left_pos)

lemma lives_left:
  assumes "(lifecycle m)\<^sup>*\<^sup>* x y" and "snd x \<le> m"
  shows "(y = x \<or> life_left m y < life_left m x) \<and> snd y \<le> m"
  using assms
proof (induction rule: rtranclp_induct)
  case (step y z)
  then show ?case using lifecycle_left [OF step.hyps(2)] by fastforce
qed simp

text \<open>The jobs of a run \<open>f\<close>: at each of its first \<open>n\<close> steps the row \<open>r k\<close>.\<close>

definition follows_job ::
  "(string \<Rightarrow> int) \<Rightarrow> store_config \<Rightarrow> string \<Rightarrow> (nat \<Rightarrow> sys) \<Rightarrow> (nat \<Rightarrow> job) \<Rightarrow> nat \<Rightarrow> bool" where
  "follows_job h cfg i f r n \<longleftrightarrow> (store_step h cfg)\<^sup>*\<^sup>* init_sys (f 0) \<and> (\<forall>k<n. store_step h cfg (f k) (f (Suc k))) \<and>
     (\<forall>k\<le>n. job_by_id i (sdb (f k)) = Some (r k))"

definition life_changes :: "(nat \<Rightarrow> job) \<Rightarrow> nat \<Rightarrow> nat" where
  "life_changes r n = card {k. k < n \<and> (status (r (Suc k)), attempts (r (Suc k))) \<noteq> (status (r k), attempts (r k))}"

lemma life_changes_Suc:
  "life_changes r (Suc n) = life_changes r n +
     (if (status (r (Suc n)), attempts (r (Suc n))) \<noteq> (status (r n), attempts (r n)) then 1 else 0)"
proof -
  have "{k. k < Suc n \<and> P k} = {k. k < n \<and> P k} \<union> (if P n then {n} else {})" for P
    by (auto simp: less_Suc_eq)
  then show ?thesis by (simp add: life_changes_def)
qed

lemma life_changes_left:
  assumes "0 < default_max_attempts cfg"
  shows "follows_job h cfg i f r n \<Longrightarrow>
    max_attempts (r n) = max_attempts (r 0) \<and> 0 \<le> attempts (r n) \<and> attempts (r n) \<le> max_attempts (r 0) \<and>
    int (life_changes r n) \<le> life_left (max_attempts (r 0)) (status (r 0), attempts (r 0)) -
      life_left (max_attempts (r 0)) (status (r n), attempts (r n))"
proof (induction n)
  case 0
  then have reach: "(store_step h cfg)\<^sup>*\<^sup>* init_sys (f 0)" and row: "job_by_id i (sdb (f 0)) = Some (r 0)"
    by (simp_all add: follows_job_def)
  from job_in_table [OF reachable_sys_ok [OF reach assms] row] show ?case
    by (simp add: life_changes_def job_ok_def)
next
  case (Suc n)
  then have IH: "max_attempts (r n) = max_attempts (r 0)" "attempts (r n) \<le> max_attempts (r 0)"
    "int (life_changes r n) \<le> life_left (max_attempts (r 0)) (status (r 0), attempts (r 0)) -
       life_left (max_attempts (r 0)) (status (r n), attempts (r n))"
    by (simp_all add: follows_job_def)
  have "(store_step h cfg)\<^sup>*\<^sup>* init_sys (f k)" if "k \<le> n" for k
    using that Suc.prems
    by (induction k) (auto simp: follows_job_def intro: rtranclp.rtrancl_into_rtrancl)
  then have reach: "(store_step h cfg)\<^sup>*\<^sup>* init_sys (f n)" by blast
  have step: "store_step h cfg (f n) (f (Suc n))"
    and rows: "job_by_id i (sdb (f n)) = Some (r n)" "job_by_id i (sdb (f (Suc n))) = Some (r (Suc n))"
    using Suc.prems by (auto simp: follows_job_def)
  note sys = reachable_sys_ok [OF reach assms]
  have sys': "sys_ok (f (Suc n))" by (rule steps_sys_ok [OF r_into_rtranclp [where r = "store_step h cfg", OF step] assms sys])
  have "row_evo (r n) (r (Suc n))"
    using steps_evo [OF r_into_rtranclp [where r = "store_step h cfg", OF step] assms sys] rows by (auto simp: tables_evo_def)
  then have evo: "max_attempts (r (Suc n)) = max_attempts (r n)"
    "(lifecycle (max_attempts (r n)))\<^sup>*\<^sup>* (status (r n), attempts (r n)) (status (r (Suc n)), attempts (r (Suc n)))"
    using row_key_sel [of "r (Suc n)" "r n"] by (auto simp: row_evo_def)
  from lives_left [OF evo(2)] IH have left: "(status (r (Suc n)), attempts (r (Suc n))) = (status (r n), attempts (r n)) \<or>
      life_left (max_attempts (r 0)) (status (r (Suc n)), attempts (r (Suc n))) < life_left (max_attempts (r 0)) (status (r n), attempts (r n))"
    by simp
  with job_in_table [OF sys' rows(2)] evo(1) IH show ?case
    by (auto simp: life_changes_Suc job_ok_def)
qed

text \<open>
  C31: every job comes to an end. However the processes of the service interleave, while its row
  exists a job changes its status or its attempt count at most \<open>2 * max_attempts + 3\<close> times; a
  run in which it keeps changing therefore ends it.
\<close>

theorem jobs_come_to_an_end:
  assumes "follows_job h cfg i f r n" and "0 < default_max_attempts cfg"
  shows "int (life_changes r n) \<le> 2 * max_attempts (r 0) + 3 \<and>
    (int (life_changes r n) = 2 * max_attempts (r 0) + 3 \<longrightarrow> terminal (status (r n)))"
proof -
  have "follows_job h cfg i f r 0" using assms(1) by (simp add: follows_job_def)
  note start = life_changes_left [OF assms(2) this]
  note fin = life_changes_left [OF assms(2,1)]
  have "life_left (max_attempts (r 0)) (status (r 0), attempts (r 0)) \<le> 2 * max_attempts (r 0) + 3"
    using start by (cases "status (r 0)") auto
  moreover have "0 \<le> life_left (max_attempts (r 0)) (status (r n), attempts (r n))"
    using fin by (simp add: life_left_nonneg)
  moreover have "\<not> terminal (status (r n)) \<Longrightarrow> 0 < life_left (max_attempts (r 0)) (status (r n), attempts (r n))"
    using fin by (simp add: life_left_pos)
  ultimately show ?thesis using fin by fastforce
qed

text \<open>A claimed job is completed.\<close>

lemma completion_step: "store_step demo_hash (demo_cfg Postgres) claimed_sys completed_sys"
proof -
  obtain c k where ck: "completed_run = [(c, k)]" "c = at_time 5" by (simp add: completed_run_def)
  have "run_ok demo_hash (demo_cfg Postgres) claimed_sys completed_run" by code_simp
  with ck show ?thesis
    unfolding completed_sys_def ck(1) run_calls.simps by (intro store_step.call) simp_all
qed

theorem jobs_come_to_an_end_witness:
  "\<exists>r. follows_job demo_hash (demo_cfg Postgres) (demo_uuid CHR ''1'') (\<lambda>k. if k = 0 then claimed_sys else completed_sys) r 1 \<and>
     int (life_changes r 1) \<le> 9"
proof -
  let ?i = "demo_uuid CHR ''1''"
  have s: "map_option max_attempts (job_by_id ?i (sdb claimed_sys)) = Some 3"
    and t: "job_by_id ?i (sdb completed_sys) \<noteq> None" by code_simp+
  from s t obtain r0 r1 where rows: "job_by_id ?i (sdb claimed_sys) = Some r0" "max_attempts r0 = 3"
    "job_by_id ?i (sdb completed_sys) = Some r1" by auto
  let ?r = "\<lambda>k :: nat. if k = 0 then r0 else r1"
  have run: "follows_job demo_hash (demo_cfg Postgres) ?i (\<lambda>k. if k = 0 then claimed_sys else completed_sys) ?r 1"
    using rows completion_step claimed_sys_reachable by (auto simp: follows_job_def)
  from jobs_come_to_an_end [OF run demo_budget] rows have "int (life_changes ?r 1) \<le> 9" by simp
  with run show ?thesis by blast
qed

end
